(* ===== verification/Prelude.thy ===== *)
theory Prelude
  imports Main "HOL-Library.Word" "HOL-Library.Product_Lexorder"
begin

section \<open>Prelude: machine integers, results and shared lemmas\<close>

text \<open>
  The types and lemmas every other theory of the development shares.

  \<^item> Rust's fixed-width integers are words. Unchecked arithmetic on a word wraps, which is
    what the release profile of the workspace does (\<open>Cargo.toml\<close> does not turn
    \<open>overflow-checks\<close> on for it). \<open>checked_add\<close>, \<open>checked_sub\<close>,
    \<open>checked_mul\<close> and the saturating operations are those of Rust's standard library.
  \<^item> \<open>usize\<close> values that count the elements of a collection are \<open>nat\<close>.
  \<^item> A Rust \<open>Result\<close> is the type \<open>('e, 'a) result\<close>. Its third constructor
    \<open>Panic\<close> is an \<open>expect\<close>, \<open>unwrap\<close>, \<open>assert!\<close> or \<open>panic!\<close>
    that fires, so that not panicking is a statement of the model.
\<close>

subsection \<open>Types\<close>

type_synonym u8 = "8 word"
type_synonym u16 = "16 word"
type_synonym u32 = "32 word"
type_synonym u64 = "64 word"

text \<open>The facts that the proofs about checked arithmetic share.\<close>

named_theorems checked_simps \<open>characterisations of Rust's checked and saturating arithmetic\<close>

subsection \<open>Results with panics\<close>

datatype ('e, 'a) result = Ok 'a | Err 'e | Panic

fun rbind :: "('e, 'a) result \<Rightarrow> ('a \<Rightarrow> ('e, 'b) result) \<Rightarrow> ('e, 'b) result" where
  "rbind (Ok x) f = f x"
| "rbind (Err e) f = Err e"
| "rbind Panic f = Panic"

fun map_err :: "('e \<Rightarrow> 'f) \<Rightarrow> ('e, 'a) result \<Rightarrow> ('f, 'a) result" where
  "map_err g (Ok x) = Ok x"
| "map_err g (Err e) = Err (g e)"
| "map_err g Panic = Panic"

fun map_ok :: "('a \<Rightarrow> 'b) \<Rightarrow> ('e, 'a) result \<Rightarrow> ('e, 'b) result" where
  "map_ok g (Ok x) = Ok (g x)"
| "map_ok g (Err e) = Err e"
| "map_ok g Panic = Panic"

text \<open>\<open>Option::ok_or\<close> and \<open>Option::expect\<close>.\<close>

fun ok_or :: "'a option \<Rightarrow> 'e \<Rightarrow> ('e, 'a) result" where
  "ok_or (Some x) e = Ok x"
| "ok_or None e = Err e"

fun expect :: "'a option \<Rightarrow> ('e, 'a) result" where
  "expect (Some x) = Ok x"
| "expect None = Panic"

text \<open>\<open>ensure!(b, e)\<close> and \<open>assert!(b)\<close>.\<close>

definition ensure :: "bool \<Rightarrow> 'e \<Rightarrow> ('e, unit) result" where
  "ensure b e = (if b then Ok () else Err e)"

definition rassert :: "bool \<Rightarrow> ('e, unit) result" where
  "rassert b = (if b then Ok () else Panic)"

text \<open>\<open>Result::expect\<close>.\<close>

fun expect_ok :: "('f, 'a) result \<Rightarrow> ('e, 'a) result" where
  "expect_ok (Ok x) = Ok x"
| "expect_ok (Err e) = Panic"
| "expect_ok Panic = Panic"

lemma neq_Some_unit: "x \<noteq> Some () \<longleftrightarrow> x = None"
  by (cases x) auto

lemma rbind_eq_Ok [simp]: "rbind m f = Ok y \<longleftrightarrow> (\<exists>x. m = Ok x \<and> f x = Ok y)"
  by (cases m) auto

lemma rbind_eq_Err: "rbind m f = Err e \<longleftrightarrow> m = Err e \<or> (\<exists>x. m = Ok x \<and> f x = Err e)"
  by (cases m) auto

lemma rbind_eq_Panic: "rbind m f = Panic \<longleftrightarrow> m = Panic \<or> (\<exists>x. m = Ok x \<and> f x = Panic)"
  by (cases m) auto

lemma map_err_eq_Ok [simp]: "map_err g m = Ok y \<longleftrightarrow> m = Ok y"
  by (cases m) auto

lemma map_err_eq_Panic [simp]: "map_err g m = Panic \<longleftrightarrow> m = Panic"
  by (cases m) auto

lemma map_err_eq_Err: "map_err g m = Err e \<longleftrightarrow> (\<exists>e'. m = Err e' \<and> e = g e')"
  by (cases m) auto

lemma map_ok_eq_Ok [simp]: "map_ok g m = Ok y \<longleftrightarrow> (\<exists>x. m = Ok x \<and> y = g x)"
  by (cases m) auto

lemma map_ok_eq_Err [simp]: "map_ok g m = Err e \<longleftrightarrow> m = Err e"
  by (cases m) auto

lemma map_ok_eq_Panic [simp]: "map_ok g m = Panic \<longleftrightarrow> m = Panic"
  by (cases m) auto

lemma ok_or_eq [simp]:
  "ok_or x e = Ok y \<longleftrightarrow> x = Some y"
  "ok_or x e = Err e' \<longleftrightarrow> x = None \<and> e' = e"
  "ok_or x e \<noteq> Panic"
  by (cases x; auto)+

lemma expect_eq [simp]:
  "expect x = Ok y \<longleftrightarrow> x = Some y"
  "expect x = Panic \<longleftrightarrow> x = None"
  "expect x \<noteq> Err e"
  by (cases x; auto)+

lemma ensure_eq [simp]:
  "ensure b e = Ok u \<longleftrightarrow> b"
  "ensure b e = Err e' \<longleftrightarrow> \<not> b \<and> e' = e"
  "ensure b e \<noteq> Panic"
  by (auto simp: ensure_def)

lemma rassert_eq [simp]:
  "rassert b = Ok u \<longleftrightarrow> b"
  "rassert b = Panic \<longleftrightarrow> \<not> b"
  "rassert b \<noteq> Err e"
  by (auto simp: rassert_def)

lemma guard_simps [simp]:
  "ensure True e = Ok ()" "ensure False e = Err e" "rassert True = Ok ()" "rassert False = Panic"
  by (simp_all add: ensure_def rassert_def)

text \<open>Evaluating a chain of calls from the left, as a congruence rule.\<close>

lemma rbind_weak_cong: "r = r' \<Longrightarrow> rbind r f = rbind r' f"
  by simp

lemma rbind_assoc: "rbind (rbind m f) g = rbind m (\<lambda>x. rbind (f x) g)"
  by (cases m) simp_all

lemma rbind_Ok_right [simp]: "rbind m Ok = m"
  by (cases m) simp_all

lemma rbind_cong [fundef_cong]:
  assumes "m = m'" and "\<And>x. m' = Ok x \<Longrightarrow> f x = f' x"
  shows "rbind m f = rbind m' f'"
  using assms by (cases m') auto

subsection \<open>Checked and saturating arithmetic\<close>

definition checked_add :: "'a::len word \<Rightarrow> 'a word \<Rightarrow> 'a word option" where
  "checked_add a b = (if unat a + unat b < 2 ^ LENGTH('a) then Some (a + b) else None)"

definition checked_sub :: "'a::len word \<Rightarrow> 'a word \<Rightarrow> 'a word option" where
  "checked_sub a b = (if b \<le> a then Some (a - b) else None)"

definition checked_mul :: "'a::len word \<Rightarrow> 'a word \<Rightarrow> 'a word option" where
  "checked_mul a b = (if unat a * unat b < 2 ^ LENGTH('a) then Some (a * b) else None)"

definition saturating_add :: "'a::len word \<Rightarrow> 'a word \<Rightarrow> 'a word" where
  "saturating_add a b = (if unat a + unat b < 2 ^ LENGTH('a) then a + b else - 1)"

definition saturating_sub :: "'a::len word \<Rightarrow> 'a word \<Rightarrow> 'a word" where
  "saturating_sub a b = (if b \<le> a then a - b else 0)"

definition saturating_mul :: "'a::len word \<Rightarrow> 'a word \<Rightarrow> 'a word" where
  "saturating_mul a b = (if unat a * unat b < 2 ^ LENGTH('a) then a * b else - 1)"

lemma unat_plus_small:
  "unat a + unat b < 2 ^ LENGTH('a) \<Longrightarrow> unat (a + b) = unat a + unat (b :: 'a::len word)"
  by (simp add: unat_word_ariths)

lemma unat_plus_one:
  fixes a b :: u64
  assumes "a < b"
  shows "unat (a + 1) = Suc (unat a)"
proof -
  have "unat a + unat (1 :: u64) < 2 ^ 64"
    using assms unsigned_less [of b, where 'a = nat] by (simp add: word_less_nat_alt)
  then show ?thesis
    by (subst unat_plus_small) simp_all
qed

lemma unat_mult_small:
  "unat a * unat b < 2 ^ LENGTH('a) \<Longrightarrow> unat (a * b) = unat a * unat (b :: 'a::len word)"
  by (simp add: unat_word_ariths)

lemma unat_max: "unat (- 1 :: 'a::len word) = 2 ^ LENGTH('a) - 1"
  by (simp add: unsigned_minus_1_eq_mask mask_eq_exp_minus_1)

lemma checked_add_eq_Some [checked_simps]:
  "checked_add a b = Some c \<longleftrightarrow> unat c = unat a + unat b"
proof
  assume "checked_add a b = Some c"
  then show "unat c = unat a + unat b"
    by (auto simp: checked_add_def unat_plus_small split: if_splits)
next
  assume eq: "unat c = unat a + unat b"
  then have small: "unat a + unat b < 2 ^ LENGTH('a)"
    using unsigned_less [of c, where 'a = nat] by simp
  then have "unat (a + b) = unat c"
    using eq by (simp add: unat_plus_small)
  then have "a + b = c"
    by (simp only: word_unat_eq_iff)
  then show "checked_add a b = Some c"
    using small by (simp add: checked_add_def)
qed

lemma checked_add_eq_None [checked_simps]:
  "checked_add a b = None \<longleftrightarrow> 2 ^ LENGTH('a) \<le> unat a + unat (b :: 'a::len word)"
  by (auto simp: checked_add_def)

lemma checked_sub_eq_Some [checked_simps]:
  "checked_sub a b = Some c \<longleftrightarrow> unat b \<le> unat a \<and> unat c = unat a - unat b"
  by (auto simp: checked_sub_def word_le_nat_alt unat_sub word_unat_eq_iff)

lemma checked_sub_eq_None [checked_simps]:
  "checked_sub a b = None \<longleftrightarrow> unat a < unat b"
  by (auto simp: checked_sub_def word_le_nat_alt)

lemma checked_mul_eq_Some [checked_simps]:
  "checked_mul a b = Some c \<longleftrightarrow> unat c = unat a * unat b"
proof
  assume "checked_mul a b = Some c"
  then show "unat c = unat a * unat b"
    by (auto simp: checked_mul_def unat_mult_small split: if_splits)
next
  assume eq: "unat c = unat a * unat b"
  then have small: "unat a * unat b < 2 ^ LENGTH('a)"
    using unsigned_less [of c, where 'a = nat] by simp
  then have "unat (a * b) = unat c"
    using eq by (simp add: unat_mult_small)
  then have "a * b = c"
    by (simp only: word_unat_eq_iff)
  then show "checked_mul a b = Some c"
    using small by (simp add: checked_mul_def)
qed

lemma unat_saturating_add [checked_simps]:
  "unat (saturating_add a b) = min (unat a + unat b) (2 ^ LENGTH('a) - 1)"
  for a b :: "'a::len word"
  by (auto simp: saturating_add_def unat_plus_small unat_max)

lemma unat_saturating_sub [checked_simps]: "unat (saturating_sub a b) = unat a - unat b"
  by (auto simp: saturating_sub_def word_le_nat_alt unat_sub)

lemma unat_saturating_mul [checked_simps]:
  "unat (saturating_mul a b) = min (unat a * unat b) (2 ^ LENGTH('a) - 1)"
  for a b :: "'a::len word"
  by (auto simp: saturating_mul_def unat_mult_small unat_max)

lemma unat_div_word: "unat (a div b) = unat a div unat b"
  by (rule unat_div_distrib)

lemma unat_mod_word: "unat (a mod b) = unat a mod unat b"
  by (rule unat_mod_distrib)

lemma unat_ucast_mod:
  "unat (ucast (x :: 'a::len word) :: 'b::len word) = unat x mod 2 ^ LENGTH('b)"
  by (simp only: unsigned_ucast_eq take_bit_eq_mod)

lemma unat_of_nat_u64: "n < 2 ^ 64 \<Longrightarrow> unat (of_nat n :: u64) = n"
  by (simp add: unat_of_nat)

text \<open>\<open>i64::checked_add\<close>: the words read as two's complement.\<close>

definition checked_sadd :: "'a::len word \<Rightarrow> 'a word \<Rightarrow> 'a word option" where
  "checked_sadd a b =
     (if - (2 ^ (LENGTH('a) - 1)) \<le> sint a + sint b \<and> sint a + sint b < 2 ^ (LENGTH('a) - 1)
      then Some (a + b) else None)"

lemma sint_small:
  assumes "- (2 ^ (LENGTH('a) - 1)) \<le> k" and "k < 2 ^ (LENGTH('a) - 1)"
  shows "sint (word_of_int k :: 'a::len word) = k"
  using assms by (simp add: signed_of_int signed_take_bit_int_eq_self)

lemma checked_sadd_eq_Some [checked_simps]:
  "checked_sadd a b = Some c \<longleftrightarrow> sint c = sint a + sint b"
proof
  assume "checked_sadd a b = Some c"
  then have "- (2 ^ (LENGTH('a) - 1)) \<le> sint a + sint b" "sint a + sint b < 2 ^ (LENGTH('a) - 1)" "c = a + b"
    by (auto simp: checked_sadd_def split: if_splits)
  moreover have "a + b = word_of_int (sint a + sint b)"
    by simp
  ultimately show "sint c = sint a + sint b"
    using sint_small [of "sint a + sint b", where 'a = 'a] by metis
next
  assume eq: "sint c = sint a + sint b"
  moreover have "c = a + b"
    using arg_cong [OF eq, of "word_of_int :: int \<Rightarrow> 'a word"] by simp
  ultimately show "checked_sadd a b = Some c"
    using sint_range_size [of c] by (simp add: checked_sadd_def word_size)
qed

text \<open>Unchecked subtraction on \<open>usize\<close>.\<close>

definition usize_sub :: "nat \<Rightarrow> nat \<Rightarrow> nat" where
  "usize_sub a b = (if b \<le> a then a - b else 2 ^ 64 + a - b)"

lemma usize_sub_le [simp]: "b \<le> a \<Longrightarrow> usize_sub a b = a - b"
  by (simp add: usize_sub_def)

subsection \<open>Lists\<close>

lemma sum_list_map_le:
  fixes f g :: "'a \<Rightarrow> 'b::ordered_comm_monoid_add"
  assumes "\<And>x. x \<in> set xs \<Longrightarrow> f x \<le> g x"
  shows "(\<Sum>x\<leftarrow>xs. f x) \<le> (\<Sum>x\<leftarrow>xs. g x)"
  using assms by (induction xs) (auto intro: add_mono)

subsection \<open>Iterators\<close>

text \<open>
  \<open>Iterator::reduce\<close>, and collecting an iterator of results: the first error or panic ends
  the iteration.
\<close>

fun reduce :: "('a \<Rightarrow> 'a \<Rightarrow> 'a) \<Rightarrow> 'a list \<Rightarrow> 'a option" where
  "reduce f [] = None"
| "reduce f (x # xs) = Some (foldl f x xs)"

fun traverse :: "('a \<Rightarrow> ('e, 'b) result) \<Rightarrow> 'a list \<Rightarrow> ('e, 'b list) result" where
  "traverse f [] = Ok []"
| "traverse f (x # xs) = rbind (f x) (\<lambda>y. rbind (traverse f xs) (\<lambda>ys. Ok (y # ys)))"

lemma traverse_Ok: "(\<And>x. x \<in> set xs \<Longrightarrow> f x = Ok (g x)) \<Longrightarrow> traverse f xs = Ok (map g xs)"
  by (induction xs) auto

lemma traverse_eq_Ok: "traverse f xs = Ok ys \<longleftrightarrow> list_all2 (\<lambda>x y. f x = Ok y) xs ys"
  by (induction xs arbitrary: ys) (auto simp: list_all2_Cons1)

lemma traverse_eq_Panic:
  "traverse f xs = Panic \<Longrightarrow> \<exists>x\<in>set xs. f x = Panic"
  by (induction xs) (auto simp: rbind_eq_Panic)

lemma reduce_add: "xs \<noteq> [] \<Longrightarrow> reduce (+) xs = Some (sum_list xs :: 'a::comm_monoid_add)"
  by (cases xs) (simp_all add: foldl_conv_fold fold_plus_sum_list_rev ac_simps)

lemma reduce_mult: "xs \<noteq> [] \<Longrightarrow> reduce (*) xs = Some (prod_list xs :: 'a::comm_monoid_mult)"
proof -
  have "foldl (*) a xs = a * prod_list xs" for a :: 'a and xs
    by (induction xs arbitrary: a) (simp_all add: ac_simps)
  then show "xs \<noteq> [] \<Longrightarrow> reduce (*) xs = Some (prod_list xs :: 'a)"
    by (cases xs) simp_all
qed

text \<open>Indexing a slice, which panics out of range.\<close>

definition slice_index :: "'a list \<Rightarrow> nat \<Rightarrow> ('e, 'a) result" where
  "slice_index xs i = (if i < length xs then Ok (xs ! i) else Panic)"

lemma slice_index_eq [simp]:
  "slice_index xs i = Ok x \<longleftrightarrow> i < length xs \<and> x = xs ! i"
  "slice_index xs i = Panic \<longleftrightarrow> length xs \<le> i"
  "slice_index xs i \<noteq> Err e"
  by (auto simp: slice_index_def)

end
