(* ===== verification/Btree.thy ===== *)
theory Btree
  imports Prelude
begin

section \<open>Ordered maps and database tables\<close>

text \<open>
  \<open>BTreeMap\<close> of Rust's standard library, and the tables of the key-value database
  (\<open>fedimint-core/src/db\<close>), as association lists that are strictly sorted by key.
  Both iterate in key order, so the list is exactly the sequence an iterator yields.
  For the database this rests on the encoding of keys keeping their order, which the theory
  \<open>Encoding\<close> proves for \<open>u64\<close> keys.

  The locale \<open>ordered_map\<close> is the interface the other theories rely on: what a lookup
  returns after an insertion or a removal, and what the entries are. Its lemmas say how a
  sum over all entries (a balance sheet) changes when one entry changes.
\<close>

subsection \<open>The interface\<close>

locale ordered_map =
  fixes lookup :: "'m \<Rightarrow> 'k::linorder \<Rightarrow> 'v option"
    and insert :: "'k \<Rightarrow> 'v \<Rightarrow> 'm \<Rightarrow> 'm"
    and remove :: "'k \<Rightarrow> 'm \<Rightarrow> 'm"
    and entries :: "'m \<Rightarrow> ('k \<times> 'v) list"
    and invar :: "'m \<Rightarrow> bool"
  assumes entries_sorted: "invar m \<Longrightarrow> sorted_wrt (<) (map fst (entries m))"
    and lookup_entries: "invar m \<Longrightarrow> lookup m = map_of (entries m)"
    and lookup_insert: "invar m \<Longrightarrow> lookup (insert k v m) = (lookup m)(k \<mapsto> v)"
    and lookup_remove: "invar m \<Longrightarrow> lookup (remove k m) = (lookup m)(k := None)"
    and invar_insert: "invar m \<Longrightarrow> invar (insert k v m)"
    and invar_remove: "invar m \<Longrightarrow> invar (remove k m)"
begin

definition total :: "('k \<Rightarrow> 'v \<Rightarrow> 'n::comm_monoid_add) \<Rightarrow> 'm \<Rightarrow> 'n" where
  "total f m = (\<Sum>(k, v)\<leftarrow>entries m. f k v)"

lemma entries_distinct: "invar m \<Longrightarrow> distinct (map fst (entries m))"
  using entries_sorted by (simp add: strict_sorted_iff)

lemma finite_dom: "invar m \<Longrightarrow> finite (dom (lookup m))"
  by (simp add: lookup_entries finite_dom_map_of)

lemma total_dom:
  assumes "invar m"
  shows "total f m = (\<Sum>k\<in>dom (lookup m). f k (the (lookup m k)))"
proof -
  have "total f m = (\<Sum>p\<in>set (entries m). f (fst p) (snd p))"
    using entries_distinct [OF assms]
    by (simp add: total_def sum_list_distinct_conv_sum_set case_prod_beta' distinct_map)
  also have "\<dots> = (\<Sum>p\<in>set (entries m). f (fst p) (the (lookup m (fst p))))"
    using entries_distinct [OF assms]
    by (intro sum.cong) (auto simp: lookup_entries [OF assms])
  also have "\<dots> = (\<Sum>k\<in>fst ` set (entries m). f k (the (lookup m k)))"
    using entries_distinct [OF assms] by (simp add: sum.reindex distinct_map)
  finally show ?thesis
    by (simp add: lookup_entries [OF assms] dom_map_of_conv_image_fst)
qed

lemma total_insert_new:
  assumes "invar m" and "lookup m k = None"
  shows "total f (insert k v m) = f k v + total f m"
proof -
  have "k \<notin> dom (lookup m)"
    using assms(2) by auto
  moreover from this
  have "(\<Sum>j\<in>dom (lookup m). f j (the (if j = k then Some v else lookup m j)))
      = (\<Sum>j\<in>dom (lookup m). f j (the (lookup m j)))"
    by (intro sum.cong) auto
  ultimately show ?thesis
    using assms(1) finite_dom [OF assms(1)]
    by (simp add: total_dom invar_insert lookup_insert)
qed

lemma total_remove:
  assumes "invar m" and "lookup m k = Some v"
  shows "total f m = f k v + total f (remove k m)"
proof -
  have "k \<in> dom (lookup m)"
    using assms(2) by auto
  from sum.remove [OF finite_dom [OF assms(1)] this, of "\<lambda>j. f j (the (lookup m j))"]
  have "(\<Sum>j\<in>dom (lookup m). f j (the (lookup m j)))
      = f k v + (\<Sum>j\<in>dom (lookup m) - {k}. f j (the (lookup m j)))"
    by (simp only: assms(2) option.sel)
  moreover have "(\<Sum>j\<in>dom (lookup m) - {k}. f j (the (lookup m j)))
      = (\<Sum>j\<in>dom ((lookup m)(k := None)). f j (the (((lookup m)(k := None)) j)))"
    by (intro sum.cong) auto
  ultimately show ?thesis
    using assms(1) by (simp only: total_dom invar_remove lookup_remove)
qed

lemma total_update_add:
  assumes "invar m" and "lookup m k = Some w"
  shows "total f (insert k v m) + f k w = total f m + f k v"
proof -
  have "lookup (insert k v m) k = Some v"
    using assms(1) by (simp add: lookup_insert)
  then have "total f (insert k v m) = f k v + total f (remove k (insert k v m))"
    using assms(1) by (intro total_remove) (simp_all add: invar_insert)
  moreover have "total f (remove k (insert k v m)) = total f (remove k m)"
    using assms(1) by (simp add: total_dom invar_insert invar_remove lookup_insert lookup_remove)
  ultimately show ?thesis
    using total_remove [OF assms, of f] by (simp add: ac_simps)
qed

lemma total_update:
  fixes f :: "'k \<Rightarrow> 'v \<Rightarrow> 'n::ab_group_add"
  assumes "invar m" and "lookup m k = Some w"
  shows "total f (insert k v m) = total f m - f k w + f k v"
  using total_update_add [OF assms, of f v] by (simp add: algebra_simps)

text \<open>An entry that is created from a default of no weight, or replaced.\<close>

lemma total_upsert:
  assumes "invar m" and "f k d = 0"
  shows "total f (insert k v m) + f k (case lookup m k of None \<Rightarrow> d | Some w \<Rightarrow> w)
    = total f m + f k v"
  using assms total_insert_new [of m k f v] total_update_add [of m k _ f v]
  by (cases "lookup m k") (simp_all add: ac_simps)

end

subsection \<open>Sorted association lists\<close>

type_synonym ('k, 'v) btree = "('k \<times> 'v) list"

abbreviation bt_get :: "('k, 'v) btree \<Rightarrow> 'k \<Rightarrow> 'v option" where
  "bt_get m k \<equiv> map_of m k"

fun bt_insert :: "'k::linorder \<Rightarrow> 'v \<Rightarrow> ('k, 'v) btree \<Rightarrow> ('k, 'v) btree" where
  "bt_insert k v [] = [(k, v)]"
| "bt_insert k v ((j, w) # m) =
     (if k < j then (k, v) # (j, w) # m
      else if k = j then (k, v) # m
      else (j, w) # bt_insert k v m)"

definition bt_remove :: "'k \<Rightarrow> ('k, 'v) btree \<Rightarrow> ('k, 'v) btree" where
  "bt_remove k m = filter (\<lambda>p. fst p \<noteq> k) m"

definition bt_wf :: "('k::linorder, 'v) btree \<Rightarrow> bool" where
  "bt_wf m = sorted_wrt (<) (map fst m)"

definition bt_keys :: "('k, 'v) btree \<Rightarrow> 'k list" where
  "bt_keys m = map fst m"

definition bt_values :: "('k, 'v) btree \<Rightarrow> 'v list" where
  "bt_values m = map snd m"

text \<open>\<open>FromIterator\<close>: later entries overwrite earlier ones.\<close>

definition bt_of_list :: "('k::linorder \<times> 'v) list \<Rightarrow> ('k, 'v) btree" where
  "bt_of_list xs = fold (\<lambda>(k, v). bt_insert k v) xs []"

lemma map_of_bt_insert: "map_of (bt_insert k v m) = (map_of m)(k \<mapsto> v)"
  by (induction k v m rule: bt_insert.induct) auto

lemma map_of_bt_remove: "map_of (bt_remove k m) = (map_of m)(k := None)"
  by (induction m) (auto simp: bt_remove_def)

lemma dom_bt_insert: "dom (bt_get (bt_insert k v t)) = insert k (dom (bt_get t))"
  by (simp only: map_of_bt_insert dom_fun_upd) simp

lemma dom_bt_remove: "dom (bt_get (bt_remove k t)) = dom (bt_get t) - {k}"
  by (simp only: map_of_bt_remove dom_fun_upd) simp

lemma set_keys_bt_insert: "fst ` set (bt_insert k v m) = insert k (fst ` set m)"
  by (induction k v m rule: bt_insert.induct) auto

lemma bt_wf_Nil [simp, intro]: "bt_wf []"
  by (simp add: bt_wf_def)

lemma bt_wf_Cons: "bt_wf (p # m) \<longleftrightarrow> (\<forall>k\<in>fst ` set m. fst p < k) \<and> bt_wf m"
  by (auto simp: bt_wf_def)

lemma bt_wf_filter: "bt_wf m \<Longrightarrow> bt_wf (filter P m)"
  by (induction m) (auto simp: bt_wf_Cons)

lemma bt_wf_insert [simp, intro]: "bt_wf m \<Longrightarrow> bt_wf (bt_insert k v m)"
proof (induction k v m rule: bt_insert.induct)
  case (1 k v)
  then show ?case by (simp add: bt_wf_def)
next
  case (2 k v j w m)
  have "\<forall>x\<in>fst ` set (bt_insert k v m). j < x" if "j < k"
    using "2.prems" that unfolding set_keys_bt_insert by (simp add: bt_wf_Cons)
  then show ?case
    using 2 by (auto simp: bt_wf_Cons)
qed

lemma bt_wf_remove [simp, intro]: "bt_wf m \<Longrightarrow> bt_wf (bt_remove k m)"
  by (induction m) (auto simp: bt_wf_Cons bt_remove_def)

lemma bt_wf_sorted: "bt_wf m \<Longrightarrow> sorted_wrt (<) (map fst m)"
  by (simp only: bt_wf_def)

interpretation bt: ordered_map
  "map_of :: ('k::linorder, 'v) btree \<Rightarrow> 'k \<Rightarrow> 'v option" bt_insert bt_remove "\<lambda>m. m" bt_wf
  by unfold_locales (simp_all only: map_of_bt_insert map_of_bt_remove bt_wf_insert bt_wf_remove bt_wf_sorted)

lemma map_eqI: "(\<And>k v. m k = Some v \<longleftrightarrow> m' k = Some v) \<Longrightarrow> m = m'"
  by (rule ext) (metis not_Some_eq)

lemma bt_wf_rebuild:
  assumes "bt_wf m"
  shows "m = map (\<lambda>k. (k, the (map_of m k))) (map fst m)"
proof -
  have "distinct (map fst m)"
    using bt.entries_distinct [OF assms] .
  then have "map (\<lambda>p. (fst p, the (map_of m (fst p)))) m = m"
    by (intro map_idI) auto
  then show ?thesis
    by (simp add: comp_def)
qed

text \<open>A map is determined by what its lookups return.\<close>

lemma bt_wf_eqI:
  assumes wf: "bt_wf m" "bt_wf m'" and eq: "map_of m = map_of m'"
  shows "m = m'"
proof -
  have "set (map fst m) = set (map fst m')"
    using arg_cong [OF eq, of dom] by (simp add: dom_map_of_conv_image_fst)
  then have keys: "map fst m = map fst m'"
    using wf [THEN bt_wf_sorted] by (intro strict_sorted_equal) auto
  have "m = map (\<lambda>k. (k, the (map_of m k))) (map fst m)"
    by (rule bt_wf_rebuild [OF wf(1)])
  also have "\<dots> = m'"
    unfolding eq keys by (rule bt_wf_rebuild [OF wf(2), symmetric])
  finally show ?thesis .
qed

text \<open>Entries that arrive in key order are appended.\<close>

lemma bt_wf_append:
  "bt_wf (m @ m') \<longleftrightarrow> bt_wf m \<and> bt_wf m' \<and> (\<forall>p\<in>set m. \<forall>q\<in>set m'. fst p < fst q)"
  by (auto simp: bt_wf_def sorted_wrt_append)

lemma bt_insert_append: "\<forall>p\<in>set m. fst p < k \<Longrightarrow> bt_insert k v m = m @ [(k, v)]"
  by (induction k v m rule: bt_insert.induct) auto

lemma bt_wf_last: "bt_wf m \<Longrightarrow> p \<in> set m \<Longrightarrow> fst p \<le> fst (last m)"
  by (induction m) (auto simp: bt_wf_Cons intro: less_imp_le)

lemma bt_of_list_wf: "bt_wf m \<Longrightarrow> bt_of_list m = m"
proof -
  have "fold (\<lambda>(k, v). bt_insert k v) m res = res @ m" if "bt_wf (res @ m)" for res
    using that
  proof (induction m arbitrary: res)
    case (Cons p m)
    have "\<forall>q\<in>set res. fst q < fst p"
      using Cons.prems by (simp add: bt_wf_append)
    then show ?case
      using Cons.IH [of "res @ [p]"] Cons.prems by (cases p) (simp add: bt_insert_append)
  qed simp
  then show "bt_wf m \<Longrightarrow> bt_of_list m = m"
    by (simp add: bt_of_list_def)
qed

lemma fold_bt_insert_wf: "bt_wf m \<Longrightarrow> bt_wf (fold (\<lambda>(k, v). bt_insert k v) xs m)"
  by (induction xs arbitrary: m) auto

lemma map_of_fold_bt_insert:
  "distinct (map fst xs) \<Longrightarrow> map_of (fold (\<lambda>(k, v). bt_insert k v) xs m) = map_of m ++ map_of xs"
proof (induction xs arbitrary: m)
  case (Cons p xs)
  obtain k v where p: "p = (k, v)" by (cases p)
  have "map_of xs k = None"
    using Cons.prems p by (simp add: map_of_eq_None_iff)
  then have "(map_of m)(k \<mapsto> v) ++ map_of xs = map_of m ++ map_of (p # xs)"
    by (auto simp: fun_eq_iff map_add_def p split: option.split)
  moreover have "map_of (fold (\<lambda>(k, v). bt_insert k v) (p # xs) m) = map_of (bt_insert k v m) ++ map_of xs"
    using Cons by (simp add: p)
  ultimately show ?case
    by (simp only: map_of_bt_insert)
qed simp

lemma bt_wf_of_list [simp, intro]: "bt_wf (bt_of_list xs)"
  by (simp add: bt_of_list_def fold_bt_insert_wf)

lemma map_of_bt_of_list: "distinct (map fst xs) \<Longrightarrow> map_of (bt_of_list xs) = map_of xs"
  by (simp add: bt_of_list_def map_of_fold_bt_insert)

lemma bt_of_list_Nil [simp]: "bt_of_list [] = []"
  by (simp add: bt_of_list_def)

lemma bt_insert_of_list: "bt_insert k v (bt_of_list xs) = bt_of_list (xs @ [(k, v)])"
  by (simp add: bt_of_list_def)

lemma bt_length:
  assumes "bt_wf m"
  shows "length m = card (dom (map_of m))"
  using distinct_card [OF bt.entries_distinct [OF assms]] by (simp add: dom_map_of_conv_image_fst)

lemma bt_length_of_list:
  assumes "distinct (map fst xs)"
  shows "length (bt_of_list xs) = length xs"
  using distinct_card [OF assms]
  by (simp add: bt_length map_of_bt_of_list [OF assms] dom_map_of_conv_image_fst)

lemma bt_wf_map_keys: "sorted_wrt (<) ks \<Longrightarrow> bt_wf (map (\<lambda>k. (k, f k)) ks)"
  by (simp add: bt_wf_def comp_def)

lemma bt_of_list_map_keys:
  "sorted_wrt (<) ks \<Longrightarrow> bt_of_list (map (\<lambda>k. (k, f k)) ks) = map (\<lambda>k. (k, f k)) ks"
  by (intro bt_of_list_wf bt_wf_map_keys)

lemma map_of_map_keys: "map_of (map (\<lambda>k. (k, f k)) ks) k = (if k \<in> set ks then Some (f k) else None)"
  by (simp add: map_of_map_restrict restrict_map_def)

end
