(* ===== verification/Amounts.thy ===== *)
theory Amounts
  imports Btree
begin

section \<open>Amounts: single-unit and multi-unit money\<close>

text \<open>
  \<open>fedimint-core/src/amount.rs\<close> and the multi-unit \<open>Amounts\<close> of
  \<open>fedimint-core/src/module/mod.rs\<close>. The newtype \<open>Amount\<close> around a \<open>u64\<close> of
  millisatoshis is the word itself, \<open>Amounts\<close> the ordered map from a unit of account to an
  amount. The source asks that no entry of an \<open>Amounts\<close> is zero, "as these could mess up
  equality comparisons": \<open>amounts_wf\<close> is that invariant, and the lemmas below show that every
  operation keeps it and that under it two \<open>Amounts\<close> are equal exactly when they hold the
  same amount of every unit.
\<close>

subsection \<open>Amount\<close>

type_synonym amount = u64

datatype amount_conversion_error = SubSatoshiPrecision u64

definition SATS_PER_BITCOIN :: u64 where
  "SATS_PER_BITCOIN = 100000000"

definition from_msats :: "u64 \<Rightarrow> amount" where
  "from_msats m = m"

definition from_sats :: "u64 \<Rightarrow> amount" where
  "from_sats s = from_msats (s * 1000)"

definition from_bitcoins :: "u64 \<Rightarrow> amount" where
  "from_bitcoins b = from_sats (b * SATS_PER_BITCOIN)"

definition amount_saturating_sub :: "amount \<Rightarrow> amount \<Rightarrow> amount" where
  "amount_saturating_sub a b = saturating_sub a b"

definition amount_mul_u64 :: "amount \<Rightarrow> u64 \<Rightarrow> amount" where
  "amount_mul_u64 a n = a * n"

definition ensure_sats_precision :: "amount \<Rightarrow> (amount_conversion_error, unit) result" where
  "ensure_sats_precision a =
     (if a mod 1000 \<noteq> 0 then Err (SubSatoshiPrecision a) else Ok ())"

definition try_into_sats :: "amount \<Rightarrow> (amount_conversion_error, u64) result" where
  "try_into_sats a = rbind (ensure_sats_precision a) (\<lambda>_. Ok (a div 1000))"

definition sats_round_down :: "amount \<Rightarrow> u64" where
  "sats_round_down a = a div 1000"

definition amount_checked_sub :: "amount \<Rightarrow> amount \<Rightarrow> amount option" where
  "amount_checked_sub a b = checked_sub a b"

definition amount_checked_add :: "amount \<Rightarrow> amount \<Rightarrow> amount option" where
  "amount_checked_add a b = checked_add a b"

definition amount_checked_mul :: "amount \<Rightarrow> u64 \<Rightarrow> amount option" where
  "amount_checked_mul a n = checked_mul a n"

text \<open>\<open>%\<close> and \<open>/\<close> panic on a zero divisor.\<close>

definition amount_rem :: "amount \<Rightarrow> amount \<Rightarrow> ('e, amount) result" where
  "amount_rem a b = (if b = 0 then Panic else Ok (a mod b))"

definition amount_div :: "amount \<Rightarrow> amount \<Rightarrow> ('e, u64) result" where
  "amount_div a b = (if b = 0 then Panic else Ok (a div b))"

definition amount_add :: "amount \<Rightarrow> amount \<Rightarrow> amount" where
  "amount_add a b = a + b"

definition amount_sub :: "amount \<Rightarrow> amount \<Rightarrow> amount" where
  "amount_sub a b = a - b"

definition amount_sum :: "amount list \<Rightarrow> amount" where
  "amount_sum as = fold (+) as 0"

definition amount_from_bitcoin_amount :: "u64 \<Rightarrow> ('e, amount) result" where
  "amount_from_bitcoin_amount sat =
     (if sat \<le> 2100000000000000 then Ok (sat * 1000) else Panic)"

definition bitcoin_amount_try_from :: "amount \<Rightarrow> (amount_conversion_error, u64) result" where
  "bitcoin_amount_try_from a = map_ok (\<lambda>s. s) (try_into_sats a)"

lemma amount_sum_eq: "amount_sum as = sum_list as"
  by (simp add: amount_sum_def fold_plus_sum_list_rev)

lemma unat_amount_sum:
  "(\<Sum>a\<leftarrow>as. unat a) < 2 ^ 64 \<Longrightarrow> unat (amount_sum as) = (\<Sum>a\<leftarrow>as. unat a)"
  by (induction as) (auto simp: amount_sum_eq unat_word_ariths)

lemma from_sats_try_into_sats:
  "unat s * 1000 < 2 ^ 64 \<Longrightarrow> try_into_sats (from_sats s) = Ok s"
  by (auto simp: try_into_sats_def ensure_sats_precision_def from_sats_def from_msats_def
        word_unat_eq_iff unat_mod_word unat_div_word unat_mult_small)

subsection \<open>Amounts\<close>

type_synonym amount_unit = u64

definition BITCOIN :: amount_unit where
  "BITCOIN = 0"

definition is_bitcoin :: "amount_unit \<Rightarrow> bool" where
  "is_bitcoin u = (u = BITCOIN)"

type_synonym amounts = "(amount_unit, amount) btree"

definition amounts_zero :: amounts where
  "amounts_zero = []"

definition new_bitcoin :: "amount \<Rightarrow> amounts" where
  "new_bitcoin a = (if a = 0 then [] else [(BITCOIN, a)])"

definition new_bitcoin_msats :: "u64 \<Rightarrow> amounts" where
  "new_bitcoin_msats m = new_bitcoin (from_msats m)"

definition new_custom :: "amount_unit \<Rightarrow> amount \<Rightarrow> amounts" where
  "new_custom u a = (if a = 0 then [] else [(u, a)])"

text \<open>
  \<open>get(..).copied().unwrap_or_default()\<close>, the value every reader of an \<open>Amounts\<close>
  goes by.
\<close>

definition amounts_get :: "amounts \<Rightarrow> amount_unit \<Rightarrow> amount" where
  "amounts_get m u = (case bt_get m u of None \<Rightarrow> 0 | Some a \<Rightarrow> a)"

text \<open>
  \<open>checked_add_mut\<close> walks over the entries of its argument, \<open>entry(unit).or_default()\<close>
  being the present amount or zero.
\<close>

fun amounts_checked_add_mut :: "amounts \<Rightarrow> amounts \<Rightarrow> amounts option" where
  "amounts_checked_add_mut m [] = Some m"
| "amounts_checked_add_mut m ((u, a) # rhs) =
     (case amount_checked_add (amounts_get m u) a of
        None \<Rightarrow> None
      | Some s \<Rightarrow> amounts_checked_add_mut (bt_insert u s m) rhs)"

definition amounts_checked_add :: "amounts \<Rightarrow> amounts \<Rightarrow> amounts option" where
  "amounts_checked_add m rhs = amounts_checked_add_mut m rhs"

definition checked_add_unit :: "amounts \<Rightarrow> amount \<Rightarrow> amount_unit \<Rightarrow> amounts option" where
  "checked_add_unit m a u =
     (if a = 0 then Some m
      else case amount_checked_add (amounts_get m u) a of
             None \<Rightarrow> None
           | Some s \<Rightarrow> Some (bt_insert u s m))"

definition checked_add_bitcoin :: "amounts \<Rightarrow> amount \<Rightarrow> amounts option" where
  "checked_add_bitcoin m a = checked_add_unit m a BITCOIN"

fun amounts_checked_sub :: "amounts \<Rightarrow> amounts \<Rightarrow> amounts option" where
  "amounts_checked_sub m [] = Some m"
| "amounts_checked_sub m ((u, a) # other) =
     (if a = 0 then amounts_checked_sub m other
      else case amount_checked_sub (amounts_get m u) a of
             None \<Rightarrow> None
           | Some d \<Rightarrow>
               amounts_checked_sub (if d = 0 then bt_remove u m else bt_insert u d m) other)"

definition amounts_remove :: "amounts \<Rightarrow> amount_unit \<Rightarrow> amount option \<times> amounts" where
  "amounts_remove m u = (bt_get m u, bt_remove u m)"

definition get_bitcoin :: "amounts \<Rightarrow> amount" where
  "get_bitcoin m = amounts_get m BITCOIN"

definition expect_only_bitcoin :: "amounts \<Rightarrow> ('e, amount) result" where
  "expect_only_bitcoin m =
     (case bt_get m BITCOIN of
        Some a \<Rightarrow> if length m = 1 then Ok a else Panic
      | None \<Rightarrow> Ok 0)"

definition amounts_units :: "amounts \<Rightarrow> amount_unit list" where
  "amounts_units m = bt_keys m"

record transaction_item_amounts =
  ti_amounts :: amounts
  ti_fees :: amounts

definition item_amounts_zero :: transaction_item_amounts where
  "item_amounts_zero = \<lparr>ti_amounts = amounts_zero, ti_fees = amounts_zero\<rparr>"

definition item_amounts_checked_add ::
  "transaction_item_amounts \<Rightarrow> transaction_item_amounts \<Rightarrow> transaction_item_amounts option" where
  "item_amounts_checked_add a b =
     (case amounts_checked_add (ti_amounts a) (ti_amounts b) of
        None \<Rightarrow> None
      | Some am \<Rightarrow>
          (case amounts_checked_add (ti_fees a) (ti_fees b) of
             None \<Rightarrow> None
           | Some fe \<Rightarrow> Some \<lparr>ti_amounts = am, ti_fees = fe\<rparr>))"

subsection \<open>The invariant and the value of an \<open>Amounts\<close>\<close>

definition amounts_wf :: "amounts \<Rightarrow> bool" where
  "amounts_wf m \<longleftrightarrow> bt_wf m \<and> (\<forall>p\<in>set m. snd p \<noteq> 0)"

definition units_of :: "amounts \<Rightarrow> amount_unit \<Rightarrow> nat" where
  "units_of m u = unat (amounts_get m u)"

lemma amounts_wf_bt [simp, dest]: "amounts_wf m \<Longrightarrow> bt_wf m"
  by (simp add: amounts_wf_def)

lemma amounts_wf_Nil [simp, intro]: "amounts_wf []"
  by (simp add: amounts_wf_def)

lemma amounts_wf_Cons:
  "amounts_wf ((u, a) # m) \<longleftrightarrow> (\<forall>p\<in>set m. u < fst p) \<and> a \<noteq> 0 \<and> amounts_wf m"
  by (auto simp: amounts_wf_def bt_wf_Cons)

lemma units_of_Nil [simp]: "units_of [] u = 0"
  by (simp add: units_of_def amounts_get_def)

lemma units_of_Cons:
  "units_of ((u, a) # m) v = (if v = u then unat a else units_of m v)"
  by (simp add: units_of_def amounts_get_def)

lemma units_of_above: "\<forall>p\<in>set m. u < fst p \<Longrightarrow> units_of m u = 0"
  by (induction m) (auto simp: units_of_Cons)

lemma units_of_insert: "units_of (bt_insert u a m) v = (if v = u then unat a else units_of m v)"
  by (simp add: units_of_def amounts_get_def map_of_bt_insert)

lemma units_of_remove: "units_of (bt_remove u m) v = (if v = u then 0 else units_of m v)"
  by (simp add: units_of_def amounts_get_def map_of_bt_remove)

lemma set_bt_insert_subset: "set (bt_insert k v m) \<subseteq> insert (k, v) (set m)"
  by (induction k v m rule: bt_insert.induct) auto

lemma amounts_wf_insert [simp, intro]: "amounts_wf m \<Longrightarrow> a \<noteq> 0 \<Longrightarrow> amounts_wf (bt_insert u a m)"
  unfolding amounts_wf_def using set_bt_insert_subset [of u a m] by fastforce

lemma amounts_wf_remove [simp, intro]: "amounts_wf m \<Longrightarrow> amounts_wf (bt_remove u m)"
  unfolding amounts_wf_def by (auto simp: bt_remove_def intro: bt_wf_remove [unfolded bt_remove_def])

lemma units_of_new_bitcoin: "units_of (new_bitcoin a) u = (if u = BITCOIN then unat a else 0)"
  by (auto simp: new_bitcoin_def units_of_Cons)

lemma amounts_wf_new_bitcoin [simp, intro]: "amounts_wf (new_bitcoin a)"
  by (auto simp: new_bitcoin_def amounts_wf_Cons)

lemma amounts_wf_new_custom [simp, intro]: "amounts_wf (new_custom u a)"
  by (auto simp: new_custom_def amounts_wf_Cons)

lemma nonzero_unat_iff: "a \<noteq> 0 \<longleftrightarrow> 0 < unat a"
  by (simp add: unat_gt_0)

lemma amounts_eqI:
  assumes wf: "amounts_wf m" "amounts_wf m'" and eq: "\<And>u. units_of m u = units_of m' u"
  shows "m = m'"
proof (rule bt_wf_eqI)
  have nonzero: "map_of n u \<noteq> Some 0" if "amounts_wf n" for n u
    using that by (fastforce simp: amounts_wf_def dest!: map_of_SomeD)
  show "map_of m = map_of m'"
  proof
    fix u
    show "map_of m u = map_of m' u"
      using eq [of u] nonzero [OF wf(1), of u] nonzero [OF wf(2), of u]
      by (auto simp: units_of_def amounts_get_def word_unat_eq_iff split: option.splits)
  qed
qed (use wf in auto)

subsection \<open>Checked addition and subtraction\<close>

lemma amounts_checked_add_mut_spec:
  assumes "amounts_wf m" and "amounts_wf rhs"
  shows "case amounts_checked_add_mut m rhs of
      Some r \<Rightarrow> amounts_wf r \<and> (\<forall>u. units_of r u = units_of m u + units_of rhs u)
    | None \<Rightarrow> (\<exists>u. 2 ^ 64 \<le> units_of m u + units_of rhs u)"
  using assms
proof (induction m rhs rule: amounts_checked_add_mut.induct)
  case (1 m)
  then show ?case by simp
next
  case (2 m u a rhs)
  from "2.prems" have a: "a \<noteq> 0" and rhs: "amounts_wf rhs" and above: "units_of rhs u = 0"
    by (auto simp: amounts_wf_Cons units_of_above)
  show ?case
  proof (cases "amount_checked_add (amounts_get m u) a")
    case None
    then have "2 ^ 64 \<le> units_of m u + units_of ((u, a) # rhs) u"
      by (simp add: amount_checked_add_def checked_simps units_of_def [symmetric] units_of_Cons)
    then show ?thesis
      using None by (simp only: amounts_checked_add_mut.simps option.case) blast
  next
    case (Some s)
    then have s: "unat s = units_of m u + unat a"
      by (simp add: amount_checked_add_def checked_simps units_of_def)
    then have "s \<noteq> 0"
      using a by (auto simp: nonzero_unat_iff)
    then have wf: "amounts_wf (bt_insert u s m)"
      using "2.prems" by simp
    have "units_of (bt_insert u s m) v + units_of rhs v
        = units_of m v + units_of ((u, a) # rhs) v" for v
      using s above by (simp add: units_of_insert units_of_Cons)
    then show ?thesis
      using "2.IH" [OF Some wf rhs] Some by (simp split: option.splits)
  qed
qed

lemma amounts_checked_sub_spec:
  assumes "amounts_wf m" and "amounts_wf rhs"
  shows "case amounts_checked_sub m rhs of
      Some r \<Rightarrow> amounts_wf r \<and>
        (\<forall>u. units_of rhs u \<le> units_of m u \<and> units_of r u = units_of m u - units_of rhs u)
    | None \<Rightarrow> (\<exists>u. units_of m u < units_of rhs u)"
  using assms
proof (induction m rhs rule: amounts_checked_sub.induct)
  case (1 m)
  then show ?case by simp
next
  case (2 m u a rhs)
  from "2.prems" have a: "a \<noteq> 0" and rhs: "amounts_wf rhs" and above: "units_of rhs u = 0"
    by (auto simp: amounts_wf_Cons units_of_above)
  show ?case
  proof (cases "amount_checked_sub (amounts_get m u) a")
    case None
    then have "units_of m u < units_of ((u, a) # rhs) u"
      by (simp add: amount_checked_sub_def checked_simps units_of_def [symmetric] units_of_Cons)
    then show ?thesis
      using None a by (simp only: amounts_checked_sub.simps option.case if_False) blast
  next
    case (Some d)
    let ?m = "if d = 0 then bt_remove u m else bt_insert u d m"
    from Some have d: "unat a \<le> units_of m u" "unat d = units_of m u - unat a"
      by (simp_all add: amount_checked_sub_def checked_simps units_of_def)
    have wf: "amounts_wf ?m"
      using "2.prems" by simp
    have units: "units_of ?m v = (if v = u then units_of m u - unat a else units_of m v)" for v
      using d(2) by (auto simp: units_of_insert units_of_remove)
    show ?thesis
      using "2.IH"(2) [OF a Some wf rhs] Some a d(1) above
      by (auto simp: units units_of_Cons split: option.splits if_splits)
  qed
qed

subsection \<open>Properties\<close>

text \<open>
  C14: \<open>Amounts::checked_add\<close> fails exactly when the sum of some unit does not fit in
  \<open>u64\<close>; otherwise the result holds the sum of every unit and no zero entry.
\<close>

theorem amounts_checked_add_correct:
  assumes "amounts_wf m" and "amounts_wf rhs"
  shows "(amounts_checked_add m rhs = None \<longleftrightarrow> (\<exists>u. 2 ^ 64 \<le> units_of m u + units_of rhs u))
    \<and> (\<forall>r. amounts_checked_add m rhs = Some r \<longrightarrow>
          amounts_wf r \<and> (\<forall>u. units_of r u = units_of m u + units_of rhs u))"
proof -
  have "units_of r u < 2 ^ 64" for r u
    using unsigned_less [of "amounts_get r u", where 'a = nat] by (simp add: units_of_def)
  then show ?thesis
    using amounts_checked_add_mut_spec [OF assms]
    by (auto simp: amounts_checked_add_def not_le split: option.splits) metis
qed

theorem amounts_checked_add_correct_witness:
  "amounts_checked_add [(0, 5)] [(0, 7), (3, 1)] = Some [(0, 12), (3, 1)]
    \<and> units_of [(0, 12), (3, 1)] 0 = 12"
proof -
  have "amounts_wf [(0, 5)]" and "amounts_wf [(0, 7), (3, 1)]"
    by (simp_all add: amounts_wf_Cons)
  from amounts_checked_add_correct [OF this]
  have "\<forall>r. amounts_checked_add [(0, 5)] [(0, 7), (3, 1)] = Some r \<longrightarrow>
      units_of r 0 = units_of [(0, 5)] 0 + units_of [(0, 7), (3, 1)] 0"
    by blast
  moreover have "amounts_checked_add [(0, 5)] [(0, 7), (3, 1)] = Some [(0, 12), (3, 1)]"
    by (simp add: amounts_checked_add_def amount_checked_add_def checked_add_def amounts_get_def)
  ultimately show ?thesis
    by (simp add: units_of_Cons)
qed

text \<open>
  Taking back what was added gives the very map one started from: the invariant makes equality
  of \<open>Amounts\<close> mean equal amounts of every unit.
\<close>

lemma amounts_add_sub_roundtrip:
  assumes "amounts_wf m" and "amounts_wf d" and "amounts_checked_add m d = Some r"
  shows "amounts_checked_sub r d = Some m"
proof -
  have r: "amounts_wf r" "\<And>u. units_of r u = units_of m u + units_of d u"
    using amounts_checked_add_mut_spec [OF assms(1,2)] assms(3)
    by (simp_all add: amounts_checked_add_def)
  then obtain m' where m': "amounts_checked_sub r d = Some m'"
    using amounts_checked_sub_spec [OF r(1) assms(2)] by (auto split: option.splits)
  then have "amounts_wf m'" "\<And>u. units_of m' u = units_of m u"
    using amounts_checked_sub_spec [OF r(1) assms(2)] r(2) by simp_all
  then show ?thesis
    using m' amounts_eqI [OF _ assms(1), of m'] by simp
qed

end
