(* ===== verification/Encoding.thy ===== *)
theory Encoding
  imports Btree "HOL-Library.List_Lexorder"
begin

section \<open>Consensus encoding\<close>

text \<open>
  \<open>fedimint-core/src/encoding/mod.rs\<close>, \<open>encoding/collections.rs\<close> and the derive macro
  of \<open>fedimint-derive/src/lib.rs\<close>. An encoder maps a value to bytes. A decoder maps the bytes
  left in a reader to the value and the bytes left after it, or to an error. The
  variable-length integer \<open>BigSize\<close> comes from the \<open>lightning\<close> crate, so its
  encoder and decoder are arguments (\<open>benc\<close>, \<open>bdec\<close>) of everything built on it.

  The locale \<open>codec\<close> is the contract of an \<open>Encodable\<close>/\<open>Decodable\<close> pair: decoding
  undoes encoding in front of any further input, and whatever decodes is the one encoding of
  its value. The second half is what hashes of encodings and database keys rely on.
  Each combinator (sequences, options, results, maps, enum variants) keeps the contract.
\<close>

subsection \<open>Readers and errors\<close>

type_synonym bytes = "u8 list"

datatype decode_error =
    DecodeIo
  | InvalidVariant u64
  | Context string decode_error
  | Invalid
  | Custom string

type_synonym 'a encoder = "'a \<Rightarrow> bytes"
type_synonym 'a decoder = "bytes \<Rightarrow> (decode_error, 'a \<times> bytes) result"

definition MAX_DECODE_SIZE :: nat where
  "MAX_DECODE_SIZE = 16000000"

text \<open>\<open>Read::read_exact\<close> on the bytes left in the reader.\<close>

definition read_exact :: "nat \<Rightarrow> bytes \<Rightarrow> (decode_error, bytes \<times> bytes) result" where
  "read_exact n bs = (if n \<le> length bs then Ok (take n bs, drop n bs) else Err DecodeIo)"

definition with_decoding_context ::
  "(decode_error, 'a) result \<Rightarrow> string \<Rightarrow> (decode_error, 'a) result" where
  "with_decoding_context r ctx = map_err (Context ctx) r"

definition consensus_encode_to_len :: "'a encoder \<Rightarrow> 'a \<Rightarrow> nat" where
  "consensus_encode_to_len enc x = length (enc x)"

definition consensus_hash :: "(bytes \<Rightarrow> 'h) \<Rightarrow> 'a encoder \<Rightarrow> 'a \<Rightarrow> 'h" where
  "consensus_hash h enc x = h (enc x)"

text \<open>\<open>consensus_decode_whole\<close> fails on bytes left over.\<close>

definition consensus_decode_whole :: "'a decoder \<Rightarrow> bytes \<Rightarrow> (decode_error, 'a) result" where
  "consensus_decode_whole dec bs =
     rbind (dec bs) (\<lambda>(x, left).
       if left \<noteq> [] then Err (Custom ''Type did not consume all bytes during decoding'')
       else Ok x)"

text \<open>
  The default \<open>consensus_decode_partial\<close> lets the decoder see \<open>MAX_DECODE_SIZE\<close> bytes.
\<close>

definition consensus_decode_partial :: "'a decoder \<Rightarrow> 'a decoder" where
  "consensus_decode_partial dec bs =
     rbind (dec (take MAX_DECODE_SIZE bs)) (\<lambda>(x, left). Ok (x, left @ drop MAX_DECODE_SIZE bs))"

subsection \<open>Integers\<close>

definition enc_u8 :: "u8 encoder" where
  "enc_u8 x = [x]"

definition dec_u8 :: "u8 decoder" where
  "dec_u8 bs = rbind (read_exact 1 bs) (\<lambda>(b, left). Ok (hd b, left))"

text \<open>\<open>u64\<close>, \<open>u32\<close> and \<open>u16\<close> are encoded as a \<open>BigSize\<close>; decoding converts back with
  \<open>try_from\<close>.\<close>

definition enc_num :: "u64 encoder \<Rightarrow> 'w::len word encoder" where
  "enc_num benc x = benc (ucast x)"

definition dec_num :: "u64 decoder \<Rightarrow> 'w::len word decoder" where
  "dec_num bdec bs =
     rbind (bdec bs) (\<lambda>(v, left).
       if unat v < 2 ^ LENGTH('w) then Ok (ucast v, left) else Err Invalid)"

subsection \<open>Options, results, booleans, units, pairs\<close>

fun enc_option :: "'a encoder \<Rightarrow> 'a option encoder" where
  "enc_option enc (Some x) = enc_u8 1 @ enc x"
| "enc_option enc None = enc_u8 0"

definition dec_option :: "'a decoder \<Rightarrow> 'a option decoder" where
  "dec_option dec bs =
     rbind (dec_u8 bs) (\<lambda>(flag, left).
       if flag = 0 then Ok (None, left)
       else if flag = 1 then rbind (dec left) (\<lambda>(x, left'). Ok (Some x, left'))
       else Err (Custom ''Invalid flag for option enum, expected 0 or 1''))"

fun enc_result :: "'a encoder \<Rightarrow> 'e encoder \<Rightarrow> ('e + 'a) encoder" where
  "enc_result enc ence (Inr x) = enc_u8 1 @ enc x"
| "enc_result enc ence (Inl e) = enc_u8 0 @ ence e"

definition dec_result :: "'a decoder \<Rightarrow> 'e decoder \<Rightarrow> ('e + 'a) decoder" where
  "dec_result dec dece bs =
     rbind (dec_u8 bs) (\<lambda>(flag, left).
       if flag = 0 then rbind (dece left) (\<lambda>(e, left'). Ok (Inl e, left'))
       else if flag = 1 then rbind (dec left) (\<lambda>(x, left'). Ok (Inr x, left'))
       else Err (Custom ''Invalid flag for option enum, expected 0 or 1''))"

definition enc_unit :: "unit encoder" where
  "enc_unit u = []"

definition dec_unit :: "unit decoder" where
  "dec_unit bs = Ok ((), bs)"

definition enc_bool :: "bool encoder" where
  "enc_bool b = [if b then 1 else 0]"

definition dec_bool :: "bool decoder" where
  "dec_bool bs =
     rbind (read_exact 1 bs) (\<lambda>(b, left).
       if hd b = 0 then Ok (False, left)
       else if hd b = 1 then Ok (True, left)
       else Err (Custom ''Out of range, expected 0 or 1''))"

definition enc_pair :: "'a encoder \<Rightarrow> 'b encoder \<Rightarrow> ('a \<times> 'b) encoder" where
  "enc_pair enca encb p = enca (fst p) @ encb (snd p)"

definition dec_pair :: "'a decoder \<Rightarrow> 'b decoder \<Rightarrow> ('a \<times> 'b) decoder" where
  "dec_pair deca decb bs =
     rbind (deca bs) (\<lambda>(x, left). rbind (decb left) (\<lambda>(y, left'). Ok ((x, y), left')))"

text \<open>A \<open>Duration\<close> is its seconds and its nanoseconds below a second.\<close>

type_synonym duration = "u64 \<times> u32"

definition enc_duration :: "u64 encoder \<Rightarrow> duration encoder" where
  "enc_duration benc d = enc_num benc (fst d) @ enc_num benc (snd d)"

definition dec_duration :: "u64 decoder \<Rightarrow> duration decoder" where
  "dec_duration bdec bs =
     rbind (dec_num bdec bs) (\<lambda>(secs, left).
       rbind (dec_num bdec left) (\<lambda>(nsecs, left').
         if 1000000000 \<le> nsecs then Err (Custom ''Duration nanoseconds out of range'')
         else Ok ((secs, nsecs), left')))"

subsection \<open>Sequences\<close>

definition enc_vec :: "u64 encoder \<Rightarrow> 'a encoder \<Rightarrow> 'a list encoder" where
  "enc_vec benc enc xs = enc_num benc (of_nat (length xs) :: u64) @ concat (map enc xs)"

definition enc_bytes :: "u64 encoder \<Rightarrow> bytes encoder" where
  "enc_bytes benc xs = enc_num benc (of_nat (length xs) :: u64) @ xs"

text \<open>\<open>n\<close> elements, one after the other.\<close>

fun dec_elems :: "'a decoder \<Rightarrow> nat \<Rightarrow> 'a list decoder" where
  "dec_elems dec 0 bs = Ok ([], bs)"
| "dec_elems dec (Suc n) bs =
     rbind (dec bs) (\<lambda>(x, left).
       rbind (dec_elems dec n left) (\<lambda>(xs, left'). Ok (x # xs, left')))"

text \<open>
  \<open>Vec\<close>: the first \<open>cap\<close> elements are collected at once, the rest are pushed one by one
  (the cap bounds what an untrusted length may allocate), and the length is asserted. The cap
  divides by the size of an element, which panics for a zero-sized type.
\<close>

definition dec_vec :: "u64 decoder \<Rightarrow> nat \<Rightarrow> 'a decoder \<Rightarrow> 'a list decoder" where
  "dec_vec bdec size_of dec bs =
     rbind (dec_num bdec bs) (\<lambda>(len :: u64, left).
       rbind (rassert (size_of \<noteq> 0)) (\<lambda>_.
         let cap_len = min (8000 div size_of) (unat len)
         in rbind (dec_elems dec cap_len left) (\<lambda>(v, left').
              rbind (dec_elems dec (unat len - length v) left') (\<lambda>(w, left'').
                rbind (rassert (length (v @ w) = unat len)) (\<lambda>_. Ok (v @ w, left''))))))"

definition CHUNK_SIZE :: nat where
  "CHUNK_SIZE = 64 * 1024"

text \<open>\<open>Vec<u8>\<close> is read in chunks.\<close>

function read_chunks :: "nat \<Rightarrow> bytes \<Rightarrow> bytes decoder" where
  "read_chunks len acc bs =
     (if len = 0 then Ok (acc, bs)
      else let chunk_size = min len CHUNK_SIZE
           in rbind (read_exact chunk_size bs) (\<lambda>(chunk, left).
                read_chunks (len - chunk_size) (acc @ chunk) left))"
  by pat_completeness auto
termination
proof (relation "measure (\<lambda>(len, acc, bs). len)")
  fix len :: nat and cs
  assume "len \<noteq> 0" and "cs = min len CHUNK_SIZE"
  moreover have "0 < CHUNK_SIZE"
    by (simp add: CHUNK_SIZE_def)
  ultimately show "((len - cs, a, l), (len, acc, bs)) \<in> measure (\<lambda>(len, acc, bs). len)" for a l acc bs
    by simp
qed simp

declare read_chunks.simps [simp del]

definition dec_bytes :: "u64 decoder \<Rightarrow> bytes decoder" where
  "dec_bytes bdec bs =
     rbind (dec_num bdec bs) (\<lambda>(len :: u64, left). read_chunks (unat len) [] left)"

text \<open>
  \<open>VecDeque\<close> is encoded by its own loop and decoded as a \<open>Vec\<close>.
\<close>

definition enc_vec_deque :: "u64 encoder \<Rightarrow> 'a encoder \<Rightarrow> 'a list encoder" where
  "enc_vec_deque benc enc xs =
     foldl (\<lambda>out i. out @ enc i) (enc_num benc (of_nat (length xs) :: u64)) xs"

definition dec_vec_deque :: "u64 decoder \<Rightarrow> nat \<Rightarrow> 'a decoder \<Rightarrow> 'a list decoder" where
  "dec_vec_deque bdec size_of dec bs =
     rbind (dec_vec bdec size_of dec bs) (\<lambda>(v, left). Ok (v, left))"

text \<open>Arrays have no length prefix; \<open>[u8; SIZE]\<close> is read at once.\<close>

definition enc_array_items :: "'a encoder \<Rightarrow> 'a list encoder" where
  "enc_array_items enc xs = concat (map enc xs)"

definition dec_array_items :: "'a decoder \<Rightarrow> nat \<Rightarrow> 'a list decoder" where
  "dec_array_items dec n bs = dec_elems dec n bs"

definition enc_array :: "bytes encoder" where
  "enc_array xs = xs"

definition dec_array :: "nat \<Rightarrow> bytes decoder" where
  "dec_array n bs = read_exact n bs"

subsection \<open>Maps\<close>

definition enc_btree :: "u64 encoder \<Rightarrow> 'k encoder \<Rightarrow> 'v encoder \<Rightarrow> ('k, 'v) btree encoder" where
  "enc_btree benc enck encv m =
     enc_num benc (of_nat (length m) :: u64) @ concat (map (\<lambda>(k, v). enck k @ encv v) m)"

text \<open>
  Each key has to be above the last one (\<open>last_key_value\<close> is the greatest key so far); the
  insertion of a present key is an error too.
\<close>

fun dec_entries ::
  "'k::linorder decoder \<Rightarrow> 'v decoder \<Rightarrow> nat \<Rightarrow> ('k, 'v) btree \<Rightarrow> ('k, 'v) btree decoder" where
  "dec_entries deck decv 0 res bs = Ok (res, bs)"
| "dec_entries deck decv (Suc n) res bs =
     rbind (deck bs) (\<lambda>(k, left).
       if res \<noteq> [] \<and> k \<le> fst (last res) then Err (Custom ''Non-canonical encoding'')
       else rbind (decv left) (\<lambda>(v, left').
         if bt_get res k \<noteq> None then Err (Custom ''Duplicate key'')
         else dec_entries deck decv n (bt_insert k v res) left'))"

definition dec_btree ::
  "u64 decoder \<Rightarrow> 'k::linorder decoder \<Rightarrow> 'v decoder \<Rightarrow> ('k, 'v) btree decoder" where
  "dec_btree bdec deck decv bs =
     rbind (dec_num bdec bs) (\<lambda>(len :: u64, left). dec_entries deck decv (unat len) [] left)"

text \<open>A \<open>BTreeSet\<close> is a map to the unit.\<close>

definition enc_btree_set :: "u64 encoder \<Rightarrow> 'k encoder \<Rightarrow> ('k, unit) btree encoder" where
  "enc_btree_set benc enck m =
     enc_num benc (of_nat (length m) :: u64) @ concat (map enck (bt_keys m))"

fun dec_set_entries ::
  "'k::linorder decoder \<Rightarrow> nat \<Rightarrow> ('k, unit) btree \<Rightarrow> ('k, unit) btree decoder" where
  "dec_set_entries deck 0 res bs = Ok (res, bs)"
| "dec_set_entries deck (Suc n) res bs =
     rbind (deck bs) (\<lambda>(k, left).
       if res \<noteq> [] \<and> k \<le> fst (last res) then Err (Custom ''Non-canonical encoding'')
       else if bt_get res k \<noteq> None then Err (Custom ''Duplicate key'')
       else dec_set_entries deck n (bt_insert k () res) left)"

definition dec_btree_set :: "u64 decoder \<Rightarrow> 'k::linorder decoder \<Rightarrow> ('k, unit) btree decoder" where
  "dec_btree_set bdec deck bs =
     rbind (dec_num bdec bs) (\<lambda>(len :: u64, left). dec_set_entries deck (unat len) [] left)"

subsection \<open>Enums\<close>

text \<open>
  The derive macro writes the index of the variant and then the encoded fields as a byte vector;
  it reads the fields back from that vector alone and fails if some of it is left. An enum with
  an \<open>#[encodable_default]\<close> variant takes every unknown index into it.
\<close>

definition enc_variant :: "u64 encoder \<Rightarrow> u64 \<Rightarrow> bytes \<Rightarrow> bytes" where
  "enc_variant benc idx fields = enc_num benc idx @ enc_bytes benc fields"

definition dec_variant ::
  "u64 decoder \<Rightarrow> (u64 \<Rightarrow> 'a decoder option) \<Rightarrow> (u64 \<Rightarrow> bytes \<Rightarrow> 'a) option \<Rightarrow> 'a decoder" where
  "dec_variant bdec arms deflt bs =
     rbind (with_decoding_context (dec_num bdec bs) ''Decoding variant index'')
       (\<lambda>(variant :: u64, left).
         case arms variant of
           Some arm \<Rightarrow>
             rbind (with_decoding_context (dec_bytes bdec left) ''Decoding bytes'')
               (\<lambda>(field_bytes, left').
                 rbind (with_decoding_context (arm field_bytes) ''Decoding variant'')
                   (\<lambda>(decoded, unread).
                     if unread \<noteq> [] then Err (Custom ''Partial read'') else Ok (decoded, left')))
         | None \<Rightarrow>
             (case deflt of
                Some mk \<Rightarrow>
                  rbind (with_decoding_context (dec_bytes bdec left) ''Decoding default variant'')
                    (\<lambda>(raw, left'). Ok (mk variant raw, left'))
              | None \<Rightarrow> Err (InvalidVariant variant)))"

subsection \<open>The contract of an encoding\<close>

lemma rbind_Ok_iff_prod:
  "rbind m (\<lambda>(a, b). f a b) = Ok y \<longleftrightarrow> (\<exists>a b. m = Ok (a, b) \<and> f a b = Ok y)"
proof (cases m)
  case (Ok p)
  then show ?thesis by (cases p) simp
qed simp_all

locale codec =
  fixes enc :: "'a encoder" and dec :: "'a decoder" and valid :: "'a \<Rightarrow> bool"
  assumes dec_enc: "valid x \<Longrightarrow> dec (enc x @ rest) = Ok (x, rest)"
    and enc_dec: "dec bs = Ok (x, rest) \<Longrightarrow> valid x \<and> bs = enc x @ rest"
begin

lemma prefix_free:
  assumes "valid x" and "valid y" and eq: "enc x @ r = enc y @ s"
  shows "x = y \<and> r = s"
proof -
  have "Ok (x, r) = (Ok (y, s) :: (decode_error, 'a \<times> bytes) result)"
    unfolding dec_enc [OF assms(1), of r, symmetric] dec_enc [OF assms(2), of s, symmetric] eq ..
  then show ?thesis by simp
qed

lemma enc_inj: "valid x \<Longrightarrow> valid y \<Longrightarrow> enc x = enc y \<Longrightarrow> x = y"
  by (rule prefix_free [of x y "[]" "[]", THEN conjunct1]) simp_all

lemma decode_whole_iff: "consensus_decode_whole dec bs = Ok x \<longleftrightarrow> valid x \<and> bs = enc x"
proof
  assume "consensus_decode_whole dec bs = Ok x"
  then have "dec bs = Ok (x, [])"
    unfolding consensus_decode_whole_def rbind_Ok_iff_prod by (auto split: if_splits)
  then show "valid x \<and> bs = enc x"
    using enc_dec by fastforce
next
  assume "valid x \<and> bs = enc x"
  then show "consensus_decode_whole dec bs = Ok x"
    using dec_enc [of x "[]"] by (simp add: consensus_decode_whole_def)
qed

lemma decode_partial:
  assumes "valid x" and "length (enc x) \<le> MAX_DECODE_SIZE"
  shows "consensus_decode_partial dec (enc x @ rest) = Ok (x, rest)"
proof -
  let ?n = "MAX_DECODE_SIZE - length (enc x)"
  have "take MAX_DECODE_SIZE (enc x @ rest) = enc x @ take ?n rest"
    and "drop MAX_DECODE_SIZE (enc x @ rest) = drop ?n rest"
    using assms(2) by (simp_all only: take_append drop_append take_all drop_all append_Nil)
  then show ?thesis
    unfolding consensus_decode_partial_def
    by (simp only: dec_enc [OF assms(1)] rbind.simps prod.case append_take_drop_id)
qed

end

named_theorems codec_intros \<open>the combinators keep the contract\<close>

lemma read_exact_append [simp]: "read_exact (length xs) (xs @ ys) = Ok (xs, ys)"
  by (simp add: read_exact_def)

lemma read_exact_eq_Ok:
  "read_exact n bs = Ok (xs, ys) \<longleftrightarrow> length xs = n \<and> bs = xs @ ys"
proof
  assume "read_exact n bs = Ok (xs, ys)"
  then have "n \<le> length bs" and "xs = take n bs" and "ys = drop n bs"
    by (simp_all add: read_exact_def split: if_splits)
  then show "length xs = n \<and> bs = xs @ ys"
    by simp
next
  assume "length xs = n \<and> bs = xs @ ys"
  then show "read_exact n bs = Ok (xs, ys)"
    by (metis read_exact_append)
qed

lemma dec_u8_eq_Ok [simp]: "dec_u8 bs = Ok (x, rest) \<longleftrightarrow> bs = x # rest"
  by (cases bs) (auto simp: dec_u8_def read_exact_def)

lemma dec_u8_Cons [simp]: "dec_u8 (x # rest) = Ok (x, rest)"
  by simp

interpretation u8: codec enc_u8 dec_u8 "\<lambda>_. True"
  by unfold_locales (auto simp: enc_u8_def)

interpretation unit: codec enc_unit dec_unit "\<lambda>_. True"
  by unfold_locales (auto simp: enc_unit_def dec_unit_def)

lemma dec_bool_Nil [simp]: "dec_bool [] = Err DecodeIo"
  by (simp add: dec_bool_def read_exact_def)

lemma dec_bool_Cons [simp]:
  "dec_bool (b # left) =
     (if b = 0 then Ok (False, left) else if b = 1 then Ok (True, left)
      else Err (Custom ''Out of range, expected 0 or 1''))"
  by (simp add: dec_bool_def read_exact_def)

interpretation bool: codec enc_bool dec_bool "\<lambda>_. True"
proof
  show "dec_bool (enc_bool x @ rest) = Ok (x, rest)" for x rest
    by (simp add: enc_bool_def)
  show "True \<and> bs = enc_bool x @ rest" if "dec_bool bs = Ok (x, rest)" for bs x rest
    using that by (cases bs) (auto simp: enc_bool_def split: if_splits)
qed

lemma codec_num [codec_intros]:
  assumes b: "codec benc bdec (\<lambda>_. True)" and "LENGTH('w) \<le> 64"
  shows "codec (enc_num benc :: 'w::len word encoder) (dec_num bdec) (\<lambda>_. True)"
proof -
  have bound: "unat (x :: 'w word) < 2 ^ LENGTH(64)" for x
    using assms(2) by (intro less_le_trans [OF unsigned_less power_increasing]) auto
  have up: "unat (ucast (x :: 'w word) :: u64) = unat x" for x
    by (simp only: unat_ucast_mod mod_less bound)
  have ucast_back: "ucast (ucast (x :: 'w word) :: u64) = x" for x
    by (simp only: word_unat_eq_iff unat_ucast_mod [where 'b = 'w] up mod_less unsigned_less)
  show ?thesis
  proof
    fix x :: "'w word" and rest
    show "dec_num bdec (enc_num benc x @ rest) = Ok (x, rest)"
      unfolding dec_num_def enc_num_def codec.dec_enc [OF b TrueI]
      by (simp only: rbind.simps prod.case up unsigned_less if_True ucast_back)
  next
    fix bs and x :: "'w word" and rest
    assume "dec_num bdec bs = Ok (x, rest)"
    then obtain v where "bdec bs = Ok (v, rest)" and small: "unat v < 2 ^ LENGTH('w)"
      and x: "x = ucast v"
      by (auto simp: dec_num_def split: prod.splits if_splits)
    then have "bs = benc v @ rest"
      using codec.enc_dec [OF b] by blast
    moreover have "ucast x = v"
      using small by (simp only: x word_unat_eq_iff up unat_ucast_mod [where 'b = 'w] mod_less)
    ultimately show "True \<and> bs = enc_num benc x @ rest"
      by (simp add: enc_num_def)
  qed
qed

lemma codec_option [codec_intros]:
  assumes c: "codec enc dec v"
  shows "codec (enc_option enc) (dec_option dec) (pred_option v)"
proof
  fix x rest
  assume "pred_option v x"
  then show "dec_option dec (enc_option enc x @ rest) = Ok (x, rest)"
    by (cases x) (simp_all add: dec_option_def enc_u8_def codec.dec_enc [OF c])
next
  fix bs x rest
  assume "dec_option dec bs = Ok (x, rest)"
  then show "pred_option v x \<and> bs = enc_option enc x @ rest"
    using codec.enc_dec [OF c]
    by (auto simp: dec_option_def rbind_Ok_iff_prod enc_u8_def simp del: rbind_eq_Ok
        split: if_splits)
qed

lemma codec_result [codec_intros]:
  assumes c: "codec enc dec v" and d: "codec ence dece w"
  shows "codec (enc_result enc ence) (dec_result dec dece) (case_sum w v)"
proof
  fix x rest
  assume "case_sum w v x"
  then show "dec_result dec dece (enc_result enc ence x @ rest) = Ok (x, rest)"
    by (cases x) (simp_all add: dec_result_def enc_u8_def codec.dec_enc [OF c] codec.dec_enc [OF d])
next
  fix bs x rest
  assume "dec_result dec dece bs = Ok (x, rest)"
  then show "case_sum w v x \<and> bs = enc_result enc ence x @ rest"
    using codec.enc_dec [OF c] codec.enc_dec [OF d]
    by (auto simp: dec_result_def rbind_Ok_iff_prod enc_u8_def simp del: rbind_eq_Ok
        split: if_splits)
qed

lemma codec_pair [codec_intros]:
  assumes c: "codec enca deca v" and d: "codec encb decb w"
  shows "codec (enc_pair enca encb) (dec_pair deca decb) (\<lambda>(x, y). v x \<and> w y)"
proof
  fix p rest
  assume "case p of (x, y) \<Rightarrow> v x \<and> w y"
  then show "dec_pair deca decb (enc_pair enca encb p @ rest) = Ok (p, rest)"
    by (cases p) (simp add: dec_pair_def enc_pair_def codec.dec_enc [OF c] codec.dec_enc [OF d])
next
  fix bs p rest
  assume "dec_pair deca decb bs = Ok (p, rest)"
  then show "(case p of (x, y) \<Rightarrow> v x \<and> w y) \<and> bs = enc_pair enca encb p @ rest"
    using codec.enc_dec [OF c] codec.enc_dec [OF d]
    by (auto simp: dec_pair_def enc_pair_def rbind_Ok_iff_prod simp del: rbind_eq_Ok)
qed

lemma codec_duration [codec_intros]:
  assumes b: "codec benc bdec (\<lambda>_. True)"
  shows "codec (enc_duration benc) (dec_duration bdec) (\<lambda>(secs, nsecs). nsecs < 1000000000)"
proof -
  have p: "codec (enc_pair (enc_num benc) (enc_num benc)) (dec_pair (dec_num bdec) (dec_num bdec))
      (\<lambda>(x :: u64, y :: u32). True \<and> True)"
    by (intro codec_pair codec_num b) simp_all
  have enc: "enc_duration benc = enc_pair (enc_num benc) (enc_num benc)"
    by (simp add: enc_duration_def enc_pair_def fun_eq_iff)
  have dec: "dec_duration bdec bs = Ok (d, rest) \<longleftrightarrow>
      dec_pair (dec_num bdec) (dec_num bdec) bs = Ok (d, rest) \<and> snd d < 1000000000" for bs d rest
    by (cases d) (auto simp: dec_duration_def dec_pair_def rbind_Ok_iff_prod not_le
        simp del: rbind_eq_Ok)
  show ?thesis
    using codec.dec_enc [OF p] codec.enc_dec [OF p] by unfold_locales (auto simp: dec enc)
qed

subsection \<open>Sequences and maps keep the contract\<close>

lemma codec_elems:
  assumes c: "codec enc dec v"
  shows "codec (\<lambda>xs. concat (map enc xs)) (dec_elems dec n) (\<lambda>xs. length xs = n \<and> list_all v xs)"
proof
  fix xs rest
  assume "length xs = n \<and> list_all v xs"
  then show "dec_elems dec n (concat (map enc xs) @ rest) = Ok (xs, rest)"
    by (induction xs arbitrary: n) (auto simp: codec.dec_enc [OF c])
next
  fix bs xs rest
  assume "dec_elems dec n bs = Ok (xs, rest)"
  then show "(length xs = n \<and> list_all v xs) \<and> bs = concat (map enc xs) @ rest"
  proof (induction n arbitrary: bs xs)
    case (Suc n)
    then obtain y left ys where "dec bs = Ok (y, left)" "dec_elems dec n left = Ok (ys, rest)"
      "xs = y # ys"
      by (auto simp: rbind_Ok_iff_prod simp del: rbind_eq_Ok)
    then show ?case
      using Suc.IH [of left ys] codec.enc_dec [OF c, of bs y left] by simp
  qed simp
qed

lemma dec_elems_length: "dec_elems dec n bs = Ok (xs, rest) \<Longrightarrow> length xs = n"
  by (induction n arbitrary: bs xs) (auto simp: rbind_Ok_iff_prod simp del: rbind_eq_Ok)

lemma dec_elems_add:
  "dec_elems dec (m + n) bs =
     rbind (dec_elems dec m bs) (\<lambda>(xs, left).
       rbind (dec_elems dec n left) (\<lambda>(ys, left'). Ok (xs @ ys, left')))"
proof (induction m arbitrary: bs)
  case 0
  then show ?case by (cases "dec_elems dec n bs") auto
next
  case (Suc m)
  show ?case
    by (simp add: Suc rbind_assoc case_prod_beta')
qed

text \<open>
  Reading the first elements into a bounded allocation and the rest one by one is reading them
  all, and the assertion on the length does not fire.
\<close>

lemma dec_vec_eq:
  assumes "size_of \<noteq> 0"
  shows "dec_vec bdec size_of dec bs =
    rbind (dec_num bdec bs) (\<lambda>(len :: u64, left). dec_elems dec (unat len) left)"
proof -
  have split: "rbind (dec_elems dec c left) (\<lambda>(v, left').
        rbind (dec_elems dec (n - length v) left') (\<lambda>(w, left'').
          rbind (rassert (length (v @ w) = n)) (\<lambda>_. Ok (v @ w, left'')))) = dec_elems dec n left"
    if "c \<le> n" for c n left
  proof -
    have "dec_elems dec n left = dec_elems dec (c + (n - c)) left"
      using that by simp
    also have "\<dots> = rbind (dec_elems dec c left) (\<lambda>(v, left').
        rbind (dec_elems dec (n - length v) left') (\<lambda>(w, left'').
          rbind (rassert (length (v @ w) = n)) (\<lambda>_. Ok (v @ w, left''))))"
      unfolding dec_elems_add using that
      by (intro rbind_cong refl) (auto dest!: dec_elems_length intro!: rbind_cong simp: rassert_def)
    finally show ?thesis ..
  qed
  show ?thesis
    unfolding dec_vec_def Let_def using assms
    by (intro rbind_cong refl) (simp add: split [simplified] split: prod.splits)
qed

lemma codec_vec [codec_intros]:
  assumes b: "codec benc bdec (\<lambda>_. True)" and c: "codec enc dec v" and "size_of \<noteq> 0"
  shows "codec (enc_vec benc enc) (dec_vec bdec size_of dec)
    (\<lambda>xs. length xs < 2 ^ 64 \<and> list_all v xs)"
proof
  have n: "codec (enc_num benc :: u64 encoder) (dec_num bdec) (\<lambda>_. True)"
    by (rule codec_num [OF b]) simp
  show "dec_vec bdec size_of dec (enc_vec benc enc xs @ rest) = Ok (xs, rest)"
    if "length xs < 2 ^ 64 \<and> list_all v xs" for xs rest
    using that codec.dec_enc [OF codec_elems [OF c], of xs "length xs" rest]
    by (simp add: dec_vec_eq assms(3) enc_vec_def codec.dec_enc [OF n] unat_of_nat_u64)
  show "(length xs < 2 ^ 64 \<and> list_all v xs) \<and> bs = enc_vec benc enc xs @ rest"
    if dec: "dec_vec bdec size_of dec bs = Ok (xs, rest)" for bs xs rest
  proof -
    obtain len :: u64 and left where "dec_num bdec bs = Ok (len, left)"
      and "dec_elems dec (unat len) left = Ok (xs, rest)"
      using dec unfolding dec_vec_eq [OF assms(3)] rbind_Ok_iff_prod by blast
    then show ?thesis
      using codec.enc_dec [OF n, of bs len left] codec.enc_dec [OF codec_elems [OF c]]
        unsigned_less [of len, where 'a = nat] by (fastforce simp: enc_vec_def)
  qed
qed

text \<open>The chunked loop of \<open>Vec<u8>\<close> reads the same bytes as one read.\<close>

lemma read_chunks_eq:
  "read_chunks len acc bs =
     rbind (read_exact len bs) (\<lambda>(xs, left). Ok (acc @ xs, left))"
proof (induction len acc bs rule: read_chunks.induct)
  case (1 len acc bs)
  show ?case
  proof (cases "len = 0")
    case True
    then show ?thesis by (simp add: read_chunks.simps read_exact_def)
  next
    case False
    let ?c = "min len CHUNK_SIZE"
    have "read_chunks len acc bs =
        rbind (read_exact ?c bs) (\<lambda>(chunk, left). read_chunks (len - ?c) (acc @ chunk) left)"
      using False by (subst read_chunks.simps) (simp add: Let_def)
    also have "\<dots> = rbind (read_exact ?c bs) (\<lambda>(chunk, left).
        rbind (read_exact (len - ?c) left) (\<lambda>(xs, left'). Ok ((acc @ chunk) @ xs, left')))"
      using "1.IH" [OF False refl] by (intro rbind_cong refl) (auto split: prod.splits)
    also have "\<dots> = rbind (read_exact len bs) (\<lambda>(xs, left). Ok (acc @ xs, left))"
      by (auto simp: read_exact_def take_add [of ?c "len - ?c", symmetric] add.commute)
    finally show ?thesis .
  qed
qed

lemma codec_bytes [codec_intros]:
  assumes b: "codec benc bdec (\<lambda>_. True)"
  shows "codec (enc_bytes benc) (dec_bytes bdec) (\<lambda>xs. length xs < 2 ^ 64)"
proof
  have n: "codec (enc_num benc :: u64 encoder) (dec_num bdec) (\<lambda>_. True)"
    by (rule codec_num [OF b]) simp
  show "dec_bytes bdec (enc_bytes benc xs @ rest) = Ok (xs, rest)" if "length xs < 2 ^ 64" for xs rest
    using that
    by (simp add: dec_bytes_def enc_bytes_def codec.dec_enc [OF n] unat_of_nat_u64 read_chunks_eq)
  show "length xs < 2 ^ 64 \<and> bs = enc_bytes benc xs @ rest"
    if dec: "dec_bytes bdec bs = Ok (xs, rest)" for bs xs rest
  proof -
    obtain len :: u64 and left where num: "dec_num bdec bs = Ok (len, left)"
      and "read_exact (unat len) left = Ok (xs, rest)"
      using dec unfolding dec_bytes_def rbind_Ok_iff_prod read_chunks_eq by auto
    then have "length xs = unat len" and "left = xs @ rest"
      by (simp_all add: read_exact_eq_Ok)
    moreover have "bs = enc_num benc len @ left"
      using codec.enc_dec [OF n num] by simp
    ultimately show ?thesis
      using unsigned_less [of len, where 'a = nat] by (simp add: enc_bytes_def)
  qed
qed

lemma codec_array [codec_intros]:
  "codec enc_array (dec_array n) (\<lambda>xs. length xs = n)"
  by unfold_locales (auto simp: enc_array_def dec_array_def read_exact_eq_Ok)

abbreviation enc_entry :: "'k encoder \<Rightarrow> 'v encoder \<Rightarrow> ('k \<times> 'v) encoder" where
  "enc_entry enck encv \<equiv> \<lambda>(k, v). enck k @ encv v"

lemma dec_entries_enc:
  assumes ck: "codec enck deck vk" and cv: "codec encv decv vv"
    and "bt_wf (res @ m)" and "\<forall>(k, v)\<in>set m. vk k \<and> vv v"
  shows "dec_entries deck decv (length m) res (concat (map (enc_entry enck encv) m) @ rest)
    = Ok (res @ m, rest)"
  using assms(3,4)
proof (induction m arbitrary: res)
  case (Cons p m)
  obtain k v where p: "p = (k, v)"
    by (cases p)
  have below: "\<forall>q\<in>set res. fst q < k" and wf: "bt_wf ((res @ [(k, v)]) @ m)"
    using Cons.prems(1) by (auto simp: p bt_wf_append bt_wf_Cons)
  have "\<not> (res \<noteq> [] \<and> k \<le> fst (last res))" and "map_of res k = None"
    using below last_in_set [of res] by (fastforce simp: map_of_eq_None_iff)+
  then show ?case
    using Cons.IH [OF wf] Cons.prems(2) bt_insert_append [OF below, of v]
    by (auto simp: p codec.dec_enc [OF ck] codec.dec_enc [OF cv])
qed simp

lemma dec_entries_dec:
  assumes ck: "codec enck deck vk" and cv: "codec encv decv vv"
    and "bt_wf res" and "dec_entries deck decv n res bs = Ok (r, rest)"
  shows "\<exists>m. r = res @ m \<and> length m = n \<and> bt_wf r \<and> (\<forall>(k, v)\<in>set m. vk k \<and> vv v) \<and>
    bs = concat (map (enc_entry enck encv) m) @ rest"
  using assms(3,4)
proof (induction n arbitrary: res bs)
  case (Suc n)
  then obtain k left v left' where k: "deck bs = Ok (k, left)" and v: "decv left = Ok (v, left')"
    and last: "\<not> (res \<noteq> [] \<and> k \<le> fst (last res))"
    and rec: "dec_entries deck decv n (bt_insert k v res) left' = Ok (r, rest)"
    by (auto simp: rbind_Ok_iff_prod simp del: rbind_eq_Ok split: if_splits)
  have "\<forall>p\<in>set res. fst p < k"
    using last bt_wf_last [OF Suc.prems(1)] by fastforce
  then have ins: "bt_insert k v res = res @ [(k, v)]"
    by (rule bt_insert_append)
  from Suc.IH [OF bt_wf_insert [OF Suc.prems(1)] rec] obtain m where
    m: "r = bt_insert k v res @ m" "length m = n" "bt_wf r" "\<forall>(k, v)\<in>set m. vk k \<and> vv v"
    "left' = concat (map (enc_entry enck encv) m) @ rest"
    by blast
  show ?case
    using m codec.enc_dec [OF ck k] codec.enc_dec [OF cv v]
    by (intro exI [of _ "(k, v) # m"]) (simp add: ins)
qed simp

definition map_valid :: "('k \<Rightarrow> bool) \<Rightarrow> ('v \<Rightarrow> bool) \<Rightarrow> ('k::linorder, 'v) btree \<Rightarrow> bool" where
  "map_valid vk vv m \<longleftrightarrow> bt_wf m \<and> length m < 2 ^ 64 \<and> (\<forall>(k, v)\<in>set m. vk k \<and> vv v)"

lemma codec_btree [codec_intros]:
  assumes b: "codec benc bdec (\<lambda>_. True)" and ck: "codec enck deck vk" and cv: "codec encv decv vv"
  shows "codec (enc_btree benc enck encv) (dec_btree bdec deck decv) (map_valid vk vv)"
proof
  have n: "codec (enc_num benc :: u64 encoder) (dec_num bdec) (\<lambda>_. True)"
    by (rule codec_num [OF b]) simp
  show "dec_btree bdec deck decv (enc_btree benc enck encv m @ rest) = Ok (m, rest)"
    if "map_valid vk vv m" for m rest
    using that dec_entries_enc [OF ck cv, of "[]" m rest]
    by (simp add: map_valid_def dec_btree_def enc_btree_def codec.dec_enc [OF n] unat_of_nat_u64)
  show "map_valid vk vv m \<and> bs = enc_btree benc enck encv m @ rest"
    if dec: "dec_btree bdec deck decv bs = Ok (m, rest)" for bs m rest
  proof -
    obtain len :: u64 and left where num: "dec_num bdec bs = Ok (len, left)"
      and ent: "dec_entries deck decv (unat len) [] left = Ok (m, rest)"
      using dec unfolding dec_btree_def rbind_Ok_iff_prod by blast
    have "length m = unat len" "bt_wf m" "\<forall>(k, v)\<in>set m. vk k \<and> vv v"
      and left: "left = concat (map (enc_entry enck encv) m) @ rest"
      using dec_entries_dec [OF ck cv bt_wf_Nil ent] by auto
    moreover have "bs = enc_num benc len @ left"
      using codec.enc_dec [OF n num] by simp
    ultimately show ?thesis
      using unsigned_less [of len, where 'a = nat] by (simp add: enc_btree_def map_valid_def)
  qed
qed

lemma codec_btree_set [codec_intros]:
  assumes b: "codec benc bdec (\<lambda>_. True)" and ck: "codec enck deck vk"
  shows "codec (enc_btree_set benc enck) (dec_btree_set bdec deck) (map_valid vk (\<lambda>_. True))"
proof -
  have entries: "dec_set_entries deck n res bs = dec_entries deck dec_unit n res bs" for n res bs
    by (induction n arbitrary: res bs) (auto simp: dec_unit_def intro!: rbind_cong)
  have "enc_btree_set benc enck = enc_btree benc enck enc_unit"
    by (simp add: fun_eq_iff enc_btree_set_def enc_btree_def bt_keys_def enc_unit_def comp_def
        case_prod_beta')
  moreover have "dec_btree_set bdec deck = dec_btree bdec deck dec_unit"
    by (simp add: fun_eq_iff dec_btree_set_def dec_btree_def entries)
  ultimately show ?thesis
    using codec_btree [OF b ck unit.codec_axioms] by simp
qed

lemma codec_vec_deque [codec_intros]:
  assumes "codec benc bdec (\<lambda>_. True)" and "codec enc dec v" and "size_of \<noteq> 0"
  shows "codec (enc_vec_deque benc enc) (dec_vec_deque bdec size_of dec)
    (\<lambda>xs. length xs < 2 ^ 64 \<and> list_all v xs)"
proof -
  have fold: "foldl (\<lambda>out i. out @ enc i) out xs = out @ concat (map enc xs)" for out xs
    by (induction xs arbitrary: out) auto
  have "enc_vec_deque benc enc = enc_vec benc enc"
    by (simp add: fun_eq_iff enc_vec_deque_def enc_vec_def fold)
  moreover have "dec_vec_deque bdec size_of dec = dec_vec bdec size_of dec"
    by (simp add: fun_eq_iff dec_vec_deque_def)
  ultimately show ?thesis
    using codec_vec [OF assms] by simp
qed

lemma codec_array_items [codec_intros]:
  assumes "codec enc dec v"
  shows "codec (enc_array_items enc) (dec_array_items dec n)
    (\<lambda>xs. length xs = n \<and> list_all v xs)"
proof -
  have "enc_array_items enc = (\<lambda>xs. concat (map enc xs))" "dec_array_items dec n = dec_elems dec n"
    by (simp_all add: fun_eq_iff enc_array_items_def dec_array_items_def)
  then show ?thesis
    using codec_elems [OF assms, of n] by simp
qed

subsection \<open>Derived encodings of enums\<close>

text \<open>
  What the derive macro generates is a codec when each arm is one for its own variant: the index
  selects the arm, and the length prefix keeps an arm from reading past its fields.
\<close>

lemma codec_enum [codec_intros]:
  assumes b: "codec benc bdec (\<lambda>_. True)"
    and arms: "\<And>i arm. arms i = Some arm \<Longrightarrow> codec fields arm (\<lambda>x. tag x = i \<and> v x)"
  shows "codec (\<lambda>x. enc_variant benc (tag x) (fields x)) (dec_variant bdec arms None)
    (\<lambda>x. v x \<and> arms (tag x) \<noteq> None \<and> length (fields x) < 2 ^ 64)"
proof
  have n: "codec (enc_num benc :: u64 encoder) (dec_num bdec) (\<lambda>_. True)"
    by (rule codec_num [OF b]) simp
  note bc = codec_bytes [OF b]
  show "dec_variant bdec arms None (enc_variant benc (tag x) (fields x) @ rest) = Ok (x, rest)"
    if valid: "v x \<and> arms (tag x) \<noteq> None \<and> length (fields x) < 2 ^ 64" for x rest
  proof -
    obtain arm where arm: "arms (tag x) = Some arm"
      using valid by blast
    have "arm (fields x) = Ok (x, [])"
      using codec.dec_enc [OF arms [OF arm], of x "[]"] valid by simp
    then show ?thesis
      using valid codec.dec_enc [OF bc, of "fields x" rest]
      by (simp add: dec_variant_def enc_variant_def with_decoding_context_def
          codec.dec_enc [OF n] arm)
  qed
  show "(v x \<and> arms (tag x) \<noteq> None \<and> length (fields x) < 2 ^ 64) \<and>
      bs = enc_variant benc (tag x) (fields x) @ rest"
    if dec: "dec_variant bdec arms None bs = Ok (x, rest)" for bs x rest
  proof -
    from dec obtain i :: u64 and left arm fs
      where i: "dec_num bdec bs = Ok (i, left)" and arm: "arms i = Some arm"
        and fs: "dec_bytes bdec left = Ok (fs, rest)" and x: "arm fs = Ok (x, [])"
      unfolding dec_variant_def rbind_Ok_iff_prod with_decoding_context_def
      by (auto simp: rbind_Ok_iff_prod simp del: rbind_eq_Ok split: option.splits if_splits)
    then show ?thesis
      using codec.enc_dec [OF n i] codec.enc_dec [OF bc fs] codec.enc_dec [OF arms [OF arm] x]
      by (simp add: enc_variant_def)
  qed
qed

subsection \<open>Database keys keep their order\<close>

text \<open>
  The database compares encoded keys byte by byte. An ordered codec is one whose encoding keeps the
  order of the values, so that iterating over a table in byte order is iterating over the map in
  key order. Being prefix-free is what makes composite keys ordered too.
\<close>

locale ordered_codec = codec enc dec valid
  for enc :: "'a::linorder encoder" and dec and valid +
  assumes enc_mono: "valid x \<Longrightarrow> valid y \<Longrightarrow> x < y \<Longrightarrow> enc x < enc y"
begin

lemma enc_less_iff: "valid x \<Longrightarrow> valid y \<Longrightarrow> enc x < enc y \<longleftrightarrow> x < y"
  using enc_mono [of x y] enc_mono [of y x] by (cases x y rule: linorder_cases) auto

lemma enc_append_mono:
  assumes "valid x" and "valid y" and "x < y"
  shows "enc x @ r < enc y @ s"
proof -
  have "(enc x, enc y) \<in> lexord {(u, v). u < v}"
    using enc_mono [OF assms] by (simp add: list_less_def)
  moreover have "enc y \<noteq> enc x @ a # u" for a u
    using prefix_free [OF assms(1,2), of "a # u" "[]"] by auto
  ultimately obtain u a b v w where "a < b" "enc x = u @ a # v" "enc y = u @ b # w"
    unfolding lexord_def by blast
  then show ?thesis
    by (simp add: list_less_def lexord_append_leftI lexord_cons_cons)
qed

end

lemma append_less_append [simp]: "us @ xs < us @ ys \<longleftrightarrow> xs < ys"
  for us xs ys :: "'b::linorder list"
  by (induction us) auto

lemma ordered_codec_array: "ordered_codec enc_array (dec_array n) (\<lambda>xs. length xs = n)"
  by (intro ordered_codec.intro codec_array ordered_codec_axioms.intro) (simp add: enc_array_def)

lemma ordered_codec_num:
  assumes "ordered_codec benc bdec (\<lambda>_. True)" and len: "LENGTH('w) \<le> 64"
  shows "ordered_codec (enc_num benc :: 'w::len word encoder) (dec_num bdec) (\<lambda>_. True)"
proof -
  have "codec benc bdec (\<lambda>_. True)"
    using assms(1) by (rule ordered_codec.axioms(1))
  moreover have "(ucast x :: u64) < ucast y" if "x < y" for x y :: "'w word"
  proof -
    have "unat z < 2 ^ LENGTH(64)" for z :: "'w word"
      using len by (intro less_le_trans [OF unsigned_less power_increasing]) auto
    then show ?thesis
      using that by (simp add: word_less_nat_alt unat_ucast_mod del: len_bit0)
  qed
  ultimately show ?thesis
    using len by (intro ordered_codec.intro codec_num ordered_codec_axioms.intro)
      (auto simp: enc_num_def intro: ordered_codec.enc_mono [OF assms(1)])
qed

lemma ordered_codec_pair:
  assumes c: "ordered_codec enca deca v" and d: "ordered_codec encb decb w"
  shows "ordered_codec (enc_pair enca encb) (dec_pair deca decb) (\<lambda>(x, y). v x \<and> w y)"
proof (intro ordered_codec.intro codec_pair ordered_codec_axioms.intro)
  show "enc_pair enca encb p < enc_pair enca encb q"
    if "case p of (x, y) \<Rightarrow> v x \<and> w y" "case q of (x, y) \<Rightarrow> v x \<and> w y" "p < q" for p q
    using that ordered_codec.enc_append_mono [OF c] ordered_codec.enc_mono [OF d]
    by (cases p; cases q; cases "fst p = fst q") (auto simp: enc_pair_def)
qed (use c d in \<open>auto intro: ordered_codec.axioms(1)\<close>)

end
