(* ===== verification/BigSize.thy ===== *)
theory BigSize
  imports Encoding
begin

section \<open>Big-endian integers and the \<open>BigSize\<close> format\<close>

text \<open>
  \<open>u64::to_be_bytes\<close> of the standard library (session headers are hashed over it), and the
  \<open>BigSize\<close> format of the Lightning specification (BOLT 1). The program takes \<open>BigSize\<close> from
  the \<open>lightning\<close> crate, so the theorems take it as an argument with the laws of an ordered
  codec. This theory shows that the documented format has these laws, and the witnesses use it.
\<close>

fun be_bytes :: "nat \<Rightarrow> nat \<Rightarrow> bytes" where
  "be_bytes 0 v = []"
| "be_bytes (Suc n) v = of_nat (v div 256 ^ n) # be_bytes n (v mod 256 ^ n)"

fun from_be :: "bytes \<Rightarrow> nat" where
  "from_be [] = 0"
| "from_be (b # bs) = unat b * 256 ^ length bs + from_be bs"

definition u64_to_be_bytes :: "u64 \<Rightarrow> bytes" where
  "u64_to_be_bytes x = be_bytes 8 (unat x)"

lemma length_be_bytes [simp]: "length (be_bytes n v) = n"
  by (induction n arbitrary: v) auto

lemma unat_byte: "v < 256 \<Longrightarrow> unat (of_nat v :: u8) = v"
  by (simp add: unat_of_nat)

lemma from_be_less: "from_be bs < 256 ^ length bs"
proof (induction bs)
  case (Cons b bs)
  have "unat b < 256"
    using unsigned_less [of b, where 'a = nat] by simp
  then have "Suc (unat b) * 256 ^ length bs \<le> 256 * 256 ^ length bs"
    by (intro mult_right_mono) auto
  moreover have "Suc (unat b) * 256 ^ length bs = unat b * 256 ^ length bs + 256 ^ length bs"
    by simp
  ultimately show ?case
    using Cons by (simp only: from_be.simps length_Cons power_Suc)
qed simp

lemma from_be_be_bytes: "v < 256 ^ n \<Longrightarrow> from_be (be_bytes n v) = v"
proof (induction n arbitrary: v)
  case (Suc n)
  have "v div 256 ^ n < 256"
    using Suc.prems by (simp add: less_mult_imp_div_less)
  then show ?case
    by (simp add: Suc.IH unat_byte div_mult_mod_eq)
qed simp

lemma be_bytes_from_be: "be_bytes (length bs) (from_be bs) = bs"
proof (induction bs)
  case (Cons b bs)
  show ?case
    using Cons from_be_less [of bs] by simp
qed simp

lemma be_bytes_mono: "v < w \<Longrightarrow> w < 256 ^ n \<Longrightarrow> be_bytes n v < be_bytes n w"
proof (induction n arbitrary: v w)
  case (Suc n)
  have top: "x div 256 ^ n < 256" if "x < 256 ^ Suc n" for x :: nat
    using that by (simp add: less_mult_imp_div_less)
  have le: "v div 256 ^ n \<le> w div 256 ^ n"
    using Suc.prems by (simp add: div_le_mono)
  show ?case
  proof (cases "v div 256 ^ n = w div 256 ^ n")
    case True
    then have "v mod 256 ^ n < w mod 256 ^ n"
      using Suc.prems(1) by (metis add_less_cancel_left mult_div_mod_eq)
    then show ?thesis
      using True Suc.IH by simp
  next
    case False
    then have "(of_nat (v div 256 ^ n) :: u8) < of_nat (w div 256 ^ n)"
      using le Suc.prems top [of v] top [of w] by (simp add: word_less_nat_alt unat_byte)
    then show ?thesis by simp
  qed
qed simp

subsection \<open>The documented format\<close>

text \<open>
  One byte below \<open>0xfd\<close>; otherwise a marker and two, four or eight big-endian bytes, of which
  the shortest has to be used.
\<close>

definition big_enc :: "u64 encoder" where
  "big_enc x =
     (if x < 0xFD then [ucast x]
      else if x < 0x10000 then 0xFD # be_bytes 2 (unat x)
      else if x < 0x100000000 then 0xFE # be_bytes 4 (unat x)
      else 0xFF # be_bytes 8 (unat x))"

definition big_tail :: "nat \<Rightarrow> nat \<Rightarrow> u64 decoder" where
  "big_tail n least bs =
     rbind (read_exact n bs) (\<lambda>(xs, left).
       if from_be xs < least then Err Invalid else Ok (of_nat (from_be xs), left))"

definition big_dec :: "u64 decoder" where
  "big_dec bs =
     rbind (dec_u8 bs) (\<lambda>(b, left).
       if b = 0xFF then big_tail 8 0x100000000 left
       else if b = 0xFE then big_tail 4 0x10000 left
       else if b = 0xFD then big_tail 2 0xFD left
       else Ok (ucast b, left))"

lemma big_tail_be_bytes:
  assumes "least \<le> unat x" and "unat x < 256 ^ n"
  shows "big_tail n least (be_bytes n (unat x) @ rest) = Ok (x, rest)"
proof -
  have "read_exact n (be_bytes n (unat x) @ rest) = Ok (be_bytes n (unat x), rest)"
    by (simp add: read_exact_eq_Ok)
  then show ?thesis
    using assms by (simp add: big_tail_def from_be_be_bytes)
qed

lemma big_tail_eq_Ok:
  assumes "big_tail n least bs = Ok (x, rest)" and "n \<le> 8"
  shows "bs = be_bytes n (unat x) @ rest \<and> least \<le> unat x \<and> unat x < 256 ^ n"
proof -
  obtain xs where bs: "length xs = n" "bs = xs @ rest" and least: "least \<le> from_be xs"
    and x: "x = of_nat (from_be xs)"
    using assms(1) unfolding big_tail_def rbind_Ok_iff_prod
    by (auto simp: read_exact_eq_Ok split: if_splits)
  have "from_be xs < 256 ^ n"
    using from_be_less [of xs] bs by simp
  moreover have "(256 :: nat) ^ n \<le> 256 ^ 8"
    using assms(2) by (intro power_increasing) auto
  ultimately have "unat x = from_be xs"
    using x by (simp add: unat_of_nat_u64)
  then show ?thesis
    using bs least \<open>from_be xs < 256 ^ n\<close> be_bytes_from_be [of xs] by simp
qed

lemma unat_u64_less_pow8: "unat (x :: u64) < 256 ^ 8"
  using unsigned_less [of x, where 'a = nat] by simp

lemma big_dec_enc: "big_dec (big_enc x @ rest) = Ok (x, rest)"
proof -
  have small: "(ucast x :: u8) \<noteq> 0xFF \<and> (ucast x :: u8) \<noteq> 0xFE \<and> (ucast x :: u8) \<noteq> 0xFD \<and>
      (ucast (ucast x :: u8) :: u64) = x" if "x < 0xFD"
    using that by (simp add: word_unat_eq_iff unat_ucast_mod word_less_nat_alt)
  show ?thesis
    using small unat_u64_less_pow8 [of x]
    by (simp add: big_enc_def big_dec_def big_tail_be_bytes word_less_nat_alt)
qed

lemma big_enc_dec:
  assumes "big_dec bs = Ok (x, rest)"
  shows "bs = big_enc x @ rest"
proof -
  obtain b left where bs: "bs = b # left"
    and tail: "(if b = 0xFF then big_tail 8 0x100000000 left
       else if b = 0xFE then big_tail 4 0x10000 left
       else if b = 0xFD then big_tail 2 0xFD left
       else Ok (ucast b, left)) = Ok (x, rest)"
    using assms unfolding big_dec_def rbind_Ok_iff_prod dec_u8_eq_Ok by blast
  consider "b = 0xFF" | "b = 0xFE" | "b = 0xFD" | "b < 0xFD"
  proof -
    have "unat b < 256"
      using unsigned_less [of b, where 'a = nat] by simp
    then have "unat b = 0xFF \<or> unat b = 0xFE \<or> unat b = 0xFD \<or> unat b < 0xFD"
      by linarith
    then show ?thesis
      using that by (auto simp: word_unat_eq_iff word_less_nat_alt)
  qed
  then show ?thesis
  proof cases
    case 4
    then have "x = ucast b" "rest = left"
      using tail by (auto split: if_splits)
    moreover have "(ucast b :: u64) < 0xFD" "(ucast (ucast b :: u64) :: u8) = b"
      using 4 by (simp_all add: word_less_nat_alt word_unat_eq_iff unat_ucast_mod)
    ultimately show ?thesis
      by (simp add: bs big_enc_def)
  qed (use tail in \<open>auto simp: bs big_enc_def word_less_nat_alt dest!: big_tail_eq_Ok\<close>)
qed

lemma big_enc_mono:
  assumes "x < y"
  shows "big_enc x < big_enc y"
proof -
  have le: "unat x < unat y" "unat y < 256 ^ 8"
    using assms unat_u64_less_pow8 [of y] by (simp_all add: word_less_nat_alt)
  have small: "(ucast z :: u8) < 0xFD \<and> unat (ucast z :: u8) = unat z" if "z < 0xFD" for z :: u64
    using that by (simp add: word_less_nat_alt unat_ucast_mod)
  show ?thesis
    using le small [of x] small [of y] be_bytes_mono [of "unat x" "unat y"]
    by (auto simp: big_enc_def word_less_nat_alt)
qed

interpretation big: ordered_codec big_enc big_dec "\<lambda>_. True"
  by unfold_locales (simp_all add: big_dec_enc big_enc_dec big_enc_mono)

end
