(* ===== verification/DynTypes.thy ===== *)
theory DynTypes
  imports BigSize
begin

section \<open>Module-typed values: dynamic encodings\<close>

text \<open>
  Inputs, outputs and consensus items of a module are carried by the consensus as values of an
  erased type, tagged with the instance of the module. They are encoded as
  \<open>module_instance_id | len_u64 | data\<close> (\<open>fedimint-core/src/macros.rs\<close>) and decoded by
  the decoder registered for the instance (\<open>Decoder\<close> in \<open>core.rs\<close>, the registry in
  \<open>module/registry.rs\<close>); an instance with no decoder is rejected, kept as unknown bytes, or,
  for a \<open>DynRawFallback\<close> (\<open>encoding/mod.rs\<close>), kept raw to be decoded later.
  The decoders of the modules are arguments: a registry maps an instance to its decoder.
\<close>

type_synonym module_instance_id = u16

datatype decoding_mode = Reject | Fallback

record 'a decoder_registry =
  dr_get :: "module_instance_id \<Rightarrow> 'a decoder option"
  dr_mode :: decoding_mode

datatype 'a dyn_inner = Typed 'a | DynUnknown bytes

type_synonym 'a dyn_value = "module_instance_id \<times> 'a dyn_inner"

subsection \<open>The decoder of a module\<close>

text \<open>
  \<open>with_decodable_type\<close> wraps the decoder of a type, which sees at most
  \<open>MAX_DECODE_SIZE\<close> bytes.
\<close>

definition decode_fn :: "'a decoder \<Rightarrow> 'a decoder" where
  "decode_fn dec bs = map_err (Context ''while decoding Dyn type'') (consensus_decode_partial dec bs)"

text \<open>
  \<open>decode_complete\<close> limits the reader to the announced length and fails when some of the
  limit is left, also when the reader ended before it.
\<close>

definition decode_complete :: "'a decoder \<Rightarrow> u64 \<Rightarrow> 'a decoder" where
  "decode_complete dec total_len bs =
     (let window = take (unat total_len) bs
      in rbind (decode_fn dec window) (\<lambda>(v, unread).
           let left = unat total_len - (length window - length unread)
           in if left \<noteq> 0
              then Err (Custom ''Dyn type did not consume all bytes during decoding'')
              else Ok (v, unread @ drop (unat total_len) bs)))"

subsection \<open>Dynamic newtypes\<close>

fun enc_dyn_inner :: "'a encoder \<Rightarrow> 'a dyn_inner encoder" where
  "enc_dyn_inner enc (Typed x) = enc x"
| "enc_dyn_inner enc (DynUnknown bs) = bs"

definition enc_dyn :: "u64 encoder \<Rightarrow> 'a encoder \<Rightarrow> 'a dyn_value encoder" where
  "enc_dyn benc enc d = enc_num benc (fst d) @ enc_bytes benc (enc_dyn_inner enc (snd d))"

definition dec_dyn :: "u64 decoder \<Rightarrow> 'a decoder_registry \<Rightarrow> 'a dyn_value decoder" where
  "dec_dyn bdec reg bs =
     rbind (dec_num bdec bs) (\<lambda>(mid, left).
       case dr_get reg mid of
         Some dec \<Rightarrow>
           rbind (dec_num bdec left) (\<lambda>(total_len, left').
             rbind (decode_complete dec total_len left') (\<lambda>(v, left''). Ok ((mid, Typed v), left'')))
       | None \<Rightarrow>
           (case dr_mode reg of
              Reject \<Rightarrow> Err (Custom ''Module decoder not available for module instance'')
            | Fallback \<Rightarrow>
                rbind (dec_bytes bdec left) (\<lambda>(raw, left'). Ok ((mid, DynUnknown raw), left'))))"

subsection \<open>Raw fallback\<close>

datatype 'a dyn_raw_fallback = Raw module_instance_id bytes | Decoded 'a

fun enc_raw_fallback :: "u64 encoder \<Rightarrow> 'a encoder \<Rightarrow> 'a dyn_raw_fallback encoder" where
  "enc_raw_fallback benc enc (Raw mid raw) = enc_num benc mid @ enc_bytes benc raw"
| "enc_raw_fallback benc enc (Decoded v) = enc v"

text \<open>\<open>T\<close> is a dynamic newtype: the decoder of the instance gives a value tagged with it.\<close>

definition dec_raw_fallback ::
  "u64 decoder \<Rightarrow> 'a decoder_registry \<Rightarrow> 'a dyn_value dyn_raw_fallback decoder" where
  "dec_raw_fallback bdec reg bs =
     rbind (dec_num bdec bs) (\<lambda>(mid, left).
       case dr_get reg mid of
         Some dec \<Rightarrow>
           rbind (dec_num bdec left) (\<lambda>(total_len, left').
             rbind (decode_complete dec total_len left')
               (\<lambda>(v, left''). Ok (Decoded (mid, Typed v), left'')))
       | None \<Rightarrow> rbind (dec_bytes bdec left) (\<lambda>(raw, left'). Ok (Raw mid raw, left')))"

fun redecode_raw ::
  "'a decoder_registry \<Rightarrow> 'a dyn_value dyn_raw_fallback
    \<Rightarrow> (decode_error, 'a dyn_value dyn_raw_fallback) result" where
  "redecode_raw reg (Raw mid raw) =
     (case dr_get reg mid of
        Some dec \<Rightarrow>
          rbind (decode_complete dec (of_nat (length raw)) raw)
            (\<lambda>(v, left). Ok (Decoded (mid, Typed v)))
      | None \<Rightarrow> Ok (Raw mid raw))"
| "redecode_raw reg (Decoded v) = Ok (Decoded v)"

fun decoded :: "'a dyn_raw_fallback \<Rightarrow> 'a option" where
  "decoded (Raw mid raw) = None"
| "decoded (Decoded v) = Some v"

fun expect_decoded :: "'a dyn_raw_fallback \<Rightarrow> ('e, 'a) result" where
  "expect_decoded (Raw mid raw) = Panic"
| "expect_decoded (Decoded v) = Ok v"

fun raw_fallback_eq ::
  "u64 encoder \<Rightarrow> 'a encoder \<Rightarrow> 'a dyn_raw_fallback \<Rightarrow> 'a dyn_raw_fallback \<Rightarrow> bool" where
  "raw_fallback_eq benc enc (Raw i r) (Raw j s) = (i = j \<and> r = s)"
| "raw_fallback_eq benc enc (Decoded v) (Decoded w) = (v = w)"
| "raw_fallback_eq benc enc r d = (enc_raw_fallback benc enc r = enc_raw_fallback benc enc d)"

subsection \<open>Round trips\<close>

lemma decode_partial_split:
  assumes c: "codec enc dec v" and "consensus_decode_partial dec bs = Ok (x, unread)"
  shows "v x \<and> bs = enc x @ unread \<and> length (enc x) \<le> MAX_DECODE_SIZE"
proof -
  obtain l where l: "dec (take MAX_DECODE_SIZE bs) = Ok (x, l)"
    and unread: "unread = l @ drop MAX_DECODE_SIZE bs"
    using assms(2) unfolding consensus_decode_partial_def rbind_Ok_iff_prod by auto
  from codec.enc_dec [OF c l] have x: "v x" and eq: "take MAX_DECODE_SIZE bs = enc x @ l"
    by simp_all
  have "bs = (enc x @ l) @ drop MAX_DECODE_SIZE bs"
    by (simp only: eq [symmetric] append_take_drop_id)
  moreover have "length (enc x) + length l \<le> MAX_DECODE_SIZE"
    using arg_cong [OF eq, of length] by (simp only: length_append length_take)
  ultimately show ?thesis
    using x unread by simp
qed

lemma decode_complete_iff:
  assumes c: "codec enc dec v"
  shows "decode_complete dec n bs = Ok (x, rest) \<longleftrightarrow>
    v x \<and> length (enc x) = unat n \<and> unat n \<le> MAX_DECODE_SIZE \<and> bs = enc x @ rest"
proof
  assume "decode_complete dec n bs = Ok (x, rest)"
  then obtain unread where dec: "consensus_decode_partial dec (take (unat n) bs) = Ok (x, unread)"
    and left: "unat n \<le> length (take (unat n) bs) - length unread"
    and rest: "rest = unread @ drop (unat n) bs"
    by (auto simp: decode_complete_def decode_fn_def Let_def rbind_Ok_iff_prod
        simp del: rbind_eq_Ok split: if_splits)
  have x: "v x" "take (unat n) bs = enc x @ unread" "length (enc x) \<le> MAX_DECODE_SIZE"
    using decode_partial_split [OF c dec] by blast+
  have len: "length (take (unat n) bs) \<le> unat n"
    by (simp only: length_take min.cobounded2)
  moreover have "length (take (unat n) bs) = length (enc x) + length unread"
    by (simp only: x(2) length_append)
  ultimately have "length unread = 0" "length (enc x) = unat n"
    using left by linarith+
  then have "unread = []" "length (enc x) = unat n"
    by simp_all
  then show "v x \<and> length (enc x) = unat n \<and> unat n \<le> MAX_DECODE_SIZE \<and> bs = enc x @ rest"
    using x rest append_take_drop_id [of "unat n" bs] by simp
next
  assume x: "v x \<and> length (enc x) = unat n \<and> unat n \<le> MAX_DECODE_SIZE \<and> bs = enc x @ rest"
  then have "consensus_decode_partial dec (enc x) = Ok (x, [])"
    using codec.decode_partial [OF c, of x "[]"] by simp
  moreover have "take (unat n) bs = enc x" and "drop (unat n) bs = rest"
    using x by simp_all
  ultimately show "decode_complete dec n bs = Ok (x, rest)"
    using x by (simp add: decode_complete_def decode_fn_def Let_def)
qed

lemma decode_complete_append:
  assumes "unat n = length raw"
  shows "decode_complete dec n (raw @ rest) =
    rbind (decode_complete dec n raw) (\<lambda>(x, l). Ok (x, l @ rest))"
  unfolding decode_complete_def Let_def rbind_assoc assms
  by (intro rbind_cong) (simp_all split: prod.splits)

text \<open>A registry whose decoders undo the encoder of the erased type.\<close>

definition registry_ok ::
  "'a encoder \<Rightarrow> (module_instance_id \<Rightarrow> 'a \<Rightarrow> bool) \<Rightarrow> 'a decoder_registry \<Rightarrow> bool" where
  "registry_ok enc v reg \<longleftrightarrow> (\<forall>mid dec. dr_get reg mid = Some dec \<longrightarrow> codec enc dec (v mid))"

definition dyn_valid ::
  "'a encoder \<Rightarrow> (module_instance_id \<Rightarrow> 'a \<Rightarrow> bool) \<Rightarrow> 'a decoder_registry \<Rightarrow> 'a dyn_value \<Rightarrow> bool" where
  "dyn_valid enc v reg d \<longleftrightarrow> (case d of
     (mid, Typed x) \<Rightarrow> dr_get reg mid \<noteq> None \<and> v mid x \<and> length (enc x) \<le> MAX_DECODE_SIZE
   | (mid, DynUnknown raw) \<Rightarrow>
       dr_get reg mid = None \<and> dr_mode reg = Fallback \<and> length raw < 2 ^ 64)"

lemma MAX_DECODE_SIZE_u64: "n \<le> MAX_DECODE_SIZE \<Longrightarrow> n < 2 ^ 64"
  by (simp add: MAX_DECODE_SIZE_def)

lemma codec_dyn [codec_intros]:
  assumes b: "codec benc bdec (\<lambda>_. True)" and reg: "registry_ok enc v reg"
  shows "codec (enc_dyn benc enc) (dec_dyn bdec reg) (dyn_valid enc v reg)"
proof
  have n16: "codec (enc_num benc :: u16 encoder) (dec_num bdec) (\<lambda>_. True)"
    and n: "codec (enc_num benc :: u64 encoder) (dec_num bdec) (\<lambda>_. True)"
    by (rule codec_num [OF b]; simp)+
  have arm: "codec enc dec (v mid)" if "dr_get reg mid = Some dec" for mid dec
    using reg that by (simp add: registry_ok_def)
  show "dec_dyn bdec reg (enc_dyn benc enc d @ rest) = Ok (d, rest)"
    if valid: "dyn_valid enc v reg d" for d rest
  proof (cases d rule: prod.exhaust)
    case (Pair mid x)
    show ?thesis
    proof (cases x)
      case (Typed a)
      then obtain dec where dec: "dr_get reg mid = Some dec"
        and a: "v mid a" "length (enc a) \<le> MAX_DECODE_SIZE"
        using valid Pair by (auto simp: dyn_valid_def)
      have "decode_complete dec (of_nat (length (enc a))) (enc a @ rest) = Ok (a, rest)"
        using a unat_of_nat_u64 [OF MAX_DECODE_SIZE_u64 [OF a(2)]]
        by (simp add: decode_complete_iff [OF arm [OF dec]])
      then show ?thesis
        by (simp add: Pair Typed dec dec_dyn_def enc_dyn_def enc_bytes_def codec.dec_enc [OF n16]
            codec.dec_enc [OF n])
    next
      case (DynUnknown raw)
      then show ?thesis
        using valid codec.dec_enc [OF codec_bytes [OF b], of raw rest]
        by (simp add: Pair dyn_valid_def dec_dyn_def enc_dyn_def codec.dec_enc [OF n16])
    qed
  qed
  show "dyn_valid enc v reg d \<and> bs = enc_dyn benc enc d @ rest"
    if dec: "dec_dyn bdec reg bs = Ok (d, rest)" for bs d rest
  proof -
    obtain mid :: u16 and left where mid: "dec_num bdec bs = Ok (mid, left)"
      using dec unfolding dec_dyn_def rbind_Ok_iff_prod by blast
    then have bs: "bs = enc_num benc mid @ left"
      using codec.enc_dec [OF n16] by blast
    show ?thesis
    proof (cases "dr_get reg mid")
      case None
      then obtain raw where "dr_mode reg = Fallback" "dec_bytes bdec left = Ok (raw, rest)"
        "d = (mid, DynUnknown raw)"
        using dec mid
        by (cases "dr_mode reg") (auto simp: dec_dyn_def rbind_Ok_iff_prod simp del: rbind_eq_Ok)
      then show ?thesis
        using codec.enc_dec [OF codec_bytes [OF b]] None bs
        by (fastforce simp: dyn_valid_def enc_dyn_def)
    next
      case (Some dc)
      then obtain len :: u64 and left' a where len: "dec_num bdec left = Ok (len, left')"
        and a: "decode_complete dc len left' = Ok (a, rest)" and d: "d = (mid, Typed a)"
        using dec mid by (auto simp: dec_dyn_def rbind_Ok_iff_prod simp del: rbind_eq_Ok)
      have "left = enc_num benc len @ left'"
        using codec.enc_dec [OF n len] by blast
      moreover have "(of_nat (unat len) :: u64) = len"
        by simp
      ultimately show ?thesis
        using a [unfolded decode_complete_iff [OF arm [OF Some]]] Some bs d
        by (simp add: dyn_valid_def enc_dyn_def enc_bytes_def)
    qed
  qed
qed

subsection \<open>Properties\<close>

text \<open>
  C17: a value kept raw because its module was unknown decodes, once the module is known, to exactly
  what decoding the original bytes with that module gives, errors included.
\<close>

theorem redecode_raw_eq_decode:
  assumes "codec benc bdec (\<lambda>_. True)" and "registry_ok enc v reg"
    and "dec_raw_fallback bdec reg0 bs = Ok (Raw mid raw, rest)"
  shows "dec_raw_fallback bdec reg bs
    = map_ok (\<lambda>d. (d, rest)) (redecode_raw reg (Raw mid raw))"
proof -
  obtain left where mid: "dec_num bdec bs = Ok (mid, left)"
    and raw: "dec_bytes bdec left = Ok (raw, rest)"
    using assms(3) unfolding dec_raw_fallback_def rbind_Ok_iff_prod
    by (auto simp: rbind_Ok_iff_prod simp del: rbind_eq_Ok split: option.splits)
  show ?thesis
  proof (cases "dr_get reg mid")
    case None
    then show ?thesis
      by (simp add: dec_raw_fallback_def mid raw)
  next
    case (Some dec)
    have n: "codec (enc_num benc :: u64 encoder) (dec_num bdec) (\<lambda>_. True)"
      by (rule codec_num [OF assms(1)]) simp
    have left: "length raw < 2 ^ 64"
      "left = enc_num benc (of_nat (length raw) :: u64) @ raw @ rest"
      using codec.enc_dec [OF codec_bytes [OF assms(1)] raw] by (simp_all add: enc_bytes_def)
    have c: "codec enc dec (v mid)"
      using assms(2) Some by (simp add: registry_ok_def)
    let ?n = "of_nat (length raw) :: u64"
    have window: "unat ?n = length raw"
      using left(1) by (rule unat_of_nat_u64)
    have consumed: "l = []" if "decode_complete dec ?n raw = Ok (x, l)" for x l
    proof -
      have "length (enc x) = length raw" "raw = enc x @ l"
        using that by (simp_all only: decode_complete_iff [OF c] window)
      then show ?thesis
        using arg_cong [of raw "enc x @ l" length] by simp
    qed
    have "dec_raw_fallback bdec reg bs = rbind (decode_complete dec ?n (raw @ rest))
        (\<lambda>(x, l). Ok (Decoded (mid, Typed x), l))"
      using codec.dec_enc [OF n TrueI]
      by (simp add: dec_raw_fallback_def mid left(2) Some)
    also have "\<dots> = map_ok (\<lambda>d. (d, rest)) (redecode_raw reg (Raw mid raw))"
      unfolding decode_complete_append [OF window]
      by (cases "decode_complete dec ?n raw") (auto simp: Some split: prod.splits dest: consumed)
    finally show ?thesis .
  qed
qed

theorem redecode_raw_eq_decode_witness:
  "dec_raw_fallback big_dec \<lparr>dr_get = (\<lambda>mid. if mid = 5 then Some dec_u8 else None), dr_mode = Reject\<rparr>
     [5, 1, 7, 9] = Ok (Decoded (5, Typed 7), [9])"
proof -
  let ?reg = "\<lparr>dr_get = (\<lambda>mid. if mid = 5 then Some dec_u8 else None), dr_mode = Reject\<rparr>"
  have "dec_raw_fallback big_dec \<lparr>dr_get = (\<lambda>_. None), dr_mode = Reject\<rparr> [5, 1, 7, 9]
      = Ok (Raw 5 [7] :: u8 dyn_value dyn_raw_fallback, [9])"
    by (simp add: dec_raw_fallback_def dec_num_def big_dec_def dec_bytes_def read_chunks_eq
        read_exact_def)
  moreover have "registry_ok enc_u8 (\<lambda>_ _. True) ?reg"
    using u8.codec_axioms by (simp add: registry_ok_def)
  ultimately have "dec_raw_fallback big_dec ?reg [5, 1, 7, 9]
      = map_ok (\<lambda>d. (d, [9])) (redecode_raw ?reg (Raw 5 [7]))"
    by (intro redecode_raw_eq_decode [OF big.codec_axioms])
  also have "\<dots> = Ok (Decoded (5, Typed 7), [9])"
    by (simp add: decode_complete_def decode_fn_def consensus_decode_partial_def Let_def
        MAX_DECODE_SIZE_def)
  finally show ?thesis .
qed

end
