(* ===== verification/Peers.thy ===== *)
theory Peers
  imports Prelude
begin

section \<open>Peers and thresholds\<close>

text \<open>
  \<open>fedimint-core/src/peer_id.rs\<close>. Guardians have consecutive ids from 0. The thresholds are
  what every other component counts votes and signatures against; the lemmas are the classical
  quorum facts for \<open>n \<ge> 3f + 1\<close>.
\<close>

type_synonym peer_id = u16

type_synonym num_peers = nat

definition peer_to_usize :: "peer_id \<Rightarrow> nat" where
  "peer_to_usize p = unat p"

definition peer_ids :: "num_peers \<Rightarrow> peer_id list" where
  "peer_ids n = map of_nat [0..<n mod 2 ^ 16]"

definition np_total :: "num_peers \<Rightarrow> nat" where
  "np_total n = n"

definition max_evil :: "num_peers \<Rightarrow> nat" where
  "max_evil n = usize_sub (np_total n) 1 div 3"

definition one_honest :: "num_peers \<Rightarrow> nat" where
  "one_honest n = max_evil n + 1"

definition threshold :: "num_peers \<Rightarrow> nat" where
  "threshold n = usize_sub (np_total n) (max_evil n)"

definition degree :: "num_peers \<Rightarrow> nat" where
  "degree n = usize_sub (threshold n) 1"

lemma max_evil_eq: "1 \<le> n \<Longrightarrow> max_evil n = (n - 1) div 3"
  by (simp add: max_evil_def np_total_def)

lemma threshold_eq: "1 \<le> n \<Longrightarrow> threshold n = n - (n - 1) div 3"
  by (simp add: threshold_def np_total_def max_evil_eq)

lemma threshold_bounds:
  assumes "1 \<le> n"
  shows "1 \<le> threshold n" and "threshold n \<le> n" and "3 * max_evil n < n"
    and "n < 2 * threshold n" and "max_evil n + n < 2 * threshold n"
    and "threshold n + max_evil n = n"
  using assms by (simp_all add: threshold_eq max_evil_eq)

lemma distinct_peer_ids: "distinct (peer_ids n)"
proof -
  have "inj_on (of_nat :: nat \<Rightarrow> u16) {0..<n mod 2 ^ 16}"
  proof (rule inj_onI)
    fix x y
    assume "x \<in> {0..<n mod 2 ^ 16}" "y \<in> {0..<n mod 2 ^ 16}"
    then have "x < 2 ^ 16" "y < 2 ^ 16"
      by (auto intro: less_trans)
    moreover assume "(of_nat x :: u16) = of_nat y"
    then have "unat (of_nat x :: u16) = unat (of_nat y :: u16)"
      by (simp only:)
    ultimately show "x = y"
      by (simp add: unat_of_nat)
  qed
  then show ?thesis
    by (simp add: peer_ids_def distinct_map)
qed

text \<open>Two quorums share more guardians than can be evil.\<close>

lemma quorums_share_honest:
  assumes "1 \<le> n" and "finite P" and "card P = n" and "finite E" and "card E \<le> max_evil n"
    and sub: "A \<subseteq> P" "B \<subseteq> P" and "threshold n \<le> card A" "threshold n \<le> card B"
  shows "(A \<inter> B) - E \<noteq> {}"
proof -
  have "finite A" "finite B"
    using sub assms(2) finite_subset by auto
  then have "card A + card B = card (A \<union> B) + card (A \<inter> B)"
    by (rule card_Un_Int)
  moreover have "card (A \<union> B) \<le> n"
    using sub assms(2,3) card_mono [of P "A \<union> B"] by simp
  ultimately have "max_evil n < card (A \<inter> B)"
    using assms(8,9) threshold_bounds [OF assms(1)] by linarith
  then show ?thesis
    using assms(4,5) card_mono [of E "A \<inter> B"] by auto
qed

text \<open>
  C18: two sets of at least a threshold of the guardians share more guardians than can be evil, so
  an honest one is in both; the honest guardians alone reach the threshold; and of
  \<open>one_honest\<close> many guardians one is honest.
\<close>

theorem quorum_intersection:
  assumes "1 \<le> n" and "finite P" and "card P = n" and "E \<subseteq> P" and "card E \<le> max_evil n"
  shows "threshold n \<le> card (P - E)
    \<and> (\<forall>A. A \<subseteq> P \<and> one_honest n \<le> card A \<longrightarrow> A - E \<noteq> {})
    \<and> (\<forall>A B. A \<subseteq> P \<and> B \<subseteq> P \<and> threshold n \<le> card A \<and> threshold n \<le> card B
        \<longrightarrow> (A \<inter> B) - E \<noteq> {})"
proof (intro conjI allI impI)
  have fin: "finite E"
    using assms(2,4) by (rule rev_finite_subset)
  show "threshold n \<le> card (P - E)"
    using assms threshold_bounds [OF assms(1)] fin by (simp add: card_Diff_subset)
  have big: "X - E \<noteq> {}" if "max_evil n < card X" for X
    using that assms(5) fin card_mono [of E X] by auto
  show "A - E \<noteq> {}" if "A \<subseteq> P \<and> one_honest n \<le> card A" for A
    using that by (intro big) (simp add: one_honest_def)
  show "(A \<inter> B) - E \<noteq> {}"
    if sub: "A \<subseteq> P \<and> B \<subseteq> P \<and> threshold n \<le> card A \<and> threshold n \<le> card B" for A B
    using quorums_share_honest [OF assms(1-3) fin assms(5)] sub by blast
qed

theorem quorum_intersection_witness:
  "threshold 4 = 3 \<and> max_evil 4 = 1 \<and> threshold 4 \<le> card ({0 ::nat, 1, 2, 3} - {2})"
  using quorum_intersection [of 4 "{0 ::nat, 1, 2, 3}" "{2}"]
  by (simp add: threshold_eq max_evil_eq)

end
