(* ===== verification/Tiered.thy ===== *)
theory Tiered
  imports Amounts "HOL-Library.Multiset"
begin

section \<open>Denominations: \<open>Tiered\<close>, \<open>TieredMulti\<close>, \<open>TieredCounts\<close>\<close>

text \<open>
  \<open>fedimint-core/src/tiered.rs\<close> and \<open>tiered_multi.rs\<close>: maps from a denomination to a
  value, to a list of items, and to a number of items. The invariant of the latter two is that no
  tier is empty. The totals are shown to be the totals of the items put in.
\<close>

subsection \<open>Tiered\<close>

datatype invalid_amount_tier_error = InvalidAmountTierError amount

type_synonym 'a tiered = "(amount, 'a) btree"

definition max_tier :: "'a tiered \<Rightarrow> ('e, amount) result" where
  "max_tier t = (case bt_keys t of [] \<Rightarrow> Panic | k # ks \<Rightarrow> Ok (fold max ks k))"

definition structural_eq :: "'a tiered \<Rightarrow> 'b tiered \<Rightarrow> bool" where
  "structural_eq t u = (bt_keys t = bt_keys u)"

definition tier :: "'a tiered \<Rightarrow> amount \<Rightarrow> (invalid_amount_tier_error, 'a) result" where
  "tier t a = ok_or (bt_get t a) (InvalidAmountTierError a)"

definition count_tiers :: "'a tiered \<Rightarrow> nat" where
  "count_tiers t = length t"

definition tiered_insert :: "'a tiered \<Rightarrow> amount \<Rightarrow> 'a \<Rightarrow> 'a option \<times> 'a tiered" where
  "tiered_insert t a v = (bt_get t a, bt_insert a v t)"

definition tiered_from_iter :: "(amount \<times> 'a) list \<Rightarrow> 'a tiered" where
  "tiered_from_iter xs = bt_of_list xs"

text \<open>
  The loop of \<open>gen_denominations\<close> multiplies without a check, so for some arguments it does
  not end: not returning is the value \<open>None\<close>.
\<close>

partial_function (option) gen_loop ::
  "u16 \<Rightarrow> amount \<Rightarrow> amount \<Rightarrow> (amount \<times> unit) list \<Rightarrow> (amount \<times> unit) list option" where
  "gen_loop denomination_base mx denomination amounts =
     (if denomination \<le> mx
      then gen_loop denomination_base mx (denomination * ucast denomination_base)
             (amounts @ [(denomination, ())])
      else Some amounts)"

definition gen_denominations :: "u16 \<Rightarrow> amount \<Rightarrow> unit tiered option" where
  "gen_denominations denomination_base mx =
     map_option tiered_from_iter (gen_loop denomination_base mx (from_msats 1) [])"

subsection \<open>TieredMulti\<close>

type_synonym 'a tiered_multi = "'a list tiered"

definition tm_new :: "(amount, 'a list) btree \<Rightarrow> 'a tiered_multi" where
  "tm_new m = tiered_from_iter (filter (\<lambda>p. snd p \<noteq> []) m)"

definition or_default :: "'v \<Rightarrow> 'v option \<Rightarrow> 'v" where
  "or_default d x = (case x of None \<Rightarrow> d | Some v \<Rightarrow> v)"

definition tm_push :: "'a tiered_multi \<Rightarrow> amount \<Rightarrow> 'a \<Rightarrow> 'a tiered_multi" where
  "tm_push t a v = bt_insert a (or_default [] (bt_get t a) @ [v]) t"

definition tm_extend :: "'a tiered_multi \<Rightarrow> (amount \<times> 'a) list \<Rightarrow> 'a tiered_multi" where
  "tm_extend t xs = foldl (\<lambda>t (a, v). bt_insert a (or_default [] (bt_get t a) @ [v]) t) t xs"

definition tm_from_iter :: "(amount \<times> 'a) list \<Rightarrow> 'a tiered_multi" where
  "tm_from_iter xs = tm_extend [] xs"

definition tm_total_amount :: "'a tiered_multi \<Rightarrow> amount" where
  "tm_total_amount t =
     from_msats (sum_list (map (\<lambda>(a, notes). a * of_nat (length notes)) t))"

definition tm_count_items :: "'a tiered_multi \<Rightarrow> nat" where
  "tm_count_items t = sum_list (map length (bt_values t))"

definition tm_iter_items :: "'a tiered_multi \<Rightarrow> (amount \<times> 'a) list" where
  "tm_iter_items t = concat (map (\<lambda>(a, notes). map (\<lambda>c. (a, c)) notes) t)"

definition tm_is_empty :: "'a tiered_multi \<Rightarrow> bool" where
  "tm_is_empty t = (tm_count_items t = 0)"

subsection \<open>TieredCounts\<close>

type_synonym tiered_counts = "nat tiered"

definition tc_from_iter :: "(amount \<times> nat) list \<Rightarrow> tiered_counts" where
  "tc_from_iter xs = tiered_from_iter (filter (\<lambda>p. snd p \<noteq> 0) xs)"

definition tc_inc :: "tiered_counts \<Rightarrow> amount \<Rightarrow> nat \<Rightarrow> tiered_counts" where
  "tc_inc t a n = (if 0 < n then bt_insert a (or_default 0 (bt_get t a) + n) t else t)"

definition tc_dec :: "tiered_counts \<Rightarrow> amount \<Rightarrow> ('e, tiered_counts) result" where
  "tc_dec t a =
     (case bt_get t a of
        None \<Rightarrow> Panic
      | Some c \<Rightarrow>
          if c = 0 then Panic
          else if c = 1 then Ok (bt_remove a t)
          else Ok (bt_insert a (c - 1) t))"

definition tc_total_amount :: "tiered_counts \<Rightarrow> amount" where
  "tc_total_amount t = amount_sum (map (\<lambda>(a, n). a * of_nat n) t)"

definition tc_count_items :: "tiered_counts \<Rightarrow> nat" where
  "tc_count_items t = sum_list (map snd t)"

definition tc_is_empty :: "tiered_counts \<Rightarrow> bool" where
  "tc_is_empty t = (tc_count_items t = 0)"

definition tc_get :: "tiered_counts \<Rightarrow> amount \<Rightarrow> nat" where
  "tc_get t a = or_default 0 (bt_get t a)"

definition tm_summary :: "'a tiered_multi \<Rightarrow> tiered_counts" where
  "tm_summary t = tiered_from_iter (map (\<lambda>(a, notes). (a, length notes)) t)"

definition new_aggregate_from_tiered_iter ::
  "'a tiered list \<Rightarrow> ('e, 'a tiered_multi) result" where
  "new_aggregate_from_tiered_iter ts =
     (let tiered_multi = foldl (foldl (\<lambda>t (a, v). tm_push t a v)) [] ts
      in if (\<forall>c\<in>set (bt_values (tm_summary tiered_multi)).
               c = hd (bt_values (tm_summary tiered_multi)))
         then Ok tiered_multi else Panic)"

subsection \<open>Totals\<close>

definition tm_wf :: "'a tiered_multi \<Rightarrow> bool" where
  "tm_wf t \<longleftrightarrow> bt_wf t \<and> (\<forall>p\<in>set t. snd p \<noteq> [])"

definition tc_wf :: "tiered_counts \<Rightarrow> bool" where
  "tc_wf t \<longleftrightarrow> bt_wf t \<and> (\<forall>p\<in>set t. snd p \<noteq> 0)"

lemma set_bt_insert_cases: "p \<in> set (bt_insert k v m) \<Longrightarrow> p = (k, v) \<or> p \<in> set m"
  using set_bt_insert_subset [of k v m] by blast

lemma tm_total_amount_eq:
  "tm_total_amount t = bt.total (\<lambda>a notes. a * of_nat (length notes)) t"
  by (simp add: tm_total_amount_def from_msats_def bt.total_def)

lemma tm_count_items_eq: "tm_count_items t = bt.total (\<lambda>a notes. length notes) t"
  by (simp add: tm_count_items_def bt_values_def bt.total_def comp_def case_prod_beta')

lemma mset_tm_iter_items:
  "mset (tm_iter_items t) = bt.total (\<lambda>a notes. mset (map (Pair a) notes)) t"
  by (induction t) (auto simp: tm_iter_items_def bt.total_def)

lemma tm_push_total:
  fixes f :: "amount \<Rightarrow> 'a list \<Rightarrow> 'n::cancel_comm_monoid_add"
  assumes "bt_wf t" and "f a [] = 0" and "\<And>ys. f a (ys @ [x]) = f a ys + g"
  shows "bt.total f (tm_push t a x) = bt.total f t + g"
proof -
  let ?old = "or_default [] (bt_get t a)"
  have "bt.total f (tm_push t a x) + f a ?old = bt.total f t + f a (?old @ [x])"
    unfolding tm_push_def or_default_def using assms(1,2) by (rule bt.total_upsert)
  also have "\<dots> = (bt.total f t + g) + f a ?old"
    by (simp only: assms(3) ac_simps)
  finally show ?thesis
    by (rule add_right_imp_eq)
qed

lemma tm_wf_push: "tm_wf t \<Longrightarrow> tm_wf (tm_push t a x)"
  by (auto simp: tm_wf_def tm_push_def dest!: set_bt_insert_cases)

lemma tm_extend_Cons: "tm_extend t ((a, x) # xs) = tm_extend (tm_push t a x) xs"
  by (simp add: tm_extend_def tm_push_def)

lemma tm_extend_spec:
  assumes "tm_wf t"
  shows "tm_wf (tm_extend t xs)
    \<and> mset (tm_iter_items (tm_extend t xs)) = mset (tm_iter_items t) + mset xs
    \<and> tm_total_amount (tm_extend t xs) = tm_total_amount t + amount_sum (map fst xs)
    \<and> tm_count_items (tm_extend t xs) = tm_count_items t + length xs"
  using assms
proof (induction xs arbitrary: t)
  case Nil
  then show ?case by (simp add: tm_extend_def amount_sum_eq)
next
  case (Cons p xs)
  obtain a x where p: "p = (a, x)" by (cases p)
  have wf: "bt_wf t"
    using Cons.prems by (simp add: tm_wf_def)
  have "mset (tm_iter_items (tm_push t a x)) = mset (tm_iter_items t) + {#(a, x)#}"
    and "tm_total_amount (tm_push t a x) = tm_total_amount t + a"
    and "tm_count_items (tm_push t a x) = tm_count_items t + 1"
    unfolding mset_tm_iter_items tm_total_amount_eq tm_count_items_eq
    by (intro tm_push_total [OF wf]; simp add: algebra_simps)+
  then show ?case
    using Cons.IH [OF tm_wf_push [OF Cons.prems]]
    by (simp add: p tm_extend_Cons amount_sum_eq algebra_simps)
qed

lemma tc_total_amount_eq: "tc_total_amount t = bt.total (\<lambda>a n. a * of_nat n) t"
  by (simp add: tc_total_amount_def amount_sum_eq bt.total_def)

lemma tc_wf_inc: "tc_wf t \<Longrightarrow> tc_wf (tc_inc t a n)"
  by (auto simp: tc_wf_def tc_inc_def dest!: set_bt_insert_cases)

lemma tc_total_inc:
  assumes "bt_wf t"
  shows "tc_total_amount (tc_inc t a n) = tc_total_amount t + a * of_nat n"
proof -
  let ?f = "\<lambda>(a :: amount) n. a * of_nat n" and ?old = "or_default 0 (bt_get t a)"
  have "bt.total ?f (bt_insert a (?old + n) t) + ?f a ?old = bt.total ?f t + ?f a (?old + n)"
    unfolding or_default_def using assms by (intro bt.total_upsert) simp_all
  then show ?thesis
    by (simp add: tc_total_amount_eq tc_inc_def algebra_simps)
qed

lemma tc_get_inc: "tc_get (tc_inc t a n) b = (if b = a then tc_get t a + n else tc_get t b)"
  by (simp add: tc_get_def tc_inc_def or_default_def map_of_bt_insert)

lemma tc_get_pos: "tc_wf t \<Longrightarrow> bt_get t a = Some c \<Longrightarrow> 0 < c"
  by (auto simp: tc_wf_def dest!: map_of_SomeD)

subsection \<open>Denominations\<close>

lemma gen_loop_powers:
  assumes "2 \<le> unat b" and "unat mx * unat b < 2 ^ 64" and "unat den = unat b ^ k"
  shows "\<exists>n. gen_loop b mx den acc = Some (acc @ map (\<lambda>i. (of_nat (unat b ^ (k + i)), ())) [0..<n])
    \<and> (\<forall>i<n. unat b ^ (k + i) \<le> unat mx) \<and> unat mx < unat b ^ (k + n)"
  using assms(3)
proof (induction "Suc (unat mx) - unat den" arbitrary: den k acc rule: less_induct)
  case less
  let ?next = "den * ucast b"
  show ?case
  proof (cases "den \<le> mx")
    case False
    then show ?thesis
      using less.prems by (intro exI [of _ 0]) (simp add: gen_loop.simps word_le_nat_alt)
  next
    case True
    have den: "unat den \<le> unat mx" "0 < unat den"
      using True less.prems assms(1) by (simp_all add: word_le_nat_alt)
    have ub: "unat (ucast b :: u64) = unat b"
      using unsigned_less [of b, where 'a = nat] by (simp add: unat_ucast_mod)
    have "unat den * unat b < 2 ^ 64"
      by (rule le_less_trans [OF mult_right_mono assms(2)]) (simp_all add: den)
    then have "unat ?next = unat den * unat b"
      by (subst unat_mult_small) (simp_all add: ub)
    then have nxt: "unat ?next = unat b ^ Suc k" "unat den < unat ?next"
      using less.prems den assms(1) by simp_all
    then have "Suc (unat mx) - unat ?next < Suc (unat mx) - unat den"
      using den by linarith
    from less.hyps [OF this nxt(1), of "acc @ [(den, ())]"] obtain n where
      n: "gen_loop b mx ?next (acc @ [(den, ())])
          = Some ((acc @ [(den, ())]) @ map (\<lambda>i. (of_nat (unat b ^ (Suc k + i)), ())) [0..<n])"
        "\<forall>i<n. unat b ^ (Suc k + i) \<le> unat mx" "unat mx < unat b ^ (Suc k + n)"
      by blast
    have "(of_nat (unat den) :: u64) = den"
      by simp
    then have "den = of_nat (unat b ^ k)"
      unfolding less.prems by (rule sym)
    then have "(acc @ [(den, ())]) @ map (\<lambda>i. (of_nat (unat b ^ (Suc k + i)), ())) [0..<n]
        = acc @ map (\<lambda>i. (of_nat (unat b ^ (k + i)), ())) [0..<Suc n]"
      by (simp add: map_upt_Suc del: upt_Suc)
    moreover have "\<forall>i<Suc n. unat b ^ (k + i) \<le> unat mx"
      using n(2) den less.prems by (auto simp: less_Suc_eq_0_disj)
    ultimately show ?thesis
      using n True by (intro exI [of _ "Suc n"]) (simp add: gen_loop.simps [of b mx den])
  qed
qed

text \<open>
  C20: collecting items into denominations and iterating over them gives the same items, and the
  value of the collection is the sum of the amounts of the items, also where the sum wraps.
\<close>

theorem tiered_multi_from_iter:
  "mset (tm_iter_items (tm_from_iter xs)) = mset xs
    \<and> tm_total_amount (tm_from_iter xs) = amount_sum (map fst xs)
    \<and> tm_count_items (tm_from_iter xs) = length xs \<and> tm_wf (tm_from_iter xs)"
  using tm_extend_spec [of "[]" xs]
  by (simp add: tm_from_iter_def tm_wf_def tm_iter_items_def tm_total_amount_def from_msats_def
      tm_count_items_def bt_values_def)

text \<open>
  \<open>TieredCounts\<close>: taking one item of a tier that was just added never panics, leaves no
  empty tier, and moves the total by exactly the denomination.
\<close>

lemma tiered_counts_inc_dec:
  assumes "tc_wf t" and "0 < n"
  shows "\<exists>r. tc_dec (tc_inc t a n) a = Ok r \<and> tc_wf r
    \<and> (\<forall>b. tc_get r b = tc_get (tc_inc t a (n - 1)) b)
    \<and> tc_total_amount r = tc_total_amount t + a * of_nat (n - 1)"
proof -
  have wf: "bt_wf t" "bt_wf (tc_inc t a n)"
    using assms(1) tc_wf_inc [OF assms(1)] by (auto simp: tc_wf_def)
  define u where "u = tc_inc t a n"
  define c where "c = tc_get t a + n"
  have u: "bt_wf u" "tc_wf u" "bt_get u a = Some c" and c: "1 \<le> c"
    using assms wf tc_wf_inc [OF assms(1), of a n]
    by (simp_all add: u_def c_def tc_inc_def tc_get_def map_of_bt_insert)
  define r where "r = (if c = 1 then bt_remove a u else bt_insert a (c - 1) u)"
  have "tc_dec u a = Ok r"
    using u c by (auto simp: tc_dec_def r_def)
  moreover have "tc_wf r"
    using u c set_bt_insert_cases [of _ a "c - 1" u]
    by (fastforce simp: r_def tc_wf_def bt_remove_def intro: bt_wf_remove [unfolded bt_remove_def])
  moreover have "tc_get r b = tc_get (tc_inc t a (n - 1)) b" for b
  proof -
    have "tc_get r b = (if b = a then c - 1 else tc_get u b)"
      using c by (simp add: r_def tc_get_def map_of_bt_insert map_of_bt_remove or_default_def)
    then show ?thesis
      using assms(2) by (simp add: u_def c_def tc_get_inc)
  qed
  moreover have "tc_total_amount r + a = tc_total_amount u"
  proof (cases "c = 1")
    case True
    then show ?thesis
      using bt.total_remove [OF u(1,3), of "\<lambda>a n. a * of_nat n"]
      by (simp add: tc_total_amount_eq r_def)
  next
    case False
    then show ?thesis
      using bt.total_update [OF u(1,3), of "\<lambda>a n. a * of_nat n" "c - 1"] c
      by (simp add: tc_total_amount_eq r_def of_nat_diff algebra_simps)
  qed
  ultimately show ?thesis
    using tc_total_inc [OF wf(1), of a n] assms(2) unfolding u_def
    by (intro exI [of _ r]) (simp add: of_nat_diff algebra_simps)
qed

text \<open>The loop of \<open>gen_denominations\<close> ends, with the powers of the base as tiers.\<close>

lemma gen_denominations_tiers:
  assumes "2 \<le> unat b" and "unat mx * unat b < 2 ^ 64"
  shows "\<exists>t. gen_denominations b mx = Some t \<and> bt_wf t
    \<and> (\<forall>a. a \<in> set (bt_keys t) \<longleftrightarrow> a \<le> mx \<and> (\<exists>k. unat a = unat b ^ k))"
proof -
  define pw where "pw = (\<lambda>i. of_nat (unat b ^ i) :: amount)"
  obtain n where loop: "gen_loop b mx (from_msats 1) [] = Some (map (\<lambda>i. (pw i, ())) [0..<n])"
    and le: "\<forall>i<n. unat b ^ i \<le> unat mx" and gt: "unat mx < unat b ^ n"
    using gen_loop_powers [OF assms, of "from_msats 1" 0 "[]"] by (auto simp: from_msats_def pw_def)
  have p: "unat (pw i) = unat b ^ i" if "i < n" for i
    using le_less_trans [OF le [rule_format, OF that] unsigned_less]
    unfolding pw_def by (intro unat_of_nat_u64) simp
  have mono: "unat b ^ i < unat b ^ j \<longleftrightarrow> i < j" for i j
    using assms(1) by (intro power_strict_increasing_iff) simp
  let ?t = "map (\<lambda>i. (pw i, ())) [0..<n]"
  have wf: "bt_wf ?t"
    unfolding bt_wf_def sorted_wrt_map
    by (rule sorted_wrt_mono_rel [OF _ sorted_wrt_upt])
      (simp add: word_less_nat_alt p mono)
  then have "gen_denominations b mx = Some ?t"
    by (simp add: gen_denominations_def loop tiered_from_iter_def bt_of_list_wf)
  moreover have "a \<in> set (bt_keys ?t) \<longleftrightarrow> a \<le> mx \<and> (\<exists>k. unat a = unat b ^ k)" for a
  proof
    assume "a \<in> set (bt_keys ?t)"
    then show "a \<le> mx \<and> (\<exists>k. unat a = unat b ^ k)"
      using le p by (auto simp: bt_keys_def word_le_nat_alt)
  next
    assume "a \<le> mx \<and> (\<exists>k. unat a = unat b ^ k)"
    then obtain k where k: "unat a = unat b ^ k" "unat b ^ k \<le> unat mx"
      by (auto simp: word_le_nat_alt)
    then have "k < n"
      using gt mono [of k n] by simp
    moreover from this have "a = pw k"
      using k(1) p [of k] by (simp only: word_unat_eq_iff)
    ultimately show "a \<in> set (bt_keys ?t)"
      by (auto simp: bt_keys_def)
  qed
  ultimately show ?thesis
    using wf by blast
qed

text \<open>
  C21: for a base of at least 2 and a maximum whose product with the base fits in \<open>u64\<close>,
  \<open>gen_denominations\<close> returns, and its tiers are exactly the powers of the base up to and
  including the maximum.
\<close>

theorem gen_denominations_powers:
  assumes "2 \<le> unat b" and "unat mx * unat b < 2 ^ 64"
  shows "\<exists>t. gen_denominations b mx = Some t \<and> bt_wf t
    \<and> (\<forall>a. a \<in> set (bt_keys t) \<longleftrightarrow> a \<le> mx \<and> (\<exists>k. unat a = unat b ^ k))"
  using assms by (rule gen_denominations_tiers)

theorem gen_denominations_powers_witness:
  "\<exists>t. gen_denominations 2 10 = Some t \<and> 8 \<in> set (bt_keys t) \<and> 6 \<notin> set (bt_keys t)"
proof -
  have "\<nexists>k. (6 :: nat) = 2 ^ k"
  proof
    assume "\<exists>k. (6 :: nat) = 2 ^ k"
    then obtain k :: nat where "(6 :: nat) = 2 ^ k" ..
    then have "2 ^ 2 < (2 :: nat) ^ k" "(2 :: nat) ^ k < 2 ^ 3"
      by simp_all
    then show False
      by (simp only: power_strict_increasing_iff)
  qed
  moreover have "\<exists>k. (8 :: nat) = 2 ^ k"
    by (rule exI [of _ 3]) simp
  ultimately show ?thesis
    using gen_denominations_powers [of 2 10] by auto
qed

end
