(* ===== verification/Fees.thy ===== *)
theory Fees
  imports Amounts
begin

section \<open>Fee schedules of the modules\<close>

text \<open>
  The \<open>FeeConsensus\<close> of the mint, mintv2, lnv2 and walletv2 modules (\<open>config.rs\<close> of the
  modules' common crates). Each is a base fee and a relative fee in parts per million with its own
  limits; the fee computation is the same code in each crate. The locale \<open>fee_schedule\<close>
  states what they share, and is interpreted on each of them.
\<close>

record fee_consensus =
  fc_base :: amount
  fc_ppm :: u64

datatype excessive_relative_fee_error = ExcessiveRelativeFeeError u64 u64

subsection \<open>Mint\<close>

definition mint_fee_new :: "u64 \<Rightarrow> (excessive_relative_fee_error, fee_consensus) result" where
  "mint_fee_new ppm =
     (if 1000 < ppm then Err (ExcessiveRelativeFeeError ppm 1000)
      else Ok \<lparr>fc_base = from_msats 100, fc_ppm = ppm\<rparr>)"

definition mint_fee_zero :: fee_consensus where
  "mint_fee_zero = \<lparr>fc_base = 0, fc_ppm = 0\<rparr>"

definition mint_fee_msats :: "fee_consensus \<Rightarrow> u64 \<Rightarrow> ('e, u64) result" where
  "mint_fee_msats f msats =
     expect (checked_add (saturating_mul msats (fc_ppm f) div 1000000) (fc_base f))"

definition mint_fee :: "fee_consensus \<Rightarrow> amount \<Rightarrow> ('e, amount) result" where
  "mint_fee f a = map_ok from_msats (mint_fee_msats f a)"

text \<open>
  \<open>u64::next_power_of_two\<close>, which wraps to 0 past the greatest power, and
  \<open>u64::next_multiple_of\<close>, which panics on 0.
\<close>

function next_power_of_two_nat :: "nat \<Rightarrow> nat" where
  "next_power_of_two_nat n = (if n \<le> 1 then 1 else 2 * next_power_of_two_nat ((n + 1) div 2))"
  by pat_completeness auto
termination
  by (relation "measure (\<lambda>n. n)") auto

declare next_power_of_two_nat.simps [simp del]

definition next_power_of_two :: "u64 \<Rightarrow> u64" where
  "next_power_of_two n = of_nat (next_power_of_two_nat (unat n))"

definition next_multiple_of :: "u64 \<Rightarrow> u64 \<Rightarrow> ('e, u64) result" where
  "next_multiple_of a m =
     (if m = 0 then Panic else if a mod m = 0 then Ok a else Ok (a + (m - a mod m)))"

definition min_economical_denomination :: "fee_consensus \<Rightarrow> amount" where
  "min_economical_denomination f = from_msats (next_power_of_two (saturating_mul (fc_base f) 4))"

definition fee_round_up :: "fee_consensus \<Rightarrow> amount \<Rightarrow> ('e, amount) result" where
  "fee_round_up f a =
     map_ok from_msats (next_multiple_of a (next_power_of_two (saturating_mul (fc_base f) 4)))"

subsection \<open>Mintv2, lnv2 and walletv2\<close>

definition mintv2_fee_new :: "u64 \<Rightarrow> (excessive_relative_fee_error, fee_consensus) result" where
  "mintv2_fee_new ppm =
     (if 1000 < ppm then Err (ExcessiveRelativeFeeError ppm 1000)
      else Ok \<lparr>fc_base = from_msats 100, fc_ppm = ppm\<rparr>)"

definition mintv2_fee_msats :: "fee_consensus \<Rightarrow> u64 \<Rightarrow> ('e, u64) result" where
  "mintv2_fee_msats f msats =
     expect (checked_add (saturating_mul msats (fc_ppm f) div 1000000) (fc_base f))"

definition mintv2_fee :: "fee_consensus \<Rightarrow> amount \<Rightarrow> ('e, amount) result" where
  "mintv2_fee f a = map_ok from_msats (mintv2_fee_msats f a)"

definition lnv2_fee_new :: "u64 \<Rightarrow> (excessive_relative_fee_error, fee_consensus) result" where
  "lnv2_fee_new ppm =
     (if 1000 < ppm then Err (ExcessiveRelativeFeeError ppm 1000)
      else Ok \<lparr>fc_base = from_sats 1, fc_ppm = ppm\<rparr>)"

definition lnv2_fee_msats :: "fee_consensus \<Rightarrow> u64 \<Rightarrow> ('e, u64) result" where
  "lnv2_fee_msats f msats =
     expect (checked_add (saturating_mul msats (fc_ppm f) div 1000000) (fc_base f))"

definition lnv2_fee :: "fee_consensus \<Rightarrow> amount \<Rightarrow> ('e, amount) result" where
  "lnv2_fee f a = map_ok from_msats (lnv2_fee_msats f a)"

definition walletv2_fee_new :: "u64 \<Rightarrow> (excessive_relative_fee_error, fee_consensus) result" where
  "walletv2_fee_new ppm =
     (if 10000 < ppm then Err (ExcessiveRelativeFeeError ppm 10000)
      else Ok \<lparr>fc_base = from_sats 100, fc_ppm = ppm\<rparr>)"

definition walletv2_fee_msats :: "fee_consensus \<Rightarrow> u64 \<Rightarrow> ('e, u64) result" where
  "walletv2_fee_msats f msats =
     expect (checked_add (saturating_mul msats (fc_ppm f) div 1000000) (fc_base f))"

definition walletv2_fee :: "fee_consensus \<Rightarrow> amount \<Rightarrow> ('e, amount) result" where
  "walletv2_fee f a = map_ok from_msats (walletv2_fee_msats f a)"

subsection \<open>What the schedules share\<close>

locale fee_schedule =
  fixes new :: "u64 \<Rightarrow> (excessive_relative_fee_error, fee_consensus) result"
    and fee :: "fee_consensus \<Rightarrow> amount \<Rightarrow> ('e, amount) result"
    and base :: amount
    and max_ppm :: u64
  assumes new_iff: "new ppm = Ok f \<longleftrightarrow> ppm \<le> max_ppm \<and> f = \<lparr>fc_base = base, fc_ppm = ppm\<rparr>"
    and fee_eq: "fee f a = expect (checked_add (saturating_mul a (fc_ppm f) div 1000000) (fc_base f))"
    and base_small: "unat base \<le> 100000"
begin

lemma fee_value:
  assumes "new ppm = Ok f"
  shows "\<exists>x. fee f a = Ok x \<and> unat x = unat base + min (unat a * unat ppm) (2 ^ 64 - 1) div 1000000"
proof -
  let ?r = "saturating_mul a ppm div 1000000"
  have r: "unat ?r = min (unat a * unat ppm) (2 ^ 64 - 1) div 1000000"
    by (simp add: unat_div_word checked_simps)
  have "unat ?r \<le> (2 ^ 64 - 1) div 1000000"
    unfolding r by (intro div_le_mono) simp
  then have "unat ?r + unat base < 2 ^ 64"
    using base_small by simp
  moreover have f: "fc_base f = base" "fc_ppm f = ppm"
    using assms by (simp_all add: new_iff)
  ultimately have "fee f a = Ok (?r + base)" "unat (?r + base) = unat ?r + unat base"
    by (simp_all add: fee_eq checked_add_def unat_plus_small)
  then show ?thesis
    using r by (intro exI [of _ "?r + base"]) simp
qed

lemma fee_no_panic: "new ppm = Ok f \<Longrightarrow> fee f a \<noteq> Panic"
  using fee_value [of ppm f a] by auto

lemma fee_upper:
  assumes "new ppm = Ok f" and "fee f a = Ok x"
  shows "unat x \<le> unat base + unat a * unat max_ppm div 1000000"
proof -
  have "unat x = unat base + min (unat a * unat ppm) (2 ^ 64 - 1) div 1000000"
    using fee_value [OF assms(1), of a] assms(2) by auto
  moreover have "unat ppm \<le> unat max_ppm"
    using assms(1) by (simp add: new_iff word_le_nat_alt)
  then have "min (unat a * unat ppm) (2 ^ 64 - 1) \<le> unat a * unat max_ppm"
    by (simp add: min.coboundedI1)
  ultimately show ?thesis
    by (simp add: div_le_mono)
qed

lemma fee_mono:
  assumes "new ppm = Ok f" and "a \<le> b" and "fee f a = Ok x" and "fee f b = Ok y"
  shows "x \<le> y"
proof -
  have "min (unat a * unat ppm) (2 ^ 64 - 1) \<le> min (unat b * unat ppm) (2 ^ 64 - 1)"
    using assms(2) by (intro min.mono mult_right_mono) (simp_all add: word_le_nat_alt)
  then show ?thesis
    using fee_value [OF assms(1), of a] fee_value [OF assms(1), of b] assms(3,4)
    by (simp add: word_le_nat_alt div_le_mono)
qed

end

lemma map_ok_id [simp]: "map_ok from_msats r = r"
  by (cases r) (simp_all add: from_msats_def)

interpretation mint: fee_schedule mint_fee_new mint_fee "100" "1000"
  by unfold_locales
    (auto simp: mint_fee_new_def mint_fee_def mint_fee_msats_def from_msats_def not_less split: if_splits)

interpretation mintv2: fee_schedule mintv2_fee_new mintv2_fee "100" "1000"
  by unfold_locales
    (auto simp: mintv2_fee_new_def mintv2_fee_def mintv2_fee_msats_def from_msats_def not_less split: if_splits)

interpretation lnv2: fee_schedule lnv2_fee_new lnv2_fee "1000" "1000"
  by unfold_locales
    (auto simp: lnv2_fee_new_def lnv2_fee_def lnv2_fee_msats_def from_sats_def from_msats_def not_less
      split: if_splits)

interpretation walletv2: fee_schedule walletv2_fee_new walletv2_fee "100000" "10000"
  by unfold_locales
    (auto simp: walletv2_fee_new_def walletv2_fee_def walletv2_fee_msats_def from_sats_def
      from_msats_def not_less split: if_splits)

text \<open>
  The fee computation never panics, and the fee is at most the base fee plus a tenth of a percent
  of the amount (one percent for the wallet).
\<close>

lemma fee_bounds:
  "(mint_fee_new p = Ok f \<longrightarrow> (\<exists>x. mint_fee f a = (Ok x :: ('e, amount) result) \<and> unat x \<le> 100 + unat a div 1000))
    \<and> (mintv2_fee_new p = Ok f \<longrightarrow> (\<exists>x. mintv2_fee f a = (Ok x :: ('e, amount) result) \<and> unat x \<le> 100 + unat a div 1000))
    \<and> (lnv2_fee_new p = Ok f \<longrightarrow> (\<exists>x. lnv2_fee f a = (Ok x :: ('e, amount) result) \<and> unat x \<le> 1000 + unat a div 1000))
    \<and> (walletv2_fee_new p = Ok f \<longrightarrow> (\<exists>x. walletv2_fee f a = (Ok x :: ('e, amount) result) \<and> unat x \<le> 100000 + unat a div 100))"
proof (intro conjI impI)
  have scale: "unat a * 1000 div 1000000 = unat a div 1000" "unat a * 10000 div 1000000 = unat a div 100"
    using div_mult_mult2 [of 1000 "unat a" 1000] div_mult_mult2 [of 10000 "unat a" 100] by simp_all
  show "\<exists>x. mint_fee f a = (Ok x :: ('e, amount) result) \<and> unat x \<le> 100 + unat a div 1000"
    if "mint_fee_new p = Ok f"
    using mint.fee_value [OF that, of a] mint.fee_upper [OF that, of a] scale by auto
  show "\<exists>x. mintv2_fee f a = (Ok x :: ('e, amount) result) \<and> unat x \<le> 100 + unat a div 1000"
    if "mintv2_fee_new p = Ok f"
    using mintv2.fee_value [OF that, of a] mintv2.fee_upper [OF that, of a] scale by auto
  show "\<exists>x. lnv2_fee f a = (Ok x :: ('e, amount) result) \<and> unat x \<le> 1000 + unat a div 1000"
    if "lnv2_fee_new p = Ok f"
    using lnv2.fee_value [OF that, of a] lnv2.fee_upper [OF that, of a] scale by auto
  show "\<exists>x. walletv2_fee f a = (Ok x :: ('e, amount) result) \<and> unat x \<le> 100000 + unat a div 100"
    if "walletv2_fee_new p = Ok f"
    using walletv2.fee_value [OF that, of a] walletv2.fee_upper [OF that, of a] scale by auto
qed

lemma next_power_of_two_400: "next_power_of_two 400 = 512"
  by (simp add: next_power_of_two_def next_power_of_two_nat.simps)

text \<open>
  C19: with the mint's fee schedule an amount is rounded up to the least multiple of 512 msat (the
  smallest economical denomination, four times the base fee rounded up to a power of two) that is
  not below it, as long as that fits in \<open>u64\<close>.
\<close>

theorem fee_round_up_least:
  assumes "mint_fee_new p = Ok f" and "unat a + 512 \<le> 2 ^ 64"
  shows "min_economical_denomination f = 512
    \<and> (\<exists>x. fee_round_up f a = (Ok x :: ('e, amount) result) \<and> 512 dvd unat x \<and> unat a \<le> unat x \<and> unat x < unat a + 512)"
proof -
  have f: "saturating_mul (fc_base f) 4 = 400"
    using assms(1) by (auto simp: mint_fee_new_def from_msats_def saturating_mul_def split: if_splits)
  let ?x = "if a mod 512 = 0 then a else a + (512 - a mod 512)"
  have x: "fee_round_up f a = (Ok ?x :: ('e, amount) result)"
    by (simp add: fee_round_up_def f next_power_of_two_400 next_multiple_of_def)
  have r: "unat (a mod 512) = unat a mod 512"
    by (simp add: unat_mod_word)
  then have d: "unat (512 - a mod 512) = 512 - unat a mod 512"
    by (subst unat_sub) (simp_all add: word_le_nat_alt less_imp_le)
  then have s: "unat (a + (512 - a mod 512)) = unat a + (512 - unat a mod 512)" if "unat a mod 512 \<noteq> 0"
    using assms(2) that by (subst unat_plus_small) (simp_all add: d)
  have zero: "a mod 512 = 0 \<longleftrightarrow> unat a mod 512 = 0"
    using r by (simp add: word_unat_eq_iff)
  have ux: "unat ?x = (if unat a mod 512 = 0 then unat a else unat a + (512 - unat a mod 512))"
    using s by (simp add: zero)
  have "512 dvd n + (512 - n mod 512)" for n :: nat
  proof -
    obtain q r where "r = n mod 512" "n = 512 * q + r" "r < 512"
      using mult_div_mod_eq [of 512 n, symmetric] by fastforce
    then have "n + (512 - n mod 512) = 512 * (q + 1)"
      by simp
    then show ?thesis by (simp only: dvd_triv_left)
  qed
  then have "512 dvd unat ?x" "unat a \<le> unat ?x" "unat ?x < unat a + 512"
    unfolding ux by (auto simp: dvd_eq_mod_eq_0)
  then show ?thesis
    using x by (auto simp: min_economical_denomination_def f next_power_of_two_400 from_msats_def)
qed

theorem fee_round_up_least_witness:
  "\<exists>x. fee_round_up \<lparr>fc_base = 100, fc_ppm = 0\<rparr> 1000 = (Ok x :: (unit, amount) result) \<and> unat x < 1512"
  using fee_round_up_least [of 0 "\<lparr>fc_base = 100, fc_ppm = 0\<rparr>" 1000]
  by (auto simp: mint_fee_new_def from_msats_def)

end
