(* ===== verification/Database.thy ===== *)
theory Database
  imports Encoding
begin

section \<open>The key-value database\<close>

text \<open>
  \<open>fedimint-core/src/db/mod.rs\<close> and \<open>mem_impl.rs\<close>. The typed operations the modules use
  work on one table each, an ordered map; \<open>insert_new_entry\<close> panics on a key that is present.
  Below them, \<open>MemDatabase\<close> is an ordered map of bytes: a transaction works on a snapshot and
  logs its operations with the values they replaced, and a commit replays the log and fails when a
  value differs from what the transaction saw.
\<close>

subsection \<open>Typed tables\<close>

definition insert_entry :: "'k::linorder \<Rightarrow> 'v \<Rightarrow> ('k, 'v) btree \<Rightarrow> 'v option \<times> ('k, 'v) btree" where
  "insert_entry k v m = (bt_get m k, bt_insert k v m)"

definition insert_new_entry :: "'k::linorder \<Rightarrow> 'v \<Rightarrow> ('k, 'v) btree \<Rightarrow> ('e, ('k, 'v) btree) result" where
  "insert_new_entry k v m =
     (case insert_entry k v m of (prev, m') \<Rightarrow> if prev \<noteq> None then Panic else Ok m')"

definition remove_entry :: "'k \<Rightarrow> ('k, 'v) btree \<Rightarrow> 'v option \<times> ('k, 'v) btree" where
  "remove_entry k m = (bt_get m k, bt_remove k m)"

definition find_by_range :: "'k::linorder \<Rightarrow> 'k \<Rightarrow> ('k, 'v) btree \<Rightarrow> ('k \<times> 'v) list" where
  "find_by_range a b m = filter (\<lambda>(k, v). a \<le> k \<and> k < b) m"

definition find_by_prefix_sorted_descending :: "('k, 'v) btree \<Rightarrow> ('k \<times> 'v) list" where
  "find_by_prefix_sorted_descending m = rev m"

lemma insert_new_entry_eq [simp]:
  "insert_new_entry k v m = Ok m' \<longleftrightarrow> bt_get m k = None \<and> m' = bt_insert k v m"
  "insert_new_entry k v m = Panic \<longleftrightarrow> bt_get m k \<noteq> None"
  "insert_new_entry k v m \<noteq> Err e"
  by (auto simp: insert_new_entry_def insert_entry_def)

subsection \<open>The in-memory database\<close>

type_synonym mem_data = "(bytes, bytes) btree"

datatype database_operation =
    InsertOp bytes bytes "bytes option"
  | DeleteOp bytes "bytes option"

datatype database_error =
    WriteConflict
  | SnapshotTooOld string
  | TransactionConsumed
  | DatabaseBackend string
  | NotGlobal
  | NotIsolated

record mem_transaction =
  mt_operations :: "database_operation list"
  mt_tx_data :: mem_data

definition begin_transaction :: "mem_data \<Rightarrow> mem_transaction" where
  "begin_transaction data = \<lparr>mt_operations = [], mt_tx_data = data\<rparr>"

definition raw_insert_bytes :: "bytes \<Rightarrow> bytes \<Rightarrow> mem_transaction \<Rightarrow> bytes option \<times> mem_transaction" where
  "raw_insert_bytes key v tx =
     (let old_value = bt_get (mt_tx_data tx) key
      in (old_value,
          tx\<lparr>mt_tx_data := bt_insert key v (mt_tx_data tx),
             mt_operations := mt_operations tx @ [InsertOp key v old_value]\<rparr>))"

definition raw_get_bytes :: "bytes \<Rightarrow> mem_transaction \<Rightarrow> bytes option" where
  "raw_get_bytes key tx = bt_get (mt_tx_data tx) key"

definition raw_remove_entry :: "bytes \<Rightarrow> mem_transaction \<Rightarrow> bytes option \<times> mem_transaction" where
  "raw_remove_entry key tx =
     (let old_value = bt_get (mt_tx_data tx) key
      in (old_value,
          tx\<lparr>mt_tx_data := bt_remove key (mt_tx_data tx),
             mt_operations := mt_operations tx @ [DeleteOp key old_value]\<rparr>))"

definition starts_with :: "bytes \<Rightarrow> bytes \<Rightarrow> bool" where
  "starts_with key p = (take (length p) key = p)"

definition raw_find_by_prefix :: "bytes \<Rightarrow> mem_transaction \<Rightarrow> (bytes \<times> bytes) list" where
  "raw_find_by_prefix key_prefix tx =
     takeWhile (\<lambda>(key, _). starts_with key key_prefix)
       (filter (\<lambda>(key, _). key_prefix \<le> key) (mt_tx_data tx))"

definition raw_find_by_prefix_sorted_descending ::
  "bytes \<Rightarrow> mem_transaction \<Rightarrow> (bytes \<times> bytes) list" where
  "raw_find_by_prefix_sorted_descending key_prefix tx = rev (sort (raw_find_by_prefix key_prefix tx))"

definition raw_find_by_range :: "bytes \<Rightarrow> bytes \<Rightarrow> mem_transaction \<Rightarrow> (bytes \<times> bytes) list" where
  "raw_find_by_range a b tx = filter (\<lambda>(key, _). a \<le> key \<and> key < b) (mt_tx_data tx)"

definition raw_remove_by_prefix :: "bytes \<Rightarrow> mem_transaction \<Rightarrow> mem_transaction" where
  "raw_remove_by_prefix key_prefix tx =
     fold (\<lambda>key tx. snd (raw_remove_entry key tx)) (map fst (raw_find_by_prefix key_prefix tx)) tx"

fun replay :: "database_operation list \<Rightarrow> mem_data \<Rightarrow> (database_error, mem_data) result" where
  "replay [] data_copy = Ok data_copy"
| "replay (InsertOp key v old_value # ops) data_copy =
     (if bt_get data_copy key \<noteq> old_value then Err WriteConflict
      else replay ops (bt_insert key v data_copy))"
| "replay (DeleteOp key old_value # ops) data_copy =
     (if bt_get data_copy key \<noteq> old_value then Err WriteConflict
      else replay ops (bt_remove key data_copy))"

definition commit_tx :: "mem_transaction \<Rightarrow> mem_data \<Rightarrow> (database_error, mem_data) result" where
  "commit_tx tx data = replay (mt_operations tx) data"

subsection \<open>Commits detect conflicting writes\<close>

fun op_key :: "database_operation \<Rightarrow> bytes" where
  "op_key (InsertOp key v old) = key"
| "op_key (DeleteOp key old) = key"

definition written :: "mem_transaction \<Rightarrow> bytes set" where
  "written tx = op_key ` set (mt_operations tx)"

text \<open>
  A transaction that has run on a snapshot: replaying its log on the snapshot gives its data, and
  what it did not write is as in the snapshot.
\<close>

inductive runs :: "mem_data \<Rightarrow> mem_transaction \<Rightarrow> bool" for snapshot where
  runs_begin: "runs snapshot (begin_transaction snapshot)"
| runs_insert: "runs snapshot tx \<Longrightarrow> runs snapshot (snd (raw_insert_bytes key v tx))"
| runs_remove: "runs snapshot tx \<Longrightarrow> runs snapshot (snd (raw_remove_entry key tx))"

lemma replay_append: "replay (ops @ ops') d = rbind (replay ops d) (replay ops')"
  by (induction ops d rule: replay.induct) auto

lemma replay_wf: "bt_wf d \<Longrightarrow> replay ops d = Ok d' \<Longrightarrow> bt_wf d'"
  by (induction ops d rule: replay.induct) (auto split: if_splits)

lemma replay_no_panic: "replay ops d \<noteq> Panic"
  by (induction ops d rule: replay.induct) auto

lemma runs_wf: "runs snapshot tx \<Longrightarrow> bt_wf snapshot \<Longrightarrow> bt_wf (mt_tx_data tx)"
  by (induction rule: runs.induct)
    (auto simp: begin_transaction_def raw_insert_bytes_def raw_remove_entry_def Let_def)

lemma written_simps:
  "written (begin_transaction d) = {}"
  "written (snd (raw_insert_bytes k v tx)) = insert k (written tx)"
  "written (snd (raw_remove_entry k tx)) = insert k (written tx)"
  by (auto simp: written_def begin_transaction_def raw_insert_bytes_def raw_remove_entry_def Let_def)

lemma get_tx_data:
  "bt_get (mt_tx_data (begin_transaction d)) key = bt_get d key"
  "bt_get (mt_tx_data (snd (raw_insert_bytes k v tx))) key
    = (if key = k then Some v else bt_get (mt_tx_data tx) key)"
  "bt_get (mt_tx_data (snd (raw_remove_entry k tx))) key
    = (if key = k then None else bt_get (mt_tx_data tx) key)"
  by (simp_all add: begin_transaction_def raw_insert_bytes_def raw_remove_entry_def Let_def
      map_of_bt_insert map_of_bt_remove)

lemma commit_simps:
  "commit_tx (begin_transaction d) data = Ok data"
  "commit_tx (snd (raw_insert_bytes k v tx)) data = rbind (commit_tx tx data) (\<lambda>d.
     if bt_get d k \<noteq> bt_get (mt_tx_data tx) k then Err WriteConflict else Ok (bt_insert k v d))"
  "commit_tx (snd (raw_remove_entry k tx)) data = rbind (commit_tx tx data) (\<lambda>d.
     if bt_get d k \<noteq> bt_get (mt_tx_data tx) k then Err WriteConflict else Ok (bt_remove k d))"
  by (cases "replay (mt_operations tx) data";
      simp add: commit_tx_def begin_transaction_def raw_insert_bytes_def raw_remove_entry_def
        Let_def replay_append)+

lemma commit_unwritten:
  "runs snapshot tx \<Longrightarrow> key \<notin> written tx \<Longrightarrow> bt_get (mt_tx_data tx) key = bt_get snapshot key"
  by (induction rule: runs.induct) (auto simp: written_simps get_tx_data)

lemma commit_result:
  assumes "runs snapshot tx" and "commit_tx tx data = Ok data'"
  shows "bt_get data' key = (if key \<in> written tx then bt_get (mt_tx_data tx) key else bt_get data key)"
  using assms
proof (induction arbitrary: data' rule: runs.induct)
  case runs_begin
  then show ?case by (simp add: commit_simps written_simps)
next
  case (runs_insert tx k v)
  then show ?case
    by (auto simp: commit_simps written_simps get_tx_data map_of_bt_insert split: if_splits)
next
  case (runs_remove tx k)
  then show ?case
    by (auto simp: commit_simps written_simps get_tx_data map_of_bt_remove split: if_splits)
qed

lemma commit_iff:
  assumes "runs snapshot tx"
  shows "(\<exists>data'. commit_tx tx data = Ok data') \<longleftrightarrow>
    (\<forall>key\<in>written tx. bt_get data key = bt_get snapshot key)"
proof -
  have step: "(\<exists>d'. rbind (commit_tx tx data) (\<lambda>d. if bt_get d k \<noteq> bt_get (mt_tx_data tx) k
        then Err WriteConflict else Ok (f d)) = Ok d') \<longleftrightarrow>
      (\<forall>key\<in>insert k (written tx). bt_get data key = bt_get snapshot key)"
    if "runs snapshot tx" and IH: "(\<exists>data'. commit_tx tx data = Ok data') \<longleftrightarrow>
      (\<forall>key\<in>written tx. bt_get data key = bt_get snapshot key)" for tx k f
  proof (cases "commit_tx tx data")
    case (Ok d)
    then have "bt_get d k = bt_get (mt_tx_data tx) k \<longleftrightarrow> bt_get data k = bt_get snapshot k"
      using commit_result [OF that(1) Ok, of k] commit_unwritten [OF that(1), of k] IH by auto
    then show ?thesis
      using Ok IH by auto
  qed (use IH in auto)
  from assms show ?thesis
  proof (induction rule: runs.induct)
    case runs_begin
    show ?case by (simp add: commit_simps written_simps)
  next
    case (runs_insert tx k v)
    show ?case
      unfolding commit_simps written_simps by (rule step [OF runs_insert])
  next
    case (runs_remove tx k)
    show ?case
      unfolding commit_simps written_simps by (rule step [OF runs_remove])
  qed
qed

lemma runs_remove_by_prefix: "runs snapshot tx \<Longrightarrow> runs snapshot (raw_remove_by_prefix p tx)"
proof -
  have "runs snapshot (fold (\<lambda>key tx. snd (raw_remove_entry key tx)) ks tx)" if "runs snapshot tx" for ks tx
    using that by (induction ks arbitrary: tx) (auto intro: runs_remove)
  then show "runs snapshot tx \<Longrightarrow> runs snapshot (raw_remove_by_prefix p tx)"
    by (simp add: raw_remove_by_prefix_def)
qed

text \<open>
  C15: a commit succeeds exactly when no key the transaction wrote has been changed since its
  snapshot; then the written keys take the transaction's values and all others keep the ones they
  have by now. Otherwise it reports a write conflict.
\<close>

theorem commit_detects_conflicts:
  assumes "runs snapshot tx"
  shows "case commit_tx tx data of
      Ok data' \<Rightarrow> (\<forall>key\<in>written tx. bt_get data key = bt_get snapshot key)
        \<and> (\<forall>key. bt_get data' key
              = (if key \<in> written tx then bt_get (mt_tx_data tx) key else bt_get data key))
    | Err e \<Rightarrow> \<exists>key\<in>written tx. bt_get data key \<noteq> bt_get snapshot key
    | Panic \<Rightarrow> False"
proof (cases "commit_tx tx data")
  case (Ok data')
  then show ?thesis
    using commit_iff [OF assms, of data] commit_result [OF assms Ok] by auto
next
  case (Err e)
  then show ?thesis
    using commit_iff [OF assms, of data] by auto
next
  case Panic
  then show ?thesis
    by (simp add: commit_tx_def replay_no_panic)
qed

theorem commit_detects_conflicts_witness:
  "\<exists>key\<in>written (snd (raw_insert_bytes [1] [9] (begin_transaction [([1], [5])]))).
     bt_get [([1], [6 :: u8])] key \<noteq> bt_get [([1], [5])] key"
proof -
  let ?tx = "snd (raw_insert_bytes [1] [9] (begin_transaction [([1], [5])]))"
  have "runs [([1], [5])] ?tx"
    by (intro runs_insert runs_begin)
  moreover have "commit_tx ?tx [([1], [6])] = Err WriteConflict"
    by (simp add: commit_simps get_tx_data)
  ultimately show ?thesis
    using commit_detects_conflicts [of "[([1], [5])]" ?tx "[([1], [6])]"] by simp
qed

subsection \<open>Prefix scans\<close>

lemma starts_with_iff: "starts_with key p \<longleftrightarrow> (\<exists>t. key = p @ t)"
  unfolding starts_with_def by (metis append_eq_conv_conj append_take_drop_id)

lemma starts_with_less:
  assumes "p \<le> k" and "\<not> starts_with k p" and "starts_with k' p"
  shows "k' < k"
proof -
  have "(p, k) \<in> lexord {(u, v). u < v}"
    using assms(1,2) by (auto simp: list_le_def list_less_def starts_with_iff)
  moreover have "k \<noteq> p @ a # w" for a w
    using assms(2) by (auto simp: starts_with_iff)
  ultimately obtain u a b v w where "a < b" "p = u @ a # v" "k = u @ b # w"
    unfolding lexord_def by blast
  moreover obtain t where "k' = p @ t"
    using assms(3) by (auto simp: starts_with_iff)
  ultimately show ?thesis
    by simp
qed

lemma takeWhile_eq_filter:
  "sorted_wrt R xs \<Longrightarrow> (\<And>x y. x \<in> set xs \<Longrightarrow> R x y \<Longrightarrow> P y \<Longrightarrow> P x) \<Longrightarrow> takeWhile P xs = filter P xs"
proof (induction xs)
  case (Cons x xs)
  show ?case
  proof (cases "P x")
    case False
    then have "\<forall>y\<in>set xs. \<not> P y"
      using Cons.prems by auto
    then show ?thesis
      using False by simp
  qed (use Cons in auto)
qed simp

text \<open>
  C16: scanning from the prefix on while keys start with it finds exactly the entries whose key
  starts with the prefix, in key order: no such key lies beyond one that does not start with it.
\<close>

theorem prefix_scan_complete:
  assumes "bt_wf (mt_tx_data tx)"
  shows "raw_find_by_prefix p tx = filter (\<lambda>(key, _). starts_with key p) (mt_tx_data tx)"
proof -
  let ?d = "filter (\<lambda>(key, _). p \<le> key) (mt_tx_data tx)"
  have le: "p \<le> key" if sw: "starts_with key p" for key
  proof -
    obtain t where t: "key = p @ t"
      using sw by (auto simp: starts_with_iff)
    show ?thesis
      by (cases t) (simp_all add: t list_le_def list_less_def lexord_append_rightI)
  qed
  have "sorted_wrt (\<lambda>x y. fst x < fst y) ?d"
    using assms by (simp add: bt_wf_def sorted_wrt_map sorted_wrt_filter)
  then have "takeWhile (\<lambda>(key, _). starts_with key p) ?d = filter (\<lambda>(key, _). starts_with key p) ?d"
  proof (rule takeWhile_eq_filter)
    fix x y :: "bytes \<times> bytes"
    assume x: "x \<in> set ?d" "fst x < fst y" "case y of (key, _) \<Rightarrow> starts_with key p"
    have "starts_with (fst x) p"
    proof (rule ccontr)
      assume "\<not> starts_with (fst x) p"
      then have "fst y < fst x"
        using x by (intro starts_with_less [of p]) (simp_all add: case_prod_beta')
      then show False
        using x(2) by (metis less_asym)
    qed
    then show "case x of (key, _) \<Rightarrow> starts_with key p"
      by (simp add: case_prod_beta')
  qed
  also have "\<dots> = filter (\<lambda>(key, _). starts_with key p) (mt_tx_data tx)"
    unfolding filter_filter using le by (intro filter_cong) auto
  finally show ?thesis
    by (simp add: raw_find_by_prefix_def)
qed

theorem prefix_scan_complete_witness:
  "raw_find_by_prefix [1] (begin_transaction [([0, 1], [5]), ([1], [6]), ([1, 2], [7]), ([2], [8])])
    = [([1], [6]), ([1, 2], [7])]"
proof -
  have "bt_wf (mt_tx_data (begin_transaction [([0, 1], [5]), ([1], [6]), ([1, 2], [7]), ([2], [8])]))"
    by (simp add: begin_transaction_def bt_wf_def)
  from prefix_scan_complete [OF this, of "[1]"] show ?thesis
    by (simp add: begin_transaction_def starts_with_def)
qed

end
