(* ===== verification/ServerModule.thy ===== *)
theory ServerModule
  imports Amounts DynTypes Peers
begin

section \<open>The interface between consensus and modules\<close>

text \<open>
  The traits \<open>ServerModule\<close> and \<open>IServerModule\<close> of \<open>fedimint-server-core/src/lib.rs\<close>.
  A module is a record of its operations on its own part of the database; what an operation does to
  the database is the state it returns. The type-erased form that consensus calls downcasts its
  arguments and panics on a type that is not the module's own.

  The locale \<open>funds_module\<close> is the contract consensus relies on: an input moves the balance
  of the module up by the amount it reports, an output moves it down, and neither panics.
\<close>

type_synonym txid = bytes
type_synonym public_key = bytes
type_synonym signature = bytes

type_synonym in_point = "txid \<times> u64"
type_synonym out_point = "txid \<times> u64"

record input_meta =
  im_amount :: transaction_item_amounts
  im_pub_key :: public_key

record audit_item =
  ai_milli_sat :: "64 word"
  ai_module_instance_id :: "module_instance_id option"

record ('s, 'i, 'o, 'c, 'ie, 'oe) server_module =
  sm_process_consensus_item :: "'s \<Rightarrow> 'c \<Rightarrow> peer_id \<Rightarrow> (string, 's) result"
  sm_verify_input :: "'i \<Rightarrow> ('ie, unit) result"
  sm_process_input :: "'s \<Rightarrow> 'i \<Rightarrow> in_point \<Rightarrow> ('ie, 's \<times> input_meta) result"
  sm_process_output :: "'s \<Rightarrow> 'o \<Rightarrow> out_point \<Rightarrow> ('oe, 's \<times> transaction_item_amounts) result"
  sm_verify_input_submission :: "'s \<Rightarrow> 'i \<Rightarrow> ('ie, unit) result"
  sm_verify_output_submission :: "'s \<Rightarrow> 'o \<Rightarrow> out_point \<Rightarrow> ('oe, unit) result"
  sm_audit :: "'s \<Rightarrow> audit_item list \<Rightarrow> module_instance_id \<Rightarrow> 's \<times> audit_item list"

subsection \<open>Type erasure\<close>

text \<open>
  \<open>downcast_ref\<close> with \<open>expect\<close>: a projection from the erased type. The typed state is
  the module's own prefix of the database; \<open>inject\<close> and \<open>project\<close> embed it.
\<close>

definition dyn_process_consensus_item ::
  "('s \<Rightarrow> 'es) \<Rightarrow> ('es \<Rightarrow> 's option) \<Rightarrow> ('ec \<Rightarrow> 'c option) \<Rightarrow> ('s, 'i, 'o, 'c, 'ie, 'oe) server_module
    \<Rightarrow> 'es \<Rightarrow> 'ec \<Rightarrow> peer_id \<Rightarrow> (string, 'es) result" where
  "dyn_process_consensus_item inject project downcast m db item peer =
     rbind (expect (project db)) (\<lambda>s.
       rbind (expect (downcast item)) (\<lambda>ci.
         map_ok inject (sm_process_consensus_item m s ci peer)))"

definition dyn_verify_input ::
  "('ei \<Rightarrow> 'i option) \<Rightarrow> ('ie \<Rightarrow> 'eie) \<Rightarrow> ('s, 'i, 'o, 'c, 'ie, 'oe) server_module
    \<Rightarrow> 'ei \<Rightarrow> ('eie, unit) result" where
  "dyn_verify_input downcast from_typed m input =
     rbind (expect (downcast input)) (\<lambda>i. map_err from_typed (sm_verify_input m i))"

definition dyn_process_input ::
  "('s \<Rightarrow> 'es) \<Rightarrow> ('es \<Rightarrow> 's option) \<Rightarrow> ('ei \<Rightarrow> 'i option) \<Rightarrow> ('ie \<Rightarrow> 'eie)
    \<Rightarrow> ('s, 'i, 'o, 'c, 'ie, 'oe) server_module
    \<Rightarrow> 'es \<Rightarrow> 'ei \<Rightarrow> in_point \<Rightarrow> ('eie, 'es \<times> input_meta) result" where
  "dyn_process_input inject project downcast from_typed m db input in_point =
     rbind (expect (project db)) (\<lambda>s.
       rbind (expect (downcast input)) (\<lambda>i.
         map_ok (\<lambda>(s', meta). (inject s', meta))
           (map_err from_typed (sm_process_input m s i in_point))))"

definition dyn_process_output ::
  "('s \<Rightarrow> 'es) \<Rightarrow> ('es \<Rightarrow> 's option) \<Rightarrow> ('eo \<Rightarrow> 'o option) \<Rightarrow> ('oe \<Rightarrow> 'eoe)
    \<Rightarrow> ('s, 'i, 'o, 'c, 'ie, 'oe) server_module
    \<Rightarrow> 'es \<Rightarrow> 'eo \<Rightarrow> out_point \<Rightarrow> ('eoe, 'es \<times> transaction_item_amounts) result" where
  "dyn_process_output inject project downcast from_typed m db output out_point =
     rbind (expect (project db)) (\<lambda>s.
       rbind (expect (downcast output)) (\<lambda>ot.
         map_ok (\<lambda>(s', amounts). (inject s', amounts))
           (map_err from_typed (sm_process_output m s ot out_point))))"

definition dyn_verify_input_submission ::
  "('es \<Rightarrow> 's option) \<Rightarrow> ('ei \<Rightarrow> 'i option) \<Rightarrow> ('ie \<Rightarrow> 'eie)
    \<Rightarrow> ('s, 'i, 'o, 'c, 'ie, 'oe) server_module \<Rightarrow> 'es \<Rightarrow> 'ei \<Rightarrow> ('eie, unit) result" where
  "dyn_verify_input_submission project downcast from_typed m db input =
     rbind (expect (project db)) (\<lambda>s.
       rbind (expect (downcast input)) (\<lambda>i.
         map_err from_typed (sm_verify_input_submission m s i)))"

definition dyn_verify_output_submission ::
  "('es \<Rightarrow> 's option) \<Rightarrow> ('eo \<Rightarrow> 'o option) \<Rightarrow> ('oe \<Rightarrow> 'eoe)
    \<Rightarrow> ('s, 'i, 'o, 'c, 'ie, 'oe) server_module \<Rightarrow> 'es \<Rightarrow> 'eo \<Rightarrow> out_point \<Rightarrow> ('eoe, unit) result" where
  "dyn_verify_output_submission project downcast from_typed m db output out_point =
     rbind (expect (project db)) (\<lambda>s.
       rbind (expect (downcast output)) (\<lambda>ot.
         map_err from_typed (sm_verify_output_submission m s ot out_point)))"

text \<open>
  An audit returns no error; in a state of another type, which the invariants of the registry exclude,
  there is nothing to read and it adds nothing.
\<close>

definition dyn_audit ::
  "('s \<Rightarrow> 'es) \<Rightarrow> ('es \<Rightarrow> 's option) \<Rightarrow> ('s, 'i, 'o, 'c, 'ie, 'oe) server_module
    \<Rightarrow> 'es \<Rightarrow> audit_item list \<Rightarrow> module_instance_id \<Rightarrow> 'es \<times> audit_item list" where
  "dyn_audit inject project m db audit mid =
     (case project db of
        Some s \<Rightarrow> (case sm_audit m s audit mid of (s', audit') \<Rightarrow> (inject s', audit'))
      | None \<Rightarrow> (db, audit))"

definition erase_module ::
  "('s \<Rightarrow> 'es) \<Rightarrow> ('es \<Rightarrow> 's option) \<Rightarrow> ('ei \<Rightarrow> 'i option) \<Rightarrow> ('eo \<Rightarrow> 'o option) \<Rightarrow> ('ec \<Rightarrow> 'c option)
    \<Rightarrow> ('ie \<Rightarrow> 'eie) \<Rightarrow> ('oe \<Rightarrow> 'eoe) \<Rightarrow> ('s, 'i, 'o, 'c, 'ie, 'oe) server_module
    \<Rightarrow> ('es, 'ei, 'eo, 'ec, 'eie, 'eoe) server_module" where
  "erase_module inject project di dt dc fi fo m =
     \<lparr>sm_process_consensus_item = dyn_process_consensus_item inject project dc m,
      sm_verify_input = dyn_verify_input di fi m,
      sm_process_input = dyn_process_input inject project di fi m,
      sm_process_output = dyn_process_output inject project dt fo m,
      sm_verify_input_submission = dyn_verify_input_submission project di fi m,
      sm_verify_output_submission = dyn_verify_output_submission project dt fo m,
      sm_audit = dyn_audit inject project m\<rparr>"

subsection \<open>The contract of a module that holds funds\<close>

abbreviation bitcoin_of :: "amounts \<Rightarrow> int" where
  "bitcoin_of a \<equiv> int (units_of a BITCOIN)"

definition item_wf :: "transaction_item_amounts \<Rightarrow> bool" where
  "item_wf a \<longleftrightarrow> amounts_wf (ti_amounts a) \<and> amounts_wf (ti_fees a)"

lemma bitcoin_of_new_bitcoin [simp]: "bitcoin_of (new_bitcoin a) = int (unat a)"
  by (simp add: units_of_new_bitcoin)

lemma item_wf_bitcoin [simp]: "item_wf \<lparr>ti_amounts = new_bitcoin a, ti_fees = new_bitcoin b\<rparr>"
  by (simp add: item_wf_def)

text \<open>
  \<open>balance\<close> is what the module holds less what it owes, in millisatoshis, \<open>outs\<close> the
  outputs it has processed and \<open>good\<close> its invariant. The balance covers what an accepted item
  moves: an accepted input adds at least its amount, an accepted output takes at most its amount.
\<close>

locale funds_laws =
  fixes pin :: "'s \<Rightarrow> 'i \<Rightarrow> in_point \<Rightarrow> ('ie, 's \<times> input_meta) result"
    and pout :: "'s \<Rightarrow> 'o \<Rightarrow> out_point \<Rightarrow> ('oe, 's \<times> transaction_item_amounts) result"
    and balance :: "'s \<Rightarrow> int"
    and outs :: "'s \<Rightarrow> out_point set"
    and good :: "'s \<Rightarrow> bool"
  assumes pin_Ok: "good s \<Longrightarrow> pin s i p = Ok (s', m) \<Longrightarrow>
      good s' \<and> item_wf (im_amount m) \<and> outs s' \<subseteq> outs s \<and>
      balance s + bitcoin_of (ti_amounts (im_amount m)) \<le> balance s'"
    and pout_Ok: "good s \<Longrightarrow> pout s ot q = Ok (s', a) \<Longrightarrow>
      good s' \<and> item_wf a \<and> outs s' \<subseteq> insert q (outs s) \<and>
      balance s - bitcoin_of (ti_amounts a) \<le> balance s'"

text \<open>
  A module that moreover never panics: \<open>used\<close> bounds its counters; \<open>tin\<close> and \<open>tout\<close>
  say that an input or output has the module's type.
\<close>

locale funds_module = funds_laws pin pout balance outs good
  for pin :: "'s \<Rightarrow> 'i \<Rightarrow> in_point \<Rightarrow> ('ie, 's \<times> input_meta) result"
    and pout :: "'s \<Rightarrow> 'o \<Rightarrow> out_point \<Rightarrow> ('oe, 's \<times> transaction_item_amounts) result"
    and balance :: "'s \<Rightarrow> int"
    and outs :: "'s \<Rightarrow> out_point set"
    and good :: "'s \<Rightarrow> bool" +
  fixes used :: "'s \<Rightarrow> nat"
    and tin :: "'i \<Rightarrow> bool"
    and tout :: "'o \<Rightarrow> bool"
  assumes pin_used: "good s \<Longrightarrow> pin s i p = Ok (s', m) \<Longrightarrow> used s' \<le> Suc (used s)"
    and pout_used: "good s \<Longrightarrow> pout s ot q = Ok (s', a) \<Longrightarrow> used s' \<le> Suc (used s)"
    and pin_safe: "good s \<Longrightarrow> used s < 2 ^ 64 - 1 \<Longrightarrow> tin i \<Longrightarrow> pin s i p \<noteq> Panic"
    and pout_safe: "good s \<Longrightarrow> used s < 2 ^ 64 - 1 \<Longrightarrow> tout ot \<Longrightarrow> q \<notin> outs s \<Longrightarrow>
      pout s ot q \<noteq> Panic"

text \<open>Erasing the types keeps the contracts.\<close>

lemma dyn_process_input_OkE:
  assumes "dyn_process_input inject project di fi m db i p = Ok (db', meta)"
  obtains s x s' where "project db = Some s" and "di i = Some x" and "db' = inject s'"
    and "sm_process_input m s x p = Ok (s', meta)"
  using assms by (auto simp: dyn_process_input_def)

lemma dyn_process_output_OkE:
  assumes "dyn_process_output inject project dt fo m db ot q = Ok (db', a)"
  obtains s x s' where "project db = Some s" and "dt ot = Some x" and "db' = inject s'"
    and "sm_process_output m s x q = Ok (s', a)"
  using assms by (auto simp: dyn_process_output_def)

lemma funds_laws_erase:
  assumes m: "funds_laws (sm_process_input m) (sm_process_output m) balance outs good"
    and prj: "\<And>s. project (inject s) = Some s"
  shows "funds_laws (dyn_process_input inject project di fi m) (dyn_process_output inject project dt fo m)
    (\<lambda>db. balance (the (project db))) (\<lambda>db. outs (the (project db)))
    (\<lambda>db. \<exists>s. project db = Some s \<and> good s)"
proof
  fix db i p db' and meta :: input_meta
  assume "\<exists>s. project db = Some s \<and> good s"
    and "dyn_process_input inject project di fi m db i p = Ok (db', meta)"
  then obtain s x s' where "project db = Some s" "good s" "db' = inject s'"
    and "sm_process_input m s x p = Ok (s', meta)"
    by (auto elim: dyn_process_input_OkE)
  then show "(\<exists>s. project db' = Some s \<and> good s) \<and> item_wf (im_amount meta) \<and>
      outs (the (project db')) \<subseteq> outs (the (project db)) \<and>
      balance (the (project db)) + bitcoin_of (ti_amounts (im_amount meta)) \<le> balance (the (project db'))"
    using funds_laws.pin_Ok [OF m] by (simp add: prj)
next
  fix db ot q db' and a :: transaction_item_amounts
  assume "\<exists>s. project db = Some s \<and> good s"
    and "dyn_process_output inject project dt fo m db ot q = Ok (db', a)"
  then obtain s x s' where "project db = Some s" "good s" "db' = inject s'"
    and "sm_process_output m s x q = Ok (s', a)"
    by (auto elim: dyn_process_output_OkE)
  then show "(\<exists>s. project db' = Some s \<and> good s) \<and> item_wf a \<and>
      outs (the (project db')) \<subseteq> insert q (outs (the (project db))) \<and>
      balance (the (project db)) - bitcoin_of (ti_amounts a) \<le> balance (the (project db'))"
    using funds_laws.pout_Ok [OF m] by (simp add: prj)
qed

lemma funds_module_erase:
  assumes m: "funds_module (sm_process_input m) (sm_process_output m) balance outs good used tin tout"
    and prj: "\<And>s. project (inject s) = Some s"
  shows "funds_module (dyn_process_input inject project di fi m) (dyn_process_output inject project dt fo m)
    (\<lambda>db. balance (the (project db))) (\<lambda>db. outs (the (project db)))
    (\<lambda>db. \<exists>s. project db = Some s \<and> good s) (\<lambda>db. used (the (project db)))
    (\<lambda>i. \<exists>x. di i = Some x \<and> tin x) (\<lambda>ot. \<exists>x. dt ot = Some x \<and> tout x)"
proof (intro funds_module.intro funds_module_axioms.intro)
  show "funds_laws (dyn_process_input inject project di fi m) (dyn_process_output inject project dt fo m)
    (\<lambda>db. balance (the (project db))) (\<lambda>db. outs (the (project db)))
    (\<lambda>db. \<exists>s. project db = Some s \<and> good s)"
    by (rule funds_laws_erase [OF funds_module.axioms(1) [OF m]]) (rule prj)
qed (auto simp: dyn_process_input_def dyn_process_output_def rbind_eq_Panic prj
    dest: funds_module.pin_used [OF m] funds_module.pout_used [OF m]
      funds_module.pin_safe [OF m] funds_module.pout_safe [OF m])

end
