(* ===== verification/Transaction.thy ===== *)
theory Transaction
  imports ServerModule
begin

section \<open>Transactions and their funding\<close>

text \<open>
  \<open>fedimint-core/src/transaction.rs\<close> and \<open>fedimint-server/src/consensus/transaction.rs\<close>.
  The record \<open>tx_env\<close> holds what the code takes from elsewhere: the hash function, the
  encoders of the erased inputs and outputs, and the Schnorr verifier. The consensus database is a
  function from a module instance to the state of that module's prefix.
\<close>

subsection \<open>Transactions\<close>

datatype transaction_signature =
    NaiveMultisig "signature list"
  | UnknownSignature u64 bytes

record ('i, 'o) transaction =
  tx_inputs :: "(module_instance_id \<times> 'i) list"
  tx_outputs :: "(module_instance_id \<times> 'o) list"
  tx_nonce :: bytes
  tx_signatures :: transaction_signature

datatype ('ie, 'oe) transaction_error =
    UnbalancedTransaction amount amount amount
  | InvalidSignature bytes signature public_key
  | UnsupportedSignatureScheme u64
  | InvalidWitnessLength
  | InputError 'ie
  | OutputError 'oe

definition TRANSACTION_OVERFLOW_ERROR :: "('ie, 'oe) transaction_error" where
  "TRANSACTION_OVERFLOW_ERROR = UnbalancedTransaction 0 0 0"

definition MAX_TX_SIZE :: nat where
  "MAX_TX_SIZE = 50000 - 32"

record ('i, 'o) tx_env =
  te_hash :: "bytes \<Rightarrow> txid"
  te_benc :: "u64 encoder"
  te_enc_input :: "(module_instance_id \<times> 'i) encoder"
  te_enc_output :: "(module_instance_id \<times> 'o) encoder"
  te_verify_schnorr :: "signature \<Rightarrow> txid \<Rightarrow> public_key \<Rightarrow> bool"

definition tx_hash_from_parts ::
  "('i, 'o) tx_env \<Rightarrow> (module_instance_id \<times> 'i) list \<Rightarrow> (module_instance_id \<times> 'o) list \<Rightarrow> bytes \<Rightarrow> txid" where
  "tx_hash_from_parts env inputs outputs nonce =
     te_hash env
       (enc_vec (te_benc env) (te_enc_input env) inputs
        @ enc_vec (te_benc env) (te_enc_output env) outputs @ enc_array nonce)"

definition tx_hash :: "('i, 'o) tx_env \<Rightarrow> ('i, 'o) transaction \<Rightarrow> txid" where
  "tx_hash env tx = tx_hash_from_parts env (tx_inputs tx) (tx_outputs tx) (tx_nonce tx)"

text \<open>The loop over the zipped keys and signatures stops at the first that does not verify.\<close>

fun check_signatures ::
  "('i, 'o) tx_env \<Rightarrow> txid \<Rightarrow> (public_key \<times> signature) list
    \<Rightarrow> (('ie, 'oe) transaction_error, unit) result" where
  "check_signatures env msg [] = Ok ()"
| "check_signatures env msg ((pk, sig) # rest) =
     (if \<not> te_verify_schnorr env sig msg pk then Err (InvalidSignature msg sig pk)
      else check_signatures env msg rest)"

definition validate_signatures ::
  "('i, 'o) tx_env \<Rightarrow> ('i, 'o) transaction \<Rightarrow> public_key list
    \<Rightarrow> (('ie, 'oe) transaction_error, unit) result" where
  "validate_signatures env tx pub_keys =
     (case tx_signatures tx of
        UnknownSignature variant _ \<Rightarrow> Err (UnsupportedSignatureScheme variant)
      | NaiveMultisig signatures \<Rightarrow>
          if length pub_keys \<noteq> length signatures then Err InvalidWitnessLength
          else check_signatures env (tx_hash env tx) (zip pub_keys signatures))"

subsection \<open>Funding\<close>

type_synonym core_consensus_version = "u32 \<times> u32"

definition CORE_CONSENSUS_VERSION :: core_consensus_version where
  "CORE_CONSENSUS_VERSION = (2, 1)"

definition OVERPAY_MIN_VERSION :: core_consensus_version where
  "OVERPAY_MIN_VERSION = (2, 1)"

record funding_verifier =
  fv_inputs :: amounts
  fv_outputs :: amounts
  fv_fees :: amounts

definition funding_verifier_default :: funding_verifier where
  "funding_verifier_default = \<lparr>fv_inputs = amounts_zero, fv_outputs = amounts_zero, fv_fees = amounts_zero\<rparr>"

definition add_input ::
  "funding_verifier \<Rightarrow> transaction_item_amounts \<Rightarrow> (('ie, 'oe) transaction_error, funding_verifier) result" where
  "add_input fv input =
     rbind (ok_or (amounts_checked_add_mut (fv_inputs fv) (ti_amounts input)) TRANSACTION_OVERFLOW_ERROR)
       (\<lambda>ins. rbind (ok_or (amounts_checked_add_mut (fv_fees fv) (ti_fees input)) TRANSACTION_OVERFLOW_ERROR)
         (\<lambda>fees. Ok (fv\<lparr>fv_inputs := ins, fv_fees := fees\<rparr>)))"

definition add_output ::
  "funding_verifier \<Rightarrow> transaction_item_amounts \<Rightarrow> (('ie, 'oe) transaction_error, funding_verifier) result" where
  "add_output fv output =
     rbind (ok_or (amounts_checked_add_mut (fv_outputs fv) (ti_amounts output)) TRANSACTION_OVERFLOW_ERROR)
       (\<lambda>outs. rbind (ok_or (amounts_checked_add_mut (fv_fees fv) (ti_fees output)) TRANSACTION_OVERFLOW_ERROR)
         (\<lambda>fees. Ok (fv\<lparr>fv_outputs := outs, fv_fees := fees\<rparr>)))"

text \<open>The loop over the units of the outputs and fees, which removes each unit it has checked.\<close>

fun check_units ::
  "funding_verifier \<Rightarrow> core_consensus_version \<Rightarrow> amounts \<Rightarrow> amounts
    \<Rightarrow> (('ie, 'oe) transaction_error, amounts) result" where
  "check_units fv version inputs [] = Ok inputs"
| "check_units fv version inputs ((out_unit, out_amount) # rest) =
     (let input_amount = amounts_get inputs out_unit
      in if input_amount < out_amount \<or> (input_amount \<noteq> out_amount \<and> version < OVERPAY_MIN_VERSION)
         then Err (UnbalancedTransaction input_amount
                     (amounts_get (fv_outputs fv) out_unit) (amounts_get (fv_fees fv) out_unit))
         else check_units fv version (snd (amounts_remove inputs out_unit)) rest)"

definition verify_funding ::
  "funding_verifier \<Rightarrow> core_consensus_version \<Rightarrow> (('ie, 'oe) transaction_error, unit) result" where
  "verify_funding fv version =
     rbind (ok_or (amounts_checked_add (fv_outputs fv) (fv_fees fv)) TRANSACTION_OVERFLOW_ERROR)
       (\<lambda>outputs_and_fees.
         rbind (check_units fv version (fv_inputs fv) outputs_and_fees) (\<lambda>inputs.
           if version < OVERPAY_MIN_VERSION
           then (case inputs of
                   (u, a) # _ \<Rightarrow>
                     Err (UnbalancedTransaction a (amounts_get (fv_outputs fv) u) (amounts_get (fv_fees fv) u))
                 | [] \<Rightarrow> Ok ())
           else Ok ()))"

subsection \<open>Processing a transaction\<close>

datatype tx_processing_mode = Submission | Consensus

type_synonym ('s, 'i, 'o, 'c, 'ie, 'oe) module_registry =
  "(module_instance_id, ('s, 'i, 'o, 'c, 'ie, 'oe) server_module) btree"

type_synonym 's module_dbs = "module_instance_id \<Rightarrow> 's"

definition get_expect ::
  "('s, 'i, 'o, 'c, 'ie, 'oe) module_registry \<Rightarrow> module_instance_id
    \<Rightarrow> ('e, ('s, 'i, 'o, 'c, 'ie, 'oe) server_module) result" where
  "get_expect modules mid = expect (bt_get modules mid)"

text \<open>
  Inputs are verified in parallel, and every error is mapped to the same one. A panic of one
  verification may come before or after the error of another, so the model lets it prevail: the
  absence of panics that is shown below then holds of every order.
\<close>

fun verify_inputs ::
  "('s, 'i, 'o, 'c, 'ie, 'oe) module_registry \<Rightarrow> (module_instance_id \<times> 'i) list
    \<Rightarrow> (('ie, 'oe) transaction_error, unit) result" where
  "verify_inputs modules [] = Ok ()"
| "verify_inputs modules ((mid, input) # rest) =
     (case (rbind (get_expect modules mid) (\<lambda>m.
             map_err (\<lambda>_. InvalidWitnessLength) (sm_verify_input m input)), verify_inputs modules rest) of
        (Panic, _) \<Rightarrow> Panic
      | (_, Panic) \<Rightarrow> Panic
      | (Err e, _) \<Rightarrow> Err e
      | (Ok _, r) \<Rightarrow> r)"

fun process_inputs ::
  "('s, 'i, 'o, 'c, 'ie, 'oe) module_registry \<Rightarrow> tx_processing_mode \<Rightarrow> txid \<Rightarrow> u64
    \<Rightarrow> (module_instance_id \<times> 'i) list \<Rightarrow> 's module_dbs \<Rightarrow> funding_verifier \<Rightarrow> public_key list
    \<Rightarrow> (('ie, 'oe) transaction_error, 's module_dbs \<times> funding_verifier \<times> public_key list) result" where
  "process_inputs modules mode txid in_idx [] dbtx fv public_keys = Ok (dbtx, fv, public_keys)"
| "process_inputs modules mode txid in_idx ((mid, input) # rest) dbtx fv public_keys =
     rbind (get_expect modules mid) (\<lambda>m.
       rbind (if mode = Submission
              then map_err InputError (sm_verify_input_submission m (dbtx mid) input)
              else Ok ()) (\<lambda>_.
         rbind (map_err InputError (sm_process_input m (dbtx mid) input (txid, in_idx))) (\<lambda>(s, meta).
           rbind (add_input fv (im_amount meta)) (\<lambda>fv.
             process_inputs modules mode txid (in_idx + 1) rest (dbtx(mid := s)) fv
               (public_keys @ [im_pub_key meta])))))"

fun process_outputs ::
  "('s, 'i, 'o, 'c, 'ie, 'oe) module_registry \<Rightarrow> tx_processing_mode \<Rightarrow> txid \<Rightarrow> u64
    \<Rightarrow> (module_instance_id \<times> 'o) list \<Rightarrow> 's module_dbs \<Rightarrow> funding_verifier
    \<Rightarrow> (('ie, 'oe) transaction_error, 's module_dbs \<times> funding_verifier) result" where
  "process_outputs modules mode txid out_idx [] dbtx fv = Ok (dbtx, fv)"
| "process_outputs modules mode txid out_idx ((mid, output) # rest) dbtx fv =
     rbind (get_expect modules mid) (\<lambda>m.
       rbind (if mode = Submission
              then map_err OutputError (sm_verify_output_submission m (dbtx mid) output (txid, out_idx))
              else Ok ()) (\<lambda>_.
         rbind (map_err OutputError (sm_process_output m (dbtx mid) output (txid, out_idx))) (\<lambda>(s, amount).
           rbind (add_output fv amount) (\<lambda>fv.
             process_outputs modules mode txid (out_idx + 1) rest (dbtx(mid := s)) fv))))"

definition process_transaction_with_dbtx ::
  "('i, 'o) tx_env \<Rightarrow> ('s, 'i, 'o, 'c, 'ie, 'oe) module_registry \<Rightarrow> 's module_dbs
    \<Rightarrow> ('i, 'o) transaction \<Rightarrow> core_consensus_version \<Rightarrow> tx_processing_mode
    \<Rightarrow> (('ie, 'oe) transaction_error, 's module_dbs) result" where
  "process_transaction_with_dbtx env modules dbtx tx version mode =
     rbind (verify_inputs modules (tx_inputs tx)) (\<lambda>_.
       let txid = tx_hash env tx
       in rbind (process_inputs modules mode txid 0 (tx_inputs tx) dbtx funding_verifier_default [])
            (\<lambda>(dbtx, fv, public_keys).
              rbind (validate_signatures env tx public_keys) (\<lambda>_.
                rbind (process_outputs modules mode txid 0 (tx_outputs tx) dbtx fv) (\<lambda>(dbtx, fv).
                  rbind (verify_funding fv version) (\<lambda>_. Ok dbtx)))))"

subsection \<open>What the funding check accepts\<close>

definition fv_wf :: "funding_verifier \<Rightarrow> bool" where
  "fv_wf fv \<longleftrightarrow> amounts_wf (fv_inputs fv) \<and> amounts_wf (fv_outputs fv) \<and> amounts_wf (fv_fees fv)"

text \<open>The specification: per unit, and over the natural numbers.\<close>

definition balanced :: "funding_verifier \<Rightarrow> core_consensus_version \<Rightarrow> bool" where
  "balanced fv version \<longleftrightarrow>
     (\<forall>u. let out = units_of (fv_outputs fv) u + units_of (fv_fees fv) u;
              inp = units_of (fv_inputs fv) u
          in out < 2 ^ 64 \<and> out \<le> inp \<and> (version < OVERPAY_MIN_VERSION \<longrightarrow> inp = out))"

lemma unat_amounts_get: "unat (amounts_get m u) = units_of m u"
  by (simp add: units_of_def)

lemma check_units_spec:
  assumes "amounts_wf inputs" and "amounts_wf oaf"
  shows "case check_units fv version inputs oaf of
      Ok r \<Rightarrow> amounts_wf r \<and> (\<forall>u. units_of oaf u \<le> units_of inputs u
          \<and> units_of r u = (if units_of oaf u = 0 then units_of inputs u else 0)
          \<and> (version < OVERPAY_MIN_VERSION \<longrightarrow> units_of inputs u = units_of r u + units_of oaf u))
    | Err _ \<Rightarrow> (\<exists>u. units_of inputs u < units_of oaf u
          \<or> version < OVERPAY_MIN_VERSION \<and> units_of inputs u \<noteq> units_of oaf u)
    | Panic \<Rightarrow> False"
  using assms
proof (induction oaf arbitrary: inputs)
  case (Cons p oaf)
  obtain u a where p: "p = (u, a)" by (cases p)
  have a: "0 < unat a" and oaf: "amounts_wf oaf" and above: "units_of oaf u = 0"
    using Cons.prems(2) by (auto simp: p amounts_wf_Cons units_of_above unat_gt_0)
  let ?get = "amounts_get inputs u" and ?rest = "bt_remove u inputs"
  let ?bad = "?get < a \<or> ?get \<noteq> a \<and> version < OVERPAY_MIN_VERSION"
  have bad: "?bad \<longleftrightarrow> units_of inputs u < unat a \<or> units_of inputs u \<noteq> unat a \<and> version < OVERPAY_MIN_VERSION"
    by (simp add: word_less_nat_alt word_unat_eq_iff unat_amounts_get)
  show ?case
  proof (cases ?bad)
    case True
    then show ?thesis
      using bad by (auto simp: p Let_def units_of_Cons intro!: exI [of _ u])
  next
    case False
    then have step: "check_units fv version inputs (p # oaf) = check_units fv version ?rest oaf"
      by (auto simp: p Let_def amounts_remove_def)
    show ?thesis
      using Cons.IH [OF amounts_wf_remove [OF Cons.prems(1)] oaf, of u] False bad a above
      unfolding step
      by (auto simp: p units_of_Cons units_of_remove split: result.splits if_splits)
  qed
qed simp

lemma units_of_eq_0_iff: "amounts_wf m \<Longrightarrow> (\<forall>u. units_of m u = 0) \<longleftrightarrow> m = []"
  using amounts_eqI [of m "[]"] by auto

lemma verify_funding_iff:
  assumes "fv_wf fv"
  shows "(verify_funding fv version :: (('ie, 'oe) transaction_error, unit) result) = Ok ()
    \<longleftrightarrow> balanced fv version"
proof -
  let ?vf = "verify_funding fv version :: (('ie, 'oe) transaction_error, unit) result"
  have wf: "amounts_wf (fv_inputs fv)" "amounts_wf (fv_outputs fv)" "amounts_wf (fv_fees fv)"
    using assms by (auto simp: fv_wf_def)
  note add = amounts_checked_add_mut_spec [OF wf(2,3), folded amounts_checked_add_def]
  show ?thesis
  proof (cases "amounts_checked_add (fv_outputs fv) (fv_fees fv)")
    case None
    then obtain u where "2 ^ 64 \<le> units_of (fv_outputs fv) u + units_of (fv_fees fv) u"
      using add by auto
    then have "\<not> balanced fv version"
      unfolding balanced_def Let_def not_all by (intro exI [of _ u]) simp
    then show ?thesis
      using None by (simp add: verify_funding_def)
  next
    case (Some oaf)
    then have oaf: "amounts_wf oaf"
      "\<And>u. units_of (fv_outputs fv) u + units_of (fv_fees fv) u = units_of oaf u"
      using add by auto
    have less: "units_of oaf u < 2 ^ 64" for u
      using unsigned_less [of "amounts_get oaf u", where 'a = nat] by (simp add: units_of_def)
    have bal: "balanced fv version \<longleftrightarrow> (\<forall>u. units_of oaf u \<le> units_of (fv_inputs fv) u
        \<and> (version < OVERPAY_MIN_VERSION \<longrightarrow> units_of (fv_inputs fv) u = units_of oaf u))"
      using less by (simp add: balanced_def oaf(2) Let_def)
    let ?chk = "check_units fv version (fv_inputs fv) oaf :: (('ie, 'oe) transaction_error, amounts) result"
    note chk = check_units_spec
      [OF wf(1) oaf(1), where 'a = 'ie and 'b = 'oe and fv = fv and version = version]
    show ?thesis
    proof (cases ?chk)
      case (Ok r)
      have r: "amounts_wf r" "\<And>u. units_of oaf u \<le> units_of (fv_inputs fv) u"
        "\<And>u. version < OVERPAY_MIN_VERSION \<Longrightarrow> units_of (fv_inputs fv) u = units_of r u + units_of oaf u"
        using chk [unfolded Ok] by simp_all
      have "?vf = Ok () \<longleftrightarrow> (version < OVERPAY_MIN_VERSION \<longrightarrow> r = [])"
        by (auto simp: verify_funding_def Some Ok split: list.splits)
      also have "\<dots> \<longleftrightarrow> balanced fv version"
        using r units_of_eq_0_iff [OF r(1)] by (auto simp: bal)
      finally show ?thesis .
    next
      case (Err e)
      then show ?thesis
        using chk by (auto simp: verify_funding_def Some bal not_le [symmetric])
    next
      case Panic
      then show ?thesis using chk by simp
    qed
  qed
qed

subsection \<open>Balances across modules\<close>

lemma add_input_Ok:
  assumes "fv_wf fv" and "item_wf a" and "add_input fv a = Ok fv'"
  shows "fv_wf fv' \<and> fv_outputs fv' = fv_outputs fv
    \<and> (\<forall>u. units_of (fv_inputs fv') u = units_of (fv_inputs fv) u + units_of (ti_amounts a) u)
    \<and> (\<forall>u. units_of (fv_fees fv') u = units_of (fv_fees fv) u + units_of (ti_fees a) u)"
proof -
  obtain ins fees where "amounts_checked_add_mut (fv_inputs fv) (ti_amounts a) = Some ins"
    and "amounts_checked_add_mut (fv_fees fv) (ti_fees a) = Some fees"
    and "fv' = fv\<lparr>fv_inputs := ins, fv_fees := fees\<rparr>"
    using assms(3) by (auto simp: add_input_def)
  then show ?thesis
    using assms(1,2) amounts_checked_add_mut_spec [of "fv_inputs fv" "ti_amounts a"]
      amounts_checked_add_mut_spec [of "fv_fees fv" "ti_fees a"]
    by (simp add: fv_wf_def item_wf_def)
qed

lemma add_output_Ok:
  assumes "fv_wf fv" and "item_wf a" and "add_output fv a = Ok fv'"
  shows "fv_wf fv' \<and> fv_inputs fv' = fv_inputs fv
    \<and> (\<forall>u. units_of (fv_outputs fv') u = units_of (fv_outputs fv) u + units_of (ti_amounts a) u)
    \<and> (\<forall>u. units_of (fv_fees fv') u = units_of (fv_fees fv) u + units_of (ti_fees a) u)"
proof -
  obtain out fees where "amounts_checked_add_mut (fv_outputs fv) (ti_amounts a) = Some out"
    and "amounts_checked_add_mut (fv_fees fv) (ti_fees a) = Some fees"
    and "fv' = fv\<lparr>fv_outputs := out, fv_fees := fees\<rparr>"
    using assms(3) by (auto simp: add_output_def)
  then show ?thesis
    using assms(1,2) amounts_checked_add_mut_spec [of "fv_outputs fv" "ti_amounts a"]
      amounts_checked_add_mut_spec [of "fv_fees fv" "ti_fees a"]
    by (simp add: fv_wf_def item_wf_def)
qed

lemma add_no_panic [simp]: "add_input fv a \<noteq> Panic" "add_output fv a \<noteq> Panic"
  by (simp_all add: add_input_def add_output_def rbind_eq_Panic)

lemma check_signatures_no_panic [simp]: "check_signatures env msg xs \<noteq> Panic"
  by (induction xs rule: check_signatures.induct [of _ env msg]) auto

lemma validate_signatures_no_panic [simp]: "validate_signatures env tx pks \<noteq> Panic"
  by (simp add: validate_signatures_def split: transaction_signature.split)

lemma check_units_no_panic [simp]: "check_units fv v i xs \<noteq> Panic"
  by (induction xs arbitrary: i rule: list.induct) (auto simp: Let_def split: if_splits)

lemma verify_funding_no_panic [simp]: "verify_funding fv v \<noteq> Panic"
  by (auto simp: verify_funding_def rbind_eq_Panic split: list.split)

text \<open>The sum of the balances of all registered modules.\<close>

definition total_balance ::
  "(module_instance_id \<Rightarrow> 's \<Rightarrow> int) \<Rightarrow> ('s, 'i, 'o, 'c, 'ie, 'oe) module_registry \<Rightarrow> 's module_dbs \<Rightarrow> int" where
  "total_balance balance modules db = (\<Sum>(mid, m)\<leftarrow>modules. balance mid (db mid))"

lemma total_balance_upd:
  assumes "bt_wf modules" and "bt_get modules mid = Some m"
  shows "total_balance balance modules (db(mid := s))
    = total_balance balance modules db - balance mid (db mid) + balance mid s"
proof -
  have "bt.total (\<lambda>k m. balance k ((db(mid := s)) k)) modules
      = balance mid s + bt.total (\<lambda>k m. balance k ((db(mid := s)) k)) (bt_remove mid modules)"
    using bt.total_remove [OF assms, of "\<lambda>k m. balance k ((db(mid := s)) k)"] by simp
  moreover have "bt.total (\<lambda>k m. balance k ((db(mid := s)) k)) (bt_remove mid modules)
      = bt.total (\<lambda>k m. balance k (db k)) (bt_remove mid modules)"
    by (auto simp: bt.total_def bt_remove_def intro!: arg_cong [of _ _ sum_list])
  moreover have "bt.total (\<lambda>k m. balance k (db k)) modules
      = balance mid (db mid) + bt.total (\<lambda>k m. balance k (db k)) (bt_remove mid modules)"
    using assms by (rule bt.total_remove)
  ultimately show ?thesis
    by (simp add: total_balance_def bt.total_def)
qed

locale conserving_registry =
  fixes modules :: "('s, 'i, 'o, 'c, 'ie, 'oe) module_registry"
    and balance :: "module_instance_id \<Rightarrow> 's \<Rightarrow> int"
    and outs :: "module_instance_id \<Rightarrow> 's \<Rightarrow> out_point set"
    and good :: "module_instance_id \<Rightarrow> 's \<Rightarrow> bool"
  assumes reg_wf: "bt_wf modules"
    and reg_laws: "bt_get modules mid = Some m \<Longrightarrow>
      funds_laws (sm_process_input m) (sm_process_output m) (balance mid) (outs mid) (good mid)"
begin

definition all_good :: "'s module_dbs \<Rightarrow> bool" where
  "all_good db \<longleftrightarrow> (\<forall>mid. bt_get modules mid \<noteq> None \<longrightarrow> good mid (db mid))"

abbreviation total :: "'s module_dbs \<Rightarrow> int" where
  "total db \<equiv> total_balance balance modules db"

lemma all_good_upd: "all_good db \<Longrightarrow> good mid s \<Longrightarrow> all_good (db(mid := s))"
  by (simp add: all_good_def)

lemma process_inputs_Ok:
  assumes "all_good db" and "fv_wf fv"
    and "process_inputs modules mode txid idx ins db fv pks = Ok (db', fv', pks')"
  shows "all_good db' \<and> fv_wf fv' \<and> fv_outputs fv' = fv_outputs fv
    \<and> bitcoin_of (fv_inputs fv') - bitcoin_of (fv_inputs fv) \<le> total db' - total db
    \<and> (\<forall>mid. bt_get modules mid \<noteq> None \<longrightarrow> outs mid (db' mid) \<subseteq> outs mid (db mid))"
  using assms
proof (induction ins arbitrary: idx db fv pks)
  case (Cons p ins)
  obtain mid i where p: "p = (mid, i)" by (cases p)
  from Cons.prems(3) obtain m s meta fv1 where m: "bt_get modules mid = Some m"
    and pin: "sm_process_input m (db mid) i (txid, idx) = Ok (s, meta)"
    and add: "add_input fv (im_amount meta) = (Ok fv1 :: (('ie, 'oe) transaction_error, _) result)"
    and rest: "process_inputs modules mode txid (idx + 1) ins (db(mid := s)) fv1
        (pks @ [im_pub_key meta]) = Ok (db', fv', pks')"
    by (auto simp: p get_expect_def)
  define db1 where "db1 = db(mid := s)"
  have "good mid (db mid)"
    using Cons.prems(1) m by (simp add: all_good_def)
  note step = funds_laws.pin_Ok [OF reg_laws [OF m] this pin]
  then have fv1: "fv_wf fv1" "fv_outputs fv1 = fv_outputs fv"
    "bitcoin_of (fv_inputs fv1) = bitcoin_of (fv_inputs fv) + bitcoin_of (ti_amounts (im_amount meta))"
    using add_input_Ok [OF Cons.prems(2) _ add] by simp_all
  have "all_good db1"
    unfolding db1_def using all_good_upd [OF Cons.prems(1)] step by blast
  note IH = Cons.IH [OF this fv1(1) rest [folded db1_def]]
  have "total db + bitcoin_of (ti_amounts (im_amount meta)) \<le> total db1"
    unfolding db1_def using total_balance_upd [OF reg_wf m] step by simp
  then have "bitcoin_of (fv_inputs fv') - bitcoin_of (fv_inputs fv) \<le> total db' - total db"
    using IH fv1(3) by simp
  moreover have "outs k (db' k) \<subseteq> outs k (db k)" if k: "bt_get modules k \<noteq> None" for k
  proof -
    have "outs k (db' k) \<subseteq> outs k (db1 k)"
      using IH k by blast
    then show ?thesis
      using step by (cases "k = mid") (auto simp: db1_def)
  qed
  ultimately show ?case
    using IH fv1(2) by simp
qed simp

lemma process_outputs_Ok:
  assumes "all_good db" and "fv_wf fv"
    and "process_outputs modules mode txid idx ots db fv = Ok (db', fv')"
  shows "all_good db' \<and> fv_wf fv' \<and> fv_inputs fv' = fv_inputs fv
    \<and> bitcoin_of (fv_outputs fv) - bitcoin_of (fv_outputs fv') \<le> total db' - total db
    \<and> (\<forall>mid. bt_get modules mid \<noteq> None \<longrightarrow> outs mid (db' mid) \<subseteq> outs mid (db mid) \<union> {txid} \<times> UNIV)"
  using assms
proof (induction ots arbitrary: idx db fv)
  case (Cons p ots)
  obtain mid ot where p: "p = (mid, ot)" by (cases p)
  from Cons.prems(3) obtain m s a fv1 where m: "bt_get modules mid = Some m"
    and pout: "sm_process_output m (db mid) ot (txid, idx) = Ok (s, a)"
    and add: "add_output fv a = (Ok fv1 :: (('ie, 'oe) transaction_error, _) result)"
    and rest: "process_outputs modules mode txid (idx + 1) ots (db(mid := s)) fv1 = Ok (db', fv')"
    by (auto simp: p get_expect_def)
  define db1 where "db1 = db(mid := s)"
  have "good mid (db mid)"
    using Cons.prems(1) m by (simp add: all_good_def)
  note step = funds_laws.pout_Ok [OF reg_laws [OF m] this pout]
  then have fv1: "fv_wf fv1" "fv_inputs fv1 = fv_inputs fv"
    "bitcoin_of (fv_outputs fv1) = bitcoin_of (fv_outputs fv) + bitcoin_of (ti_amounts a)"
    using add_output_Ok [OF Cons.prems(2) _ add] by simp_all
  have "all_good db1"
    unfolding db1_def using all_good_upd [OF Cons.prems(1)] step by blast
  note IH = Cons.IH [OF this fv1(1) rest [folded db1_def]]
  have "total db - bitcoin_of (ti_amounts a) \<le> total db1"
    unfolding db1_def using total_balance_upd [OF reg_wf m] step by simp
  then have "bitcoin_of (fv_outputs fv) - bitcoin_of (fv_outputs fv') \<le> total db' - total db"
    using IH fv1(3) by simp
  moreover have "outs k (db' k) \<subseteq> outs k (db k) \<union> {txid} \<times> UNIV" if k: "bt_get modules k \<noteq> None" for k
  proof -
    have "outs k (db' k) \<subseteq> outs k (db1 k) \<union> {txid} \<times> UNIV"
      using IH k by blast
    moreover have "outs k (db1 k) \<subseteq> outs k (db k) \<union> {txid} \<times> UNIV"
      using step by (auto simp: db1_def)
    ultimately show ?thesis
      by auto
  qed
  ultimately show ?case
    using IH fv1(2) by simp
qed simp

lemma fv_wf_default: "fv_wf funding_verifier_default"
  by (simp add: fv_wf_def funding_verifier_default_def amounts_zero_def)

lemma transaction_Ok:
  assumes "all_good db" and "process_transaction_with_dbtx env modules db tx version mode = Ok db'"
  shows "all_good db' \<and> total db \<le> total db'
    \<and> (\<forall>mid. bt_get modules mid \<noteq> None \<longrightarrow> outs mid (db' mid) \<subseteq> outs mid (db mid) \<union> {tx_hash env tx} \<times> UNIV)"
proof -
  let ?id = "tx_hash env tx"
  obtain db1 fv1 pks fv2 where
    ins: "process_inputs modules mode ?id 0 (tx_inputs tx) db funding_verifier_default [] = Ok (db1, fv1, pks)"
    and ots: "process_outputs modules mode ?id 0 (tx_outputs tx) db1 fv1 = Ok (db', fv2)"
    and funding: "verify_funding fv2 version = (Ok () :: (('ie, 'oe) transaction_error, unit) result)"
    using assms(2) by (auto simp: process_transaction_with_dbtx_def Let_def)
  note i = process_inputs_Ok [OF assms(1) fv_wf_default ins]
  then have "all_good db1" "fv_wf fv1"
    by blast+
  note ot = process_outputs_Ok [OF this ots]
  have zero: "units_of (fv_inputs funding_verifier_default) BITCOIN = 0"
    "units_of (fv_outputs funding_verifier_default) BITCOIN = 0"
    by (simp_all add: funding_verifier_default_def amounts_zero_def)
  have "balanced fv2 version"
    using funding verify_funding_iff [of fv2 version] ot by blast
  then have "units_of (fv_outputs fv2) BITCOIN \<le> units_of (fv_inputs fv2) BITCOIN"
    by (auto simp: balanced_def Let_def dest!: spec [of _ BITCOIN])
  moreover have "bitcoin_of (fv_inputs fv1) \<le> total db1 - total db"
    and "- bitcoin_of (fv_outputs fv2) \<le> total db' - total db1"
    and "fv_inputs fv2 = fv_inputs fv1"
    using i ot zero by simp_all
  ultimately have "total db \<le> total db'"
    by simp
  moreover have "outs mid (db' mid) \<subseteq> outs mid (db mid) \<union> {?id} \<times> UNIV"
    if "bt_get modules mid \<noteq> None" for mid
    using i ot that by blast
  ultimately show ?thesis
    using ot by blast
qed

end

text \<open>A registry of modules that never panic.\<close>

locale funded_registry = conserving_registry modules balance outs good
  for modules :: "('s, 'i, 'o, 'c, 'ie, 'oe) module_registry"
    and balance :: "module_instance_id \<Rightarrow> 's \<Rightarrow> int"
    and outs :: "module_instance_id \<Rightarrow> 's \<Rightarrow> out_point set"
    and good :: "module_instance_id \<Rightarrow> 's \<Rightarrow> bool" +
  fixes used :: "module_instance_id \<Rightarrow> 's \<Rightarrow> nat"
    and tin :: "module_instance_id \<Rightarrow> 'i \<Rightarrow> bool"
    and tout :: "module_instance_id \<Rightarrow> 'o \<Rightarrow> bool"
  assumes reg_funds: "bt_get modules mid = Some m \<Longrightarrow>
      funds_module (sm_process_input m) (sm_process_output m) (balance mid) (outs mid) (good mid)
        (used mid) (tin mid) (tout mid)"
    and reg_verify: "bt_get modules mid = Some m \<Longrightarrow> tin mid i \<Longrightarrow> sm_verify_input m i \<noteq> Panic"
begin

lemma pin_step:
  assumes "bt_get modules mid = Some m" and "good mid s" and "sm_process_input m s i p = Ok (s', meta)"
  shows "good mid s'" and "used mid s' \<le> Suc (used mid s)"
  using funds_laws.pin_Ok [OF reg_laws [OF assms(1)] assms(2,3)]
    funds_module.pin_used [OF reg_funds [OF assms(1)] assms(2,3)] by blast+

lemma pout_step:
  assumes "bt_get modules mid = Some m" and "good mid s" and "sm_process_output m s ot q = Ok (s', a)"
  shows "good mid s'" and "used mid s' \<le> Suc (used mid s)" and "outs mid s' \<subseteq> insert q (outs mid s)"
  using funds_laws.pout_Ok [OF reg_laws [OF assms(1)] assms(2,3)]
    funds_module.pout_used [OF reg_funds [OF assms(1)] assms(2,3)] by blast+

lemma process_inputs_used:
  assumes "all_good db" and "process_inputs modules mode txid idx ins db fv pks = Ok (db', fv', pks')"
  shows "used mid (db' mid) \<le> used mid (db mid) + length ins"
  using assms
proof (induction ins arbitrary: idx db fv pks)
  case (Cons p ins)
  obtain k i where p: "p = (k, i)" by (cases p)
  from Cons.prems(2) obtain m s meta fv1 where m: "bt_get modules k = Some m"
    and pin: "sm_process_input m (db k) i (txid, idx) = Ok (s, meta)"
    and rest: "process_inputs modules mode txid (idx + 1) ins (db(k := s)) fv1
        (pks @ [im_pub_key meta]) = Ok (db', fv', pks')"
    by (auto simp: p get_expect_def)
  have "good k (db k)"
    using Cons.prems(1) m by (simp add: all_good_def)
  note step = pin_step [OF m this pin]
  from Cons.IH [OF all_good_upd [OF Cons.prems(1) step(1)] rest] step(2) show ?case
    by (cases "mid = k") simp_all
qed simp

lemma verify_inputs_safe:
  assumes "\<forall>(mid, i)\<in>set ins. bt_get modules mid \<noteq> None \<and> tin mid i"
  shows "verify_inputs modules ins \<noteq> Panic"
  using assms by (induction ins) (auto simp: get_expect_def reg_verify split: result.splits)

lemma process_inputs_safe:
  assumes "all_good db" and "\<forall>(mid, i)\<in>set ins. bt_get modules mid \<noteq> None \<and> tin mid i"
    and "\<forall>mid. used mid (db mid) + length ins < 2 ^ 64 - 1"
  shows "process_inputs modules Consensus txid idx ins db fv pks \<noteq> Panic"
  using assms
proof (induction ins arbitrary: idx db fv pks)
  case (Cons p ins)
  obtain mid i where p: "p = (mid, i)" by (cases p)
  then obtain m where m: "bt_get modules mid = Some m" and t: "tin mid i"
    using Cons.prems(2) by auto
  have g: "good mid (db mid)"
    using Cons.prems(1) m by (simp add: all_good_def)
  have "sm_process_input m (db mid) i (txid, idx) \<noteq> Panic"
    using Cons.prems(3) by (intro funds_module.pin_safe [OF reg_funds [OF m] g _ t])
      (auto dest: spec [of _ mid])
  moreover have "process_inputs modules Consensus txid (idx + 1) ins (db(mid := s)) fv1 pks1 \<noteq> Panic"
    if pin: "sm_process_input m (db mid) i (txid, idx) = Ok (s, meta)" for s meta fv1 pks1
  proof -
    have s: "good mid s" "used mid s \<le> Suc (used mid (db mid))"
      using pin_step [OF m g pin] by blast+
    have room: "\<forall>k. used k ((db(mid := s)) k) + length ins < 2 ^ 64 - 1"
    proof
      fix k
      show "used k ((db(mid := s)) k) + length ins < 2 ^ 64 - 1"
        using Cons.prems(3) [rule_format, of k] s(2) by (cases "k = mid") auto
    qed
    have "\<forall>(mid, i)\<in>set ins. bt_get modules mid \<noteq> None \<and> tin mid i"
      using Cons.prems(2) by simp
    from Cons.IH [OF all_good_upd [OF Cons.prems(1) s(1)] this room] show ?thesis .
  qed
  ultimately show ?case
    by (auto simp: p m get_expect_def rbind_eq_Panic split: prod.splits)
qed simp

lemma process_outputs_safe:
  assumes "all_good db" and "\<forall>(mid, ot)\<in>set ots. bt_get modules mid \<noteq> None \<and> tout mid ot"
    and "\<forall>mid. used mid (db mid) + length ots < 2 ^ 64 - 1"
    and "unat idx + length ots < 2 ^ 64"
    and "\<forall>mid j. bt_get modules mid \<noteq> None \<and> (txid, j) \<in> outs mid (db mid) \<longrightarrow> j < idx"
  shows "process_outputs modules Consensus txid idx ots db fv \<noteq> Panic"
  using assms
proof (induction ots arbitrary: idx db fv)
  case (Cons p ots)
  obtain mid ot where p: "p = (mid, ot)" by (cases p)
  then obtain m where m: "bt_get modules mid = Some m" and t: "tout mid ot"
    using Cons.prems(2) by auto
  have g: "good mid (db mid)"
    using Cons.prems(1) m by (simp add: all_good_def)
  have "(txid, idx) \<notin> outs mid (db mid)"
    using Cons.prems(5) m by fastforce
  then have "sm_process_output m (db mid) ot (txid, idx) \<noteq> Panic"
    using Cons.prems(3) by (intro funds_module.pout_safe [OF reg_funds [OF m] g _ t])
      (auto dest: spec [of _ mid])
  moreover have "process_outputs modules Consensus txid (idx + 1) ots (db(mid := s)) fv1 \<noteq> Panic"
    if pout: "sm_process_output m (db mid) ot (txid, idx) = Ok (s, a)" for s a fv1
  proof -
    have s: "good mid s" "used mid s \<le> Suc (used mid (db mid))"
      "outs mid s \<subseteq> insert (txid, idx) (outs mid (db mid))"
      using pout_step [OF m g pout] by blast+
    have room: "\<forall>k. used k ((db(mid := s)) k) + length ots < 2 ^ 64 - 1"
    proof
      fix k
      show "used k ((db(mid := s)) k) + length ots < 2 ^ 64 - 1"
        using Cons.prems(3) [rule_format, of k] s(2) by (cases "k = mid") auto
    qed
    have types: "\<forall>(mid, ot)\<in>set ots. bt_get modules mid \<noteq> None \<and> tout mid ot"
      using Cons.prems(2) by simp
    have next_idx: "unat (idx + 1) = unat idx + 1"
      using Cons.prems(4) by (subst unat_plus_small) simp_all
    then have "idx < idx + 1"
      by (simp only: word_less_nat_alt)
    then have fresh: "\<forall>k j. bt_get modules k \<noteq> None \<and> (txid, j) \<in> outs k ((db(mid := s)) k) \<longrightarrow> j < idx + 1"
      using Cons.prems(5) s(3) m by (auto intro: less_trans)
    have "unat (idx + 1) + length ots < 2 ^ 64"
      using Cons.prems(4) next_idx by simp
    from Cons.IH [OF all_good_upd [OF Cons.prems(1) s(1)] types room this fresh] show ?thesis .
  qed
  ultimately show ?case
    by (auto simp: p m get_expect_def rbind_eq_Panic split: prod.splits)
qed simp

lemma transaction_safe:
  assumes "all_good db"
    and "\<forall>(mid, i)\<in>set (tx_inputs tx). bt_get modules mid \<noteq> None \<and> tin mid i"
    and "\<forall>(mid, ot)\<in>set (tx_outputs tx). bt_get modules mid \<noteq> None \<and> tout mid ot"
    and room: "\<forall>mid. used mid (db mid) + length (tx_inputs tx) + length (tx_outputs tx) < 2 ^ 64 - 1"
    and fresh: "\<forall>mid. bt_get modules mid \<noteq> None \<longrightarrow> tx_hash env tx \<notin> fst ` outs mid (db mid)"
  shows "process_transaction_with_dbtx env modules db tx version Consensus \<noteq> Panic"
proof -
  let ?id = "tx_hash env tx"
  have "process_outputs modules Consensus ?id 0 (tx_outputs tx) db1 fv1 \<noteq> Panic"
    if ins: "process_inputs modules Consensus ?id 0 (tx_inputs tx) db funding_verifier_default []
        = Ok (db1, fv1, pks)" for db1 fv1 pks
  proof (rule process_outputs_safe [OF _ assms(3)])
    note i = process_inputs_Ok [OF assms(1) fv_wf_default ins]
    then show "all_good db1"
      by blast
    show "\<forall>mid. used mid (db1 mid) + length (tx_outputs tx) < 2 ^ 64 - 1"
    proof
      fix mid
      have "used mid (db1 mid) \<le> used mid (db mid) + length (tx_inputs tx)"
        by (rule process_inputs_used [OF assms(1) ins])
      then show "used mid (db1 mid) + length (tx_outputs tx) < 2 ^ 64 - 1"
        using room [rule_format, of mid] by linarith
    qed
    show "unat (0 :: u64) + length (tx_outputs tx) < 2 ^ 64"
      using room [rule_format, of undefined] by simp
    show "\<forall>mid j. bt_get modules mid \<noteq> None \<and> (?id, j) \<in> outs mid (db1 mid) \<longrightarrow> j < 0"
      using i fresh by force
  qed
  moreover have "process_inputs modules Consensus ?id 0 (tx_inputs tx) db funding_verifier_default [] \<noteq> Panic"
    using room by (intro process_inputs_safe [OF assms(1,2)]) (auto intro: add_lessD1)
  ultimately show ?thesis
    using verify_inputs_safe [OF assms(2)]
    by (auto simp: process_transaction_with_dbtx_def rbind_eq_Panic Let_def split: prod.splits)
qed

end

subsection \<open>Properties\<close>

text \<open>The verifier on the amounts of all inputs and outputs, as the loops feed it.\<close>

fun add_inputs ::
  "funding_verifier \<Rightarrow> transaction_item_amounts list \<Rightarrow> (('ie, 'oe) transaction_error, funding_verifier) result" where
  "add_inputs fv [] = Ok fv"
| "add_inputs fv (a # as) = rbind (add_input fv a) (\<lambda>fv. add_inputs fv as)"

fun add_outputs ::
  "funding_verifier \<Rightarrow> transaction_item_amounts list \<Rightarrow> (('ie, 'oe) transaction_error, funding_verifier) result" where
  "add_outputs fv [] = Ok fv"
| "add_outputs fv (a # as) = rbind (add_output fv a) (\<lambda>fv. add_outputs fv as)"

definition funding_check ::
  "transaction_item_amounts list \<Rightarrow> transaction_item_amounts list \<Rightarrow> core_consensus_version
    \<Rightarrow> (('ie, 'oe) transaction_error, unit) result" where
  "funding_check ins outs version =
     rbind (add_inputs funding_verifier_default ins) (\<lambda>fv.
       rbind (add_outputs fv outs) (\<lambda>fv. verify_funding fv version))"

abbreviation sum_units :: "(transaction_item_amounts \<Rightarrow> amounts) \<Rightarrow> transaction_item_amounts list \<Rightarrow> amount_unit \<Rightarrow> nat" where
  "sum_units f as u \<equiv> (\<Sum>a\<leftarrow>as. units_of (f a) u)"

lemma units_of_less: "units_of m u < 2 ^ 64"
  using unsigned_less [of "amounts_get m u", where 'a = nat] by (simp add: units_of_def)

lemma amounts_checked_add_mut_ex:
  assumes "amounts_wf m" and "amounts_wf r" and "\<And>u. units_of m u + units_of r u < 2 ^ 64"
  shows "\<exists>s. amounts_checked_add_mut m r = Some s"
  using amounts_checked_add_mut_spec [OF assms(1,2)] assms(3)
  by (cases "amounts_checked_add_mut m r") (auto simp: not_less [symmetric])

lemma add_inputs_spec:
  assumes "fv_wf fv" and "\<forall>a\<in>set as. item_wf a"
  shows "add_inputs fv as = (Ok fv' :: (('ie, 'oe) transaction_error, _) result) \<Longrightarrow> fv_wf fv' \<and> fv_outputs fv' = fv_outputs fv
      \<and> (\<forall>u. units_of (fv_inputs fv') u = units_of (fv_inputs fv) u + sum_units ti_amounts as u)
      \<and> (\<forall>u. units_of (fv_fees fv') u = units_of (fv_fees fv) u + sum_units ti_fees as u)"
    and "(\<And>u. units_of (fv_inputs fv) u + sum_units ti_amounts as u < 2 ^ 64) \<Longrightarrow>
      (\<And>u. units_of (fv_fees fv) u + sum_units ti_fees as u < 2 ^ 64) \<Longrightarrow> \<exists>fv'. add_inputs fv as = (Ok fv' :: (('ie, 'oe) transaction_error, _) result)"
proof -
  show "fv_wf fv' \<and> fv_outputs fv' = fv_outputs fv
      \<and> (\<forall>u. units_of (fv_inputs fv') u = units_of (fv_inputs fv) u + sum_units ti_amounts as u)
      \<and> (\<forall>u. units_of (fv_fees fv') u = units_of (fv_fees fv) u + sum_units ti_fees as u)"
    if "add_inputs fv as = (Ok fv' :: (('ie, 'oe) transaction_error, _) result)"
    using assms that
  proof (induction as arbitrary: fv)
    case (Cons a as)
    then obtain fv1 where a: "add_input fv a = (Ok fv1 :: (('ie, 'oe) transaction_error, _) result)" and as: "add_inputs fv1 as = (Ok fv' :: (('ie, 'oe) transaction_error, _) result)"
      by auto
    note fv1 = add_input_Ok [OF Cons.prems(1) _ a]
    show ?case
      using Cons.IH [OF _ _ as] fv1 Cons.prems(2) by simp
  qed simp
  show "\<exists>fv'. add_inputs fv as = (Ok fv' :: (('ie, 'oe) transaction_error, _) result)"
    if "\<And>u. units_of (fv_inputs fv) u + sum_units ti_amounts as u < 2 ^ 64"
      and "\<And>u. units_of (fv_fees fv) u + sum_units ti_fees as u < 2 ^ 64"
    using assms that
  proof (induction as arbitrary: fv)
    case (Cons a as)
    have "units_of (fv_inputs fv) u + units_of (ti_amounts a) u < 2 ^ 64"
      "units_of (fv_fees fv) u + units_of (ti_fees a) u < 2 ^ 64" for u
      using Cons.prems(3,4) [of u] by simp_all
    then obtain fv1 where fv1: "add_input fv a = (Ok fv1 :: (('ie, 'oe) transaction_error, _) result)"
      using Cons.prems(1,2) amounts_checked_add_mut_ex [of "fv_inputs fv" "ti_amounts a"]
        amounts_checked_add_mut_ex [of "fv_fees fv" "ti_fees a"]
      by (auto simp: add_input_def fv_wf_def item_wf_def)
    have "fv_wf fv1" "\<And>u. units_of (fv_inputs fv1) u + sum_units ti_amounts as u < 2 ^ 64"
      "\<And>u. units_of (fv_fees fv1) u + sum_units ti_fees as u < 2 ^ 64"
      using add_input_Ok [OF Cons.prems(1) _ fv1] Cons.prems(2-4) by (simp_all add: add.assoc)
    then show ?case
      using Cons.IH [of fv1] Cons.prems(2) fv1 by simp
  qed simp
qed

text \<open>Outputs are added the way inputs are, with the two sides exchanged.\<close>

definition swap_fv :: "funding_verifier \<Rightarrow> funding_verifier" where
  "swap_fv fv = \<lparr>fv_inputs = fv_outputs fv, fv_outputs = fv_inputs fv, fv_fees = fv_fees fv\<rparr>"

lemma swap_fv_simps [simp]:
  "fv_inputs (swap_fv fv) = fv_outputs fv" "fv_outputs (swap_fv fv) = fv_inputs fv"
  "fv_fees (swap_fv fv) = fv_fees fv" "swap_fv (swap_fv fv) = fv" "fv_wf (swap_fv fv) = fv_wf fv"
  by (auto simp: swap_fv_def fv_wf_def)

lemma add_output_swap: "add_output fv a = map_ok swap_fv (add_input (swap_fv fv) a)"
  by (cases "amounts_checked_add_mut (fv_outputs fv) (ti_amounts a)";
      cases "amounts_checked_add_mut (fv_fees fv) (ti_fees a)")
    (simp_all add: add_output_def add_input_def swap_fv_def)

lemma add_outputs_swap:
  "(add_outputs fv as :: (('ie, 'oe) transaction_error, _) result)
    = map_ok swap_fv (add_inputs (swap_fv fv) as)"
proof (induction as arbitrary: fv)
  case (Cons a as)
  show ?case
    by (cases "add_input (swap_fv fv) a :: (('ie, 'oe) transaction_error, _) result")
      (simp_all add: Cons add_output_swap)
qed simp

text \<open>
  C11: \<open>FundingVerifier\<close>: a transaction is accepted exactly when no sum overflows \<open>u64\<close> and, in
  every unit, the outputs and fees are covered by the inputs, with equality before consensus
  version 2.1. The sums are over the natural numbers.
\<close>

theorem funding_check_iff:
  assumes "\<forall>a\<in>set ins. item_wf a" and "\<forall>a\<in>set outs. item_wf a"
  shows "(funding_check ins outs version :: (('ie, 'oe) transaction_error, unit) result) = Ok () \<longleftrightarrow>
    (\<forall>u. let inp = sum_units ti_amounts ins u;
             out = sum_units ti_amounts outs u + (sum_units ti_fees ins u + sum_units ti_fees outs u)
         in inp < 2 ^ 64 \<and> out < 2 ^ 64 \<and> out \<le> inp \<and> (version < (2, 1) \<longrightarrow> inp = out))"
    (is "?lhs \<longleftrightarrow> (\<forall>u. ?ok u)")
proof
  let ?d = "funding_verifier_default"
  have zero [simp]: "fv_wf ?d" "units_of (fv_inputs ?d) u = 0" "units_of (fv_outputs ?d) u = 0"
    "units_of (fv_fees ?d) u = 0" for u
    by (simp_all add: fv_wf_def funding_verifier_default_def amounts_zero_def)
  have result: "verify_funding fv2 version = (Ok () :: (('ie, 'oe) transaction_error, _) result) \<longleftrightarrow> (\<forall>u. ?ok u)"
    if fv1: "add_inputs ?d ins = (Ok fv1 :: (('ie, 'oe) transaction_error, _) result)"
      and fv2: "add_outputs fv1 outs = (Ok fv2 :: (('ie, 'oe) transaction_error, _) result)" for fv1 fv2
  proof -
    note i = add_inputs_spec(1) [OF zero(1) assms(1) fv1]
    have "add_inputs (swap_fv fv1) outs = (Ok (swap_fv fv2) :: (('ie, 'oe) transaction_error, _) result)"
      using fv2 by (auto simp: add_outputs_swap)
    from add_inputs_spec(1) [OF _ assms(2) this] i have ot: "fv_wf fv2"
      "fv_inputs fv2 = fv_inputs fv1" "\<And>u. units_of (fv_outputs fv2) u = sum_units ti_amounts outs u"
      "\<And>u. units_of (fv_fees fv2) u = sum_units ti_fees ins u + sum_units ti_fees outs u"
      by (simp_all add: funding_verifier_default_def amounts_zero_def)
    moreover have "\<And>u. units_of (fv_inputs fv1) u = sum_units ti_amounts ins u"
      using i by simp
    moreover from this have "sum_units ti_amounts ins u < 2 ^ 64" for u
      using units_of_less [of "fv_inputs fv1" u] by simp
    ultimately show ?thesis
      by (simp add: verify_funding_iff balanced_def Let_def OVERPAY_MIN_VERSION_def add.assoc)
  qed
  show "\<forall>u. ?ok u" if ?lhs
    using that result by (auto simp: funding_check_def)
  show ?lhs if ok: "\<forall>u. ?ok u"
  proof -
    have bounds: "sum_units ti_amounts ins u < 2 ^ 64" "sum_units ti_amounts outs u < 2 ^ 64"
      "sum_units ti_fees ins u < 2 ^ 64" "sum_units ti_fees ins u + sum_units ti_fees outs u < 2 ^ 64" for u
      using ok [rule_format, of u] unfolding Let_def by linarith+
    obtain fv1 where fv1: "add_inputs ?d ins = (Ok fv1 :: (('ie, 'oe) transaction_error, _) result)"
      using add_inputs_spec(2) [OF zero(1) assms(1), where 'ie = 'ie and 'oe = 'oe] bounds by auto
    note i = add_inputs_spec(1) [OF zero(1) assms(1) fv1]
    then obtain fv2 where "add_inputs (swap_fv fv1) outs = (Ok fv2 :: (('ie, 'oe) transaction_error, _) result)"
      using add_inputs_spec(2) [of "swap_fv fv1" outs, OF _ assms(2), where 'ie = 'ie and 'oe = 'oe] bounds
      by auto
    then have "add_outputs fv1 outs = (Ok (swap_fv fv2) :: (('ie, 'oe) transaction_error, _) result)"
      by (simp add: add_outputs_swap)
    then show ?thesis
      using result [OF fv1] fv1 ok by (simp add: funding_check_def)
  qed
qed

theorem funding_check_iff_witness:
  "(funding_check [\<lparr>ti_amounts = [(0, 100)], ti_fees = [(0, 1)]\<rparr>] [\<lparr>ti_amounts = [(0, 90)], ti_fees = [(0, 1)]\<rparr>]
      (2, 1) :: ((nat, nat) transaction_error, unit) result) = Ok ()"
proof -
  let ?ins = "[\<lparr>ti_amounts = [(0, 100)], ti_fees = [(0, 1)]\<rparr>]"
  let ?outs = "[\<lparr>ti_amounts = [(0, 90)], ti_fees = [(0, 1)]\<rparr>]"
  have "\<forall>a\<in>set ?ins. item_wf a" "\<forall>a\<in>set ?outs. item_wf a"
    by (simp_all add: item_wf_def amounts_wf_Cons)
  from funding_check_iff [OF this, where 'ie = nat and 'oe = nat and version = "(2, 1)"]
  show ?thesis
    by (simp add: units_of_Cons Let_def)
qed

lemma check_signatures_iff:
  "check_signatures env msg xs = Ok () \<longleftrightarrow> (\<forall>(pk, sig)\<in>set xs. te_verify_schnorr env sig msg pk)"
  by (induction env msg xs rule: check_signatures.induct) auto

lemma validate_signatures_iff:
  "validate_signatures env tx pks = Ok () \<longleftrightarrow> (\<exists>sigs. tx_signatures tx = NaiveMultisig sigs
    \<and> list_all2 (\<lambda>pk sig. te_verify_schnorr env sig (tx_hash env tx) pk) pks sigs)"
  by (auto simp: validate_signatures_def check_signatures_iff list_all2_iff
      split: transaction_signature.splits)

text \<open>
  The inputs of a transaction as its modules see them: each is handed to the module it names, in
  order, with its own out point and the database the inputs before it left, and \<open>metas\<close> is what
  the modules returned.
\<close>

inductive inputs_processed ::
  "('s, 'i, 'o, 'c, 'ie, 'oe) module_registry \<Rightarrow> txid \<Rightarrow> u64 \<Rightarrow> (module_instance_id \<times> 'i) list
    \<Rightarrow> 's module_dbs \<Rightarrow> input_meta list \<Rightarrow> 's module_dbs \<Rightarrow> bool" for modules txid where
  none: "inputs_processed modules txid idx [] db [] db"
| input: "bt_get modules mid = Some m \<Longrightarrow> sm_process_input m (db mid) input (txid, idx) = Ok (s, meta)
    \<Longrightarrow> inputs_processed modules txid (idx + 1) rest (db(mid := s)) metas db'
    \<Longrightarrow> inputs_processed modules txid idx ((mid, input) # rest) db (meta # metas) db'"

inductive_simps inputs_processed_simps:
  "inputs_processed modules txid idx [] db metas db'"
  "inputs_processed modules txid idx ((mid, input) # rest) db metas db'"

lemma inputs_processed_length:
  "inputs_processed modules txid idx ins db metas db' \<Longrightarrow> length metas = length ins"
  by (induction rule: inputs_processed.induct) simp_all

lemma process_inputs_keys:
  assumes "process_inputs modules mode txid idx ins db fv pks = Ok (db', fv', pks')"
  shows "\<exists>metas. inputs_processed modules txid idx ins db metas db' \<and> pks' = pks @ map im_pub_key metas"
  using assms
proof (induction ins arbitrary: idx db fv pks)
  case Nil
  then show ?case
    by (simp add: inputs_processed_simps)
next
  case (Cons p ins)
  obtain mid input where p: "p = (mid, input)" by (cases p)
  obtain m s meta fv1 where m: "bt_get modules mid = Some m"
    and run: "sm_process_input m (db mid) input (txid, idx) = Ok (s, meta)"
    and rest: "process_inputs modules mode txid (idx + 1) ins (db(mid := s)) fv1
      (pks @ [im_pub_key meta]) = Ok (db', fv', pks')"
    using Cons.prems by (auto simp: p get_expect_def)
  from Cons.IH [OF rest] obtain metas where
    "inputs_processed modules txid (idx + 1) ins (db(mid := s)) metas db'"
    "pks' = (pks @ [im_pub_key meta]) @ map im_pub_key metas"
    by blast
  with m run show ?case
    unfolding p by (intro exI [of _ "meta # metas"]) (simp add: inputs_processed.input)
qed

text \<open>
  C12: an accepted transaction carries one signature per input. Each input was processed by the module
  it names, and its signature verifies for the key which that module returned for it, over a hash that
  commits to everything but the signatures.
\<close>

theorem accepted_transaction_signed:
  fixes modules :: "('s, 'i, 'o, 'c, 'ie, 'oe) module_registry"
  assumes "process_transaction_with_dbtx env modules db tx version mode = Ok db'"
  shows "\<exists>db1 fv metas sigs. tx_signatures tx = NaiveMultisig sigs
    \<and> process_inputs modules mode (tx_hash env tx) 0 (tx_inputs tx) db funding_verifier_default []
        = Ok (db1, fv, map im_pub_key metas)
    \<and> inputs_processed modules (tx_hash env tx) 0 (tx_inputs tx) db metas db1
    \<and> length sigs = length (tx_inputs tx) \<and> length metas = length (tx_inputs tx)
    \<and> list_all2 (\<lambda>meta sig. te_verify_schnorr env sig (tx_hash env tx) (im_pub_key meta)) metas sigs"
proof -
  obtain db1 fv pks where ins: "process_inputs modules mode (tx_hash env tx) 0 (tx_inputs tx) db
      funding_verifier_default [] = Ok (db1, fv, pks)"
    and sig: "validate_signatures env tx pks = (Ok () :: (('ie, 'oe) transaction_error, unit) result)"
    using assms by (auto simp: process_transaction_with_dbtx_def Let_def)
  obtain sigs where sigs: "tx_signatures tx = NaiveMultisig sigs"
    "list_all2 (\<lambda>pk sig. te_verify_schnorr env sig (tx_hash env tx) pk) pks sigs"
    using sig unfolding validate_signatures_iff by blast
  obtain metas where metas: "inputs_processed modules (tx_hash env tx) 0 (tx_inputs tx) db metas db1"
    "pks = map im_pub_key metas"
    using process_inputs_keys [OF ins] by auto
  show ?thesis
    using ins sigs(1) metas inputs_processed_length [OF metas(1)] list_all2_lengthD [OF sigs(2)] sigs(2)
    by (intro exI [of _ db1] exI [of _ fv] exI [of _ metas] exI [of _ sigs]) (simp add: list_all2_map1)
qed

text \<open>A module, an environment and a transaction small enough to evaluate.\<close>

definition sample_module :: "(unit, u8, unit, unit, unit, unit) server_module" where
  "sample_module =
     \<lparr>sm_process_consensus_item = \<lambda>_ _ _. Err [], sm_verify_input = \<lambda>_. Ok (),
      sm_process_input = \<lambda>s i p. Ok (s, \<lparr>im_amount = item_amounts_zero, im_pub_key = [i]\<rparr>),
      sm_process_output = \<lambda>s _ p. Ok (s, item_amounts_zero),
      sm_verify_input_submission = \<lambda>_ _. Ok (), sm_verify_output_submission = \<lambda>_ _ _. Ok (),
      sm_audit = \<lambda>s a _. (s, a)\<rparr>"

definition sample_env :: "(u8, unit) tx_env" where
  "sample_env =
     \<lparr>te_hash = \<lambda>bs. bs, te_benc = big_enc, te_enc_input = enc_pair (enc_num big_enc) enc_u8,
      te_enc_output = enc_pair (enc_num big_enc) enc_unit,
      te_verify_schnorr = \<lambda>sig msg pk. sig = pk @ msg\<rparr>"

definition sample_tx :: "signature list \<Rightarrow> (u8, unit) transaction" where
  "sample_tx sigs =
     \<lparr>tx_inputs = [(3, 7)], tx_outputs = [(3, ())], tx_nonce = [0, 0, 0, 0, 0, 0, 0, 1],
      tx_signatures = NaiveMultisig sigs\<rparr>"

lemma sample_tx_hash: "tx_hash sample_env (sample_tx sigs) = [1, 3, 7, 1, 3, 0, 0, 0, 0, 0, 0, 0, 1]"
  by (simp add: tx_hash_def tx_hash_from_parts_def sample_env_def sample_tx_def enc_vec_def enc_num_def
      big_enc_def enc_array_def enc_pair_def enc_u8_def enc_unit_def)

lemma sample_tx_accepted:
  "process_transaction_with_dbtx sample_env [(3, sample_module)] (\<lambda>_. ())
     (sample_tx [[7, 1, 3, 7, 1, 3, 0, 0, 0, 0, 0, 0, 0, 1]]) (2, 1) Consensus = Ok (\<lambda>_. ())"
proof -
  let ?ms = "[(3, sample_module)]" and ?d = "funding_verifier_default"
  have m: "get_expect ?ms 3 = Ok sample_module"
    by (simp add: get_expect_def)
  have zero: "ti_amounts item_amounts_zero = []" "ti_fees item_amounts_zero = []"
    by (simp_all add: item_amounts_zero_def amounts_zero_def)
  have add: "add_input ?d item_amounts_zero = Ok ?d" "add_output ?d item_amounts_zero = Ok ?d"
    by (simp_all add: add_input_def add_output_def zero)
  have "verify_inputs ?ms [(3, 7)] = Ok ()"
    by (simp add: m) (simp add: sample_module_def)
  moreover have "process_inputs ?ms Consensus h 0 [(3, 7)] (\<lambda>_. ()) ?d [] = Ok (\<lambda>_. (), ?d, [[7]])" for h
    by (simp add: m) (simp add: sample_module_def add fun_eq_iff)
  moreover have "process_outputs ?ms Consensus h 0 [(3, ())] (\<lambda>_. ()) ?d = Ok (\<lambda>_. (), ?d)" for h
    by (simp add: m) (simp add: sample_module_def add fun_eq_iff)
  moreover have "verify_funding ?d (2, 1) = (Ok () :: ((unit, unit) transaction_error, unit) result)"
    by (simp add: verify_funding_def funding_verifier_default_def amounts_zero_def
        amounts_checked_add_def)
  moreover have "validate_signatures sample_env (sample_tx [[7, 1, 3, 7, 1, 3, 0, 0, 0, 0, 0, 0, 0, 1]]) [[7]]
      = (Ok () :: ((unit, unit) transaction_error, unit) result)"
  proof -
    have "tx_signatures (sample_tx s) = NaiveMultisig s"
      "te_verify_schnorr sample_env sig msg pk = (sig = pk @ msg)" for s sig msg pk
      by (simp_all add: sample_tx_def sample_env_def)
    then show ?thesis
      by (simp add: validate_signatures_def sample_tx_hash)
  qed
  moreover have "tx_inputs (sample_tx s) = [(3, 7)]" "tx_outputs (sample_tx s) = [(3, ())]" for s
    by (simp_all add: sample_tx_def)
  ultimately show ?thesis
    unfolding process_transaction_with_dbtx_def Let_def
    by (simp only: rbind.simps prod.case)
qed

theorem accepted_transaction_signed_witness:
  "\<exists>meta sig. tx_signatures (sample_tx [[7, 1, 3, 7, 1, 3, 0, 0, 0, 0, 0, 0, 0, 1]]) = NaiveMultisig [sig]
    \<and> sm_process_input sample_module () 7 (tx_hash sample_env (sample_tx [sig]), 0) = Ok ((), meta)
    \<and> te_verify_schnorr sample_env sig (tx_hash sample_env (sample_tx [sig])) (im_pub_key meta)"
  using accepted_transaction_signed [OF sample_tx_accepted]
  by (auto simp: sample_tx_def inputs_processed_simps)

text \<open>What is hashed.\<close>

definition tx_preimage :: "('i, 'o) tx_env \<Rightarrow> ('i, 'o) transaction \<Rightarrow> bytes" where
  "tx_preimage env t =
     enc_vec (te_benc env) (te_enc_input env) (tx_inputs t)
     @ enc_vec (te_benc env) (te_enc_output env) (tx_outputs t) @ enc_array (tx_nonce t)"

text \<open>
  C13: the transaction id commits to the inputs, outputs and nonce: two transactions with the same id
  differ at most in their signatures, unless the hash function collides on their encodings.
\<close>

theorem tx_hash_commits:
  assumes "codec (te_benc env) bdec (\<lambda>_. True)" and "codec (te_enc_input env) di vi"
    and "codec (te_enc_output env) dt vo"
    and "list_all vi (tx_inputs t) \<and> list_all vo (tx_outputs t) \<and> length (tx_nonce t) = 8
      \<and> length (tx_inputs t) < 2 ^ 64 \<and> length (tx_outputs t) < 2 ^ 64"
    and "list_all vi (tx_inputs u) \<and> list_all vo (tx_outputs u) \<and> length (tx_nonce u) = 8
      \<and> length (tx_inputs u) < 2 ^ 64 \<and> length (tx_outputs u) < 2 ^ 64"
    and "inj_on (te_hash env) {tx_preimage env t, tx_preimage env u}"
    and "tx_hash env t = tx_hash env u"
  shows "tx_inputs t = tx_inputs u \<and> tx_outputs t = tx_outputs u \<and> tx_nonce t = tx_nonce u"
proof -
  note ci = codec_vec [OF assms(1,2), of 1, simplified]
  note co = codec_vec [OF assms(1,3), of 1, simplified]
  have hash: "tx_hash env x = te_hash env (tx_preimage env x)" for x
    by (simp only: tx_hash_def tx_hash_from_parts_def tx_preimage_def)
  have "tx_preimage env t = tx_preimage env u"
    by (rule inj_onD [OF assms(6) assms(7) [unfolded hash]]) simp_all
  note eq = this [unfolded tx_preimage_def]
  from codec.prefix_free [OF ci _ _ eq] assms(4,5)
  have i: "tx_inputs t = tx_inputs u"
    and rest: "enc_vec (te_benc env) (te_enc_output env) (tx_outputs t) @ enc_array (tx_nonce t)
      = enc_vec (te_benc env) (te_enc_output env) (tx_outputs u) @ enc_array (tx_nonce u)"
    by simp_all
  from codec.prefix_free [OF co _ _ rest] assms(4,5) show ?thesis
    using i by (simp add: enc_array_def)
qed

theorem tx_hash_commits_witness:
  "tx_inputs (sample_tx [[1]]) = tx_inputs (sample_tx [[2]])"
proof -
  have n16: "codec (enc_num big_enc :: u16 encoder) (dec_num big_dec) (\<lambda>_. True)"
    by (rule codec_num [OF big.codec_axioms]) simp
  have "codec (te_benc sample_env) big_dec (\<lambda>_. True)"
    and "codec (te_enc_input sample_env) (dec_pair (dec_num big_dec) dec_u8) (\<lambda>(x, y). True \<and> True)"
    and "codec (te_enc_output sample_env) (dec_pair (dec_num big_dec) dec_unit) (\<lambda>(x, y). True \<and> True)"
    using big.codec_axioms codec_pair [OF n16 u8.codec_axioms] codec_pair [OF n16 unit.codec_axioms]
    by (simp_all add: sample_env_def)
  from tx_hash_commits [OF this, of "sample_tx [[1]]" "sample_tx [[2]]"] show ?thesis
    by (simp add: sample_tx_def sample_tx_hash inj_on_def sample_env_def)
qed

end
