(* ===== verification/Balance_Sheet.thy ===== *)
theory Balance_Sheet
  imports ServerModule Database
begin

section \<open>The balance sheet\<close>

text \<open>
  \<open>fedimint-core/src/module/audit.rs\<close>. Every module adds one item per entry of its tables,
  a signed number of millisatoshis; the net assets are their checked sum. The name of an item is
  only printed and is left out.
\<close>

type_synonym i64 = "64 word"
type_synonym audit = "audit_item list"

definition add_items ::
  "('k, 'v) btree \<Rightarrow> module_instance_id \<Rightarrow> ('k \<Rightarrow> 'v \<Rightarrow> i64) \<Rightarrow> audit \<Rightarrow> audit" where
  "add_items table module_instance_id to_milli_sat items =
     items @ map (\<lambda>(key, value). \<lparr>ai_milli_sat = to_milli_sat key value,
       ai_module_instance_id = Some module_instance_id\<rparr>) table"

fun try_fold_add :: "i64 \<Rightarrow> i64 list \<Rightarrow> i64 option" where
  "try_fold_add acc [] = Some acc"
| "try_fold_add acc (x # xs) =
     (case checked_sadd acc x of None \<Rightarrow> None | Some acc' \<Rightarrow> try_fold_add acc' xs)"

definition calculate_net_assets :: "audit \<Rightarrow> i64 option" where
  "calculate_net_assets items = try_fold_add 0 (map ai_milli_sat items)"

definition net_assets :: "audit \<Rightarrow> audit_item option" where
  "net_assets items = map_option (\<lambda>n. \<lparr>ai_milli_sat = n, ai_module_instance_id = None\<rparr>)
     (calculate_net_assets items)"

record module_summary =
  ms_net_assets :: i64
  ms_kind :: string

record audit_summary =
  as_net_assets :: i64
  as_module_summaries :: "(module_instance_id, module_summary) btree"

definition create_empty_module_placeholder :: "module_instance_id \<Rightarrow> audit_item" where
  "create_empty_module_placeholder mid = \<lparr>ai_milli_sat = 0, ai_module_instance_id = Some mid\<rparr>"

text \<open>
  \<open>into_group_map\<close> visits the groups in an unspecified order; the summaries are collected into
  an ordered map, so the result does not depend on it.
\<close>

definition module_ids :: "audit \<Rightarrow> module_instance_id list" where
  "module_ids items = remdups (List.map_filter ai_module_instance_id items)"

definition module_items :: "module_instance_id \<Rightarrow> audit \<Rightarrow> audit" where
  "module_items mid items = filter (\<lambda>item. ai_module_instance_id item = Some mid) items"

definition generate_module_summaries ::
  "audit \<Rightarrow> (module_instance_id, string) btree \<Rightarrow> ('e, (module_instance_id, module_summary) btree) result" where
  "generate_module_summaries items kinds =
     map_ok bt_of_list (traverse (\<lambda>mid.
       rbind (expect (bt_get kinds mid)) (\<lambda>kind.
         rbind (expect (calculate_net_assets (module_items mid items))) (\<lambda>n.
           Ok (mid, \<lparr>ms_net_assets = n, ms_kind = kind\<rparr>)))) (module_ids items))"

definition from_audit ::
  "audit \<Rightarrow> (module_instance_id, string) btree \<Rightarrow> ('e, audit_summary) result" where
  "from_audit items kinds =
     (let placeholders = map create_empty_module_placeholder (bt_keys kinds)
      in rbind (expect (calculate_net_assets items)) (\<lambda>n.
           rbind (generate_module_summaries (items @ placeholders) kinds) (\<lambda>summaries.
             Ok \<lparr>as_net_assets = n, as_module_summaries = summaries\<rparr>)))"

subsection \<open>Sums\<close>

abbreviation net :: "audit \<Rightarrow> int" where
  "net items \<equiv> (\<Sum>item\<leftarrow>items. sint (ai_milli_sat item))"

lemma sint_of_nat_small: "n < 2 ^ 63 \<Longrightarrow> sint (of_nat n :: i64) = int n"
  using sint_small [of "int n", where 'a = 64] by simp

lemma sint_minus_of_nat_small:
  assumes "n < 2 ^ 63"
  shows "sint (- of_nat n :: i64) = - int n"
proof -
  have "- (of_nat n) = (word_of_int (- int n) :: i64)" by simp
  then show ?thesis
    using sint_small [of "- int n", where 'a = 64] assms by simp
qed

lemma try_fold_add_Some: "try_fold_add acc xs = Some n \<Longrightarrow> sint n = sint acc + (\<Sum>x\<leftarrow>xs. sint x)"
  by (induction acc xs rule: try_fold_add.induct) (auto simp: checked_simps split: option.splits)

lemma calculate_net_assets_Some: "calculate_net_assets items = Some n \<Longrightarrow> sint n = net items"
  by (auto simp: calculate_net_assets_def comp_def dest: try_fold_add_Some)

lemma try_fold_add_succeeds:
  assumes "\<bar>sint acc\<bar> + (\<Sum>x\<leftarrow>xs. \<bar>sint x\<bar>) < 2 ^ 63"
  shows "\<exists>n. try_fold_add acc xs = Some n"
  using assms
proof (induction acc xs rule: try_fold_add.induct)
  case (2 acc x xs)
  have nonneg: "0 \<le> (\<Sum>x\<leftarrow>xs. \<bar>sint x\<bar>)"
    by (intro sum_list_nonneg) auto
  then have "checked_sadd acc x = Some (acc + x)"
    using "2.prems" by (auto simp: checked_sadd_def)
  moreover from this have "sint (acc + x) = sint acc + sint x"
    by (simp only: checked_simps)
  ultimately show ?case
    using "2.IH" [of "acc + x"] "2.prems" by simp
qed simp

lemma calculate_net_assets_succeeds:
  "(\<Sum>item\<leftarrow>items. \<bar>sint (ai_milli_sat item)\<bar>) < 2 ^ 63 \<Longrightarrow> \<exists>n. calculate_net_assets items = Some n"
  by (simp add: calculate_net_assets_def comp_def try_fold_add_succeeds)

lemma calculate_net_assets_eq:
  assumes "(\<Sum>item\<leftarrow>items. \<bar>sint (ai_milli_sat item)\<bar>) < 2 ^ 63"
  obtains n where "calculate_net_assets items = Some n" "sint n = net items"
  using calculate_net_assets_succeeds [OF assms] calculate_net_assets_Some by blast

lemma net_add_items:
  "net (add_items table mid f items) = net items + (\<Sum>(k, v)\<leftarrow>table. sint (f k v))"
  by (simp add: add_items_def comp_def case_prod_beta')

text \<open>Grouping by module splits the sum.\<close>

lemma net_groups:
  assumes "\<forall>item\<in>set items. ai_module_instance_id item \<noteq> None" and "distinct ids"
    and "set (List.map_filter ai_module_instance_id items) \<subseteq> set ids"
  shows "(\<Sum>mid\<leftarrow>ids. net (module_items mid items)) = net items"
  using assms
proof (induction items)
  case Nil
  then show ?case by (simp add: module_items_def sum_list_0)
next
  case (Cons item items)
  obtain mid where mid: "ai_module_instance_id item = Some mid"
    using Cons.prems(1) by auto
  have "mid \<in> set ids"
    using Cons.prems(3) mid by (simp add: List.map_filter_def)
  then have one: "(\<Sum>k\<leftarrow>ids. if mid = k then sint (ai_milli_sat item) else 0) = sint (ai_milli_sat item)"
    using Cons.prems(2) by (simp add: sum_list_distinct_conv_sum_set)
  have "(\<Sum>k\<leftarrow>ids. net (module_items k (item # items)))
      = (\<Sum>k\<leftarrow>ids. (if mid = k then sint (ai_milli_sat item) else 0) + net (module_items k items))"
    by (intro arg_cong [of _ _ sum_list] map_cong) (auto simp: module_items_def mid)
  also have "\<dots> = sint (ai_milli_sat item) + (\<Sum>k\<leftarrow>ids. net (module_items k items))"
    using one by (simp add: sum_list_addf)
  also have "(\<Sum>k\<leftarrow>ids. net (module_items k items)) = net items"
    using Cons.prems mid by (intro Cons.IH) (simp_all add: List.map_filter_simps(1))
  finally show ?case by simp
qed

lemma abs_module_items_le:
  "(\<Sum>item\<leftarrow>module_items mid items. \<bar>sint (ai_milli_sat item)\<bar>) \<le> (\<Sum>item\<leftarrow>items. \<bar>sint (ai_milli_sat item)\<bar>)"
  unfolding module_items_def by (induction items) auto

lemma placeholders_neutral:
  "net (map create_empty_module_placeholder ids) = 0"
  "net (module_items mid (items @ map create_empty_module_placeholder ids)) = net (module_items mid items)"
  "(\<Sum>item\<leftarrow>map create_empty_module_placeholder ids. \<bar>sint (ai_milli_sat item)\<bar>) = 0"
  unfolding module_items_def
  by (induction ids) (simp_all add: create_empty_module_placeholder_def)

lemma set_module_ids: "set (module_ids items) = {mid. \<exists>item\<in>set items. ai_module_instance_id item = Some mid}"
  by (force simp: module_ids_def List.map_filter_def image_iff)

text \<open>The summary of a module is the sum of its items.\<close>

definition summary_of :: "(module_instance_id, string) btree \<Rightarrow> audit \<Rightarrow> module_instance_id \<Rightarrow> module_summary" where
  "summary_of kinds items mid =
     \<lparr>ms_net_assets = word_of_int (net (module_items mid items)), ms_kind = the (bt_get kinds mid)\<rparr>"

lemma generate_module_summaries_Ok:
  assumes small: "(\<Sum>item\<leftarrow>items. \<bar>sint (ai_milli_sat item)\<bar>) < 2 ^ 63"
    and known: "set (module_ids items) \<subseteq> dom (bt_get kinds)"
  shows "generate_module_summaries items kinds
    = (Ok (bt_of_list (map (\<lambda>mid. (mid, summary_of kinds items mid)) (module_ids items)))
        :: ('e, (module_instance_id, module_summary) btree) result)"
proof -
  have "rbind (expect (bt_get kinds mid)) (\<lambda>kind.
         rbind (expect (calculate_net_assets (module_items mid items))) (\<lambda>n.
           Ok (mid, \<lparr>ms_net_assets = n, ms_kind = kind\<rparr>)))
      = (Ok (mid, summary_of kinds items mid) :: ('e, _) result)" if mid: "mid \<in> set (module_ids items)" for mid
  proof -
    have "(\<Sum>item\<leftarrow>module_items mid items. \<bar>sint (ai_milli_sat item)\<bar>) < 2 ^ 63"
      using abs_module_items_le [of mid items] small by linarith
    then obtain n where n: "calculate_net_assets (module_items mid items) = Some n" "sint n = net (module_items mid items)"
      by (rule calculate_net_assets_eq)
    then have "word_of_int (net (module_items mid items)) = n"
      by (simp flip: n(2))
    moreover obtain kind where "bt_get kinds mid = Some kind"
      using mid known by auto
    ultimately show ?thesis
      by (simp add: n(1) summary_of_def)
  qed
  then show ?thesis
    unfolding generate_module_summaries_def by (subst traverse_Ok) auto
qed

text \<open>
  C28: the audit summary never panics as long as the absolute amounts of the items fit in
  \<open>i64\<close> and every item belongs to a known module. It then reports the exact net assets, has
  one summary for every module, also for those without items, each the sum of the module's items,
  and the summaries add up to the net assets.
\<close>

theorem audit_summary_balances:
  assumes small: "(\<Sum>item\<leftarrow>items. \<bar>sint (ai_milli_sat item)\<bar>) < 2 ^ 63"
    and known: "\<forall>item\<in>set items. \<exists>mid\<in>dom (bt_get kinds). ai_module_instance_id item = Some mid"
    and wf: "bt_wf kinds"
  shows "\<exists>s. from_audit items kinds = (Ok s :: ('e, audit_summary) result)
    \<and> sint (as_net_assets s) = net items
    \<and> bt_keys (as_module_summaries s) = bt_keys kinds
    \<and> (\<forall>mid ms. bt_get (as_module_summaries s) mid = Some ms
        \<longrightarrow> bt_get kinds mid = Some (ms_kind ms) \<and> sint (ms_net_assets ms) = net (module_items mid items))
    \<and> (\<Sum>(mid, ms)\<leftarrow>as_module_summaries s. sint (ms_net_assets ms)) = sint (as_net_assets s)"
proof -
  let ?all = "items @ map create_empty_module_placeholder (bt_keys kinds)"
  let ?ids = "module_ids ?all"
  define sums where "sums = bt_of_list (map (\<lambda>mid. (mid, summary_of kinds ?all mid)) ?ids)"
  have ids: "set ?ids = dom (bt_get kinds)"
    using known by (force simp: set_module_ids create_empty_module_placeholder_def bt_keys_def
      dom_map_of_conv_image_fst)
  have small': "(\<Sum>item\<leftarrow>?all. \<bar>sint (ai_milli_sat item)\<bar>) < 2 ^ 63"
    using small placeholders_neutral(3) [of "bt_keys kinds"] by simp
  obtain n where n: "calculate_net_assets items = Some n" "sint n = net items"
    using small by (rule calculate_net_assets_eq)
  have "generate_module_summaries ?all kinds = (Ok sums :: ('e, _) result)"
    unfolding sums_def using small' ids by (intro generate_module_summaries_Ok) auto
  then have Ok: "from_audit items kinds = (Ok \<lparr>as_net_assets = n, as_module_summaries = sums\<rparr> :: ('e, _) result)"
    by (simp add: from_audit_def n(1))
  have map: "map_of sums = map_of (map (\<lambda>mid. (mid, summary_of kinds ?all mid)) ?ids)"
    unfolding sums_def by (intro map_of_bt_of_list) (simp add: comp_def module_ids_def)
  have dom: "dom (map_of sums) = dom (bt_get kinds)"
    unfolding map ids [symmetric] by (auto simp: dom_map_of_conv_image_fst image_image)
  have wfs: "bt_wf sums"
    by (simp add: sums_def)
  have keys: "bt_keys sums = bt_keys kinds"
    unfolding bt_keys_def using wfs wf dom
    by (intro strict_sorted_equal) (auto simp: bt_wf_def dom_map_of_conv_image_fst)
  have each: "bt_get kinds mid = Some (ms_kind ms) \<and> sint (ms_net_assets ms) = net (module_items mid items)"
    if "bt_get sums mid = Some ms" for mid ms
  proof -
    from that have mid: "mid \<in> dom (bt_get kinds)" and ms: "ms = summary_of kinds ?all mid"
      using dom map_of_SomeD [OF that [unfolded map]] by auto
    have "(\<Sum>item\<leftarrow>module_items mid items. \<bar>sint (ai_milli_sat item)\<bar>) < 2 ^ 63"
      using abs_module_items_le [of mid items] small by linarith
    then obtain k where "calculate_net_assets (module_items mid items) = Some k"
      and k: "sint k = net (module_items mid items)"
      by (rule calculate_net_assets_eq)
    then have "sint (word_of_int (net (module_items mid items)) :: i64) = net (module_items mid items)"
      by (simp flip: k)
    then show ?thesis
      using mid by (auto simp: ms summary_of_def placeholders_neutral)
  qed
  have "(\<Sum>(mid, ms)\<leftarrow>sums. sint (ms_net_assets ms)) = (\<Sum>mid\<leftarrow>bt_keys sums. net (module_items mid items))"
    unfolding bt_keys_def map_map comp_def using each wfs
    by (intro arg_cong [of _ _ sum_list] map_cong) (auto simp: bt.entries_distinct)
  also have "\<dots> = net items"
    unfolding keys using known bt.entries_distinct [OF wf]
    by (intro net_groups) (force simp: bt_keys_def List.map_filter_def dom_map_of_conv_image_fst)+
  finally show ?thesis
    using Ok n keys each by auto
qed

theorem audit_summary_balances_witness:
  "\<exists>s. from_audit [\<lparr>ai_milli_sat = - 5, ai_module_instance_id = Some 1\<rparr>,
       \<lparr>ai_milli_sat = 7, ai_module_instance_id = Some 2\<rparr>] [(0, ''ln''), (1, ''mint''), (2, ''wallet'')]
     = (Ok s :: (unit, audit_summary) result) \<and> sint (as_net_assets s) = 2"
  using audit_summary_balances [where items = "[\<lparr>ai_milli_sat = - 5, ai_module_instance_id = Some 1\<rparr>,
       \<lparr>ai_milli_sat = 7, ai_module_instance_id = Some 2\<rparr>]" and kinds = "[(0, ''ln''), (1, ''mint''), (2, ''wallet'')]"
      and 'e = unit]
  by (auto simp: bt_wf_def dom_def)

end
