(* ===== verification/Tbs.thy ===== *)
theory Tbs
  imports Complex_Main Encoding
begin

section \<open>Threshold blind signatures\<close>

text \<open>
  The crate \<open>crypto/tbs/src/lib.rs\<close>. The curve comes from the crate \<open>bls12_381\<close>: its
  scalars are a field, its two groups are commutative groups that the scalars act on, and a
  \<open>curve\<close> collects the operations of the crate that the code calls. What the code relies on is
  \<open>curve_ok\<close>: both actions are vector spaces and the pairing is bilinear, which are the
  documented laws of the crate.

  The lemmas end in the correctness of the scheme: a threshold of the shares of a polynomial, of
  any peers, interpolates to the share at zero.
\<close>

subsection \<open>The curve\<close>

record ('s, 'g1, 'g2, 'gt) curve =
  g1_scale :: "'s \<Rightarrow> 'g1 \<Rightarrow> 'g1"
  g2_scale :: "'s \<Rightarrow> 'g2 \<Rightarrow> 'g2"
  g1_generator :: 'g1
  g2_generator :: 'g2
  pairing :: "'g1 \<Rightarrow> 'g2 \<Rightarrow> 'gt"
  g1_random :: "bytes \<Rightarrow> 'g1"
  g2_random :: "bytes \<Rightarrow> 'g2"
  scalar_random :: "bytes \<Rightarrow> 's"
  g1_to_compressed :: "'g1 \<Rightarrow> bytes"
  g2_to_compressed :: "'g2 \<Rightarrow> bytes"
  sha3_256 :: "bytes \<Rightarrow> bytes"
  sha256 :: "bytes \<Rightarrow> bytes"

definition invert :: "'s::field \<Rightarrow> 's option" where
  "invert x = (if x = 0 then None else Some (inverse x))"

subsection \<open>The scheme\<close>

definition HASH_TAG :: bytes where
  "HASH_TAG = [84, 66, 83, 95, 66, 76, 83, 49, 50, 45, 51, 56, 49, 95]"

definition hash_bytes_to_g1 :: "('s, 'g1, 'g2, 'gt) curve \<Rightarrow> bytes \<Rightarrow> 'g1" where
  "hash_bytes_to_g1 C data = g1_random C (sha3_256 C (HASH_TAG @ data))"

definition message_from_bytes :: "('s, 'g1, 'g2, 'gt) curve \<Rightarrow> bytes \<Rightarrow> 'g1" where
  "message_from_bytes C msg = hash_bytes_to_g1 C msg"

definition SHA256_TAG :: bytes where
  "SHA256_TAG = [70, 69, 68, 73, 77, 73, 78, 84, 95, 84, 66, 83, 95, 66, 76, 83, 49, 50, 95, 51, 56, 49,
     95, 77, 69, 83, 83, 65, 71, 69]"

definition message_from_bytes_sha256 :: "('s, 'g1, 'g2, 'gt) curve \<Rightarrow> bytes \<Rightarrow> 'g1" where
  "message_from_bytes_sha256 C data = g1_random C (sha256 C (SHA256_TAG @ data))"

definition derive_pk_share :: "('s, 'g1, 'g2, 'gt) curve \<Rightarrow> 's \<Rightarrow> 'g2" where
  "derive_pk_share C sk = g2_scale C sk (g2_generator C)"

definition blind_message :: "('s, 'g1, 'g2, 'gt) curve \<Rightarrow> 'g1 \<Rightarrow> 's \<Rightarrow> 'g1" where
  "blind_message C msg blinding_key = g1_scale C blinding_key msg"

definition sign_message :: "('s, 'g1, 'g2, 'gt) curve \<Rightarrow> 'g1 \<Rightarrow> 's \<Rightarrow> 'g1" where
  "sign_message C msg sks = g1_scale C sks msg"

definition verify_signature_share :: "('s, 'g1, 'g2, 'gt) curve \<Rightarrow> 'g1 \<Rightarrow> 'g1 \<Rightarrow> 'g2 \<Rightarrow> bool" where
  "verify_signature_share C msg sig pk \<longleftrightarrow> pairing C msg pk = pairing C sig (g2_generator C)"

definition lagrange_multipliers :: "'s::field list \<Rightarrow> ('e, 's list) result" where
  "lagrange_multipliers scalars =
     traverse (\<lambda>i.
       rbind (traverse (\<lambda>j. rbind (expect (invert (j - i))) (\<lambda>v. Ok (j * v))) (filter (\<lambda>j. j \<noteq> i) scalars))
         (\<lambda>factors. expect (reduce (*) factors))) scalars"

text \<open>
  \<open>peer + 1\<close> is computed on \<open>u64\<close> and then taken into the field. The two aggregations
  differ only in the group.
\<close>

definition share_scalar :: "u64 \<Rightarrow> 's::field" where
  "share_scalar peer = of_nat (unat (peer + 1))"

definition aggregate_signature_shares ::
  "('s::field, 'g1::ab_group_add, 'g2, 'gt) curve \<Rightarrow> (u64, 'g1) btree \<Rightarrow> ('e, 'g1) result" where
  "aggregate_signature_shares C shares =
     (if length shares = 1 then Ok (hd (bt_values shares))
      else rbind (lagrange_multipliers (map share_scalar (bt_keys shares))) (\<lambda>ms.
        expect (reduce (+) (map (\<lambda>(m, share). g1_scale C m share) (zip ms (bt_values shares))))))"

definition aggregate_public_key_shares ::
  "('s::field, 'g1, 'g2::ab_group_add, 'gt) curve \<Rightarrow> (u64, 'g2) btree \<Rightarrow> ('e, 'g2) result" where
  "aggregate_public_key_shares C shares =
     (if length shares = 1 then Ok (hd (bt_values shares))
      else rbind (lagrange_multipliers (map share_scalar (bt_keys shares))) (\<lambda>ms.
        expect (reduce (+) (map (\<lambda>(m, share). g2_scale C m share) (zip ms (bt_values shares))))))"

definition verify_blinded_signature :: "('s, 'g1, 'g2, 'gt) curve \<Rightarrow> 'g1 \<Rightarrow> 'g1 \<Rightarrow> 'g2 \<Rightarrow> bool" where
  "verify_blinded_signature C msg sig pk \<longleftrightarrow> pairing C msg pk = pairing C sig (g2_generator C)"

definition unblind_signature ::
  "('s::field, 'g1, 'g2, 'gt) curve \<Rightarrow> 's \<Rightarrow> 'g1 \<Rightarrow> ('e, 'g1) result" where
  "unblind_signature C blinding_key blinded_sig =
     rbind (expect (invert blinding_key)) (\<lambda>v. Ok (g1_scale C v blinded_sig))"

definition tbs_verify :: "('s, 'g1, 'g2, 'gt) curve \<Rightarrow> 'g1 \<Rightarrow> 'g1 \<Rightarrow> 'g2 \<Rightarrow> bool" where
  "tbs_verify C msg sig pk \<longleftrightarrow> pairing C msg pk = pairing C sig (g2_generator C)"

subsection \<open>What the code relies on\<close>

definition curve_ok :: "('s::field, 'g1::ab_group_add, 'g2::ab_group_add, 'gt) curve \<Rightarrow> bool" where
  "curve_ok C \<longleftrightarrow> vector_space (g1_scale C) \<and> vector_space (g2_scale C)
     \<and> (\<forall>s a b. pairing C (g1_scale C s a) b = pairing C a (g2_scale C s b))"

text \<open>The field has more elements than there are peer numbers.\<close>

definition scalars_ok :: "'s::field itself \<Rightarrow> bool" where
  "scalars_ok _ \<longleftrightarrow> inj_on (of_nat :: nat \<Rightarrow> 's) {..<2 ^ 64}"

subsection \<open>Lagrange interpolation at zero\<close>

definition lagrange_basis :: "'s::field set \<Rightarrow> 's \<Rightarrow> 's" where
  "lagrange_basis S i = (\<Prod>j\<in>S - {i}. j / (j - i))"

definition interpolate :: "'s::field set \<Rightarrow> ('s \<Rightarrow> 's) \<Rightarrow> 's" where
  "interpolate S f = (\<Sum>i\<in>S. f i * lagrange_basis S i)"

text \<open>Polynomial functions of degree less than \<open>n\<close>.\<close>

definition is_poly :: "nat \<Rightarrow> ('s::field \<Rightarrow> 's) \<Rightarrow> bool" where
  "is_poly n f \<longleftrightarrow> (\<exists>c. \<forall>x. f x = (\<Sum>k<n. c k * x ^ k))"

lemma is_poly_const: "is_poly (Suc n) (\<lambda>x. a)"
  unfolding is_poly_def
  by (rule exI [of _ "\<lambda>k. if k = 0 then a else 0"])
    (simp add: sum.lessThan_Suc_shift del: sum.lessThan_Suc)

lemma is_poly_add: "is_poly n f \<Longrightarrow> is_poly n g \<Longrightarrow> is_poly n (\<lambda>x. f x + g x)"
  unfolding is_poly_def
proof (elim exE)
  fix c d assume "\<forall>x. f x = (\<Sum>k<n. c k * x ^ k)" "\<forall>x. g x = (\<Sum>k<n. d k * x ^ k)"
  then show "\<exists>e. \<forall>x. f x + g x = (\<Sum>k<n. e k * x ^ k)"
    by (intro exI [of _ "\<lambda>k. c k + d k"]) (simp add: distrib_right sum.distrib)
qed

lemma is_poly_cmult: "is_poly n f \<Longrightarrow> is_poly n (\<lambda>x. a * f x)"
  unfolding is_poly_def
proof (elim exE)
  fix c assume "\<forall>x. f x = (\<Sum>k<n. c k * x ^ k)"
  then show "\<exists>e. \<forall>x. a * f x = (\<Sum>k<n. e k * x ^ k)"
    by (intro exI [of _ "\<lambda>k. a * c k"]) (simp add: sum_distrib_left mult.assoc)
qed

lemma is_poly_Suc: "is_poly n f \<Longrightarrow> is_poly (Suc n) f"
  unfolding is_poly_def
proof (elim exE)
  fix c assume "\<forall>x. f x = (\<Sum>k<n. c k * x ^ k)"
  then show "\<exists>e. \<forall>x. f x = (\<Sum>k<Suc n. e k * x ^ k)"
    by (intro exI [of _ "\<lambda>k. if k < n then c k else 0"]) simp
qed

lemma is_poly_split:
  assumes "is_poly (Suc n) f"
  obtains a g where "is_poly n g" "\<And>x. f x = a + x * g x"
proof -
  obtain c where c: "\<And>x. f x = (\<Sum>k<Suc n. c k * x ^ k)"
    using assms unfolding is_poly_def by blast
  define g where "g x = (\<Sum>k<n. c (Suc k) * x ^ k)" for x
  have "is_poly n g"
    unfolding is_poly_def g_def by (rule exI [of _ "\<lambda>k. c (Suc k)"]) simp
  moreover have "f x = c 0 + x * g x" for x
    by (simp add: c g_def sum.lessThan_Suc_shift sum_distrib_left ac_simps del: sum.lessThan_Suc)
  ultimately show thesis by (rule that)
qed

text \<open>Dividing a polynomial by the linear factor of a point.\<close>

lemma is_poly_factor:
  assumes "is_poly (Suc n) f"
  shows "\<exists>g. is_poly n g \<and> (\<forall>x. f x = f a + (x - a) * g x)"
  using assms
proof (induction n arbitrary: f)
  case 0
  then obtain c where "\<And>x. f x = c"
    unfolding is_poly_def by auto
  then show ?case
    by (intro exI [of _ "\<lambda>x. 0"]) (auto simp: is_poly_def)
next
  case (Suc n)
  from Suc.prems obtain c q where q: "is_poly (Suc n) q" and f: "\<And>x. f x = c + x * q x"
    by (rule is_poly_split) blast
  from Suc.IH [OF q] obtain h where h: "is_poly n h" and qh: "\<And>x. q x = q a + (x - a) * h x"
    by blast
  have "is_poly (Suc n) (\<lambda>x. q x + a * h x)"
    by (intro is_poly_add is_poly_cmult is_poly_Suc q h)
  moreover have "f x = f a + (x - a) * (q x + a * h x)" for x
  proof -
    have "f x - f a = (x - a) * q x + a * (q x - q a)"
      by (simp add: f algebra_simps)
    also have "q x - q a = (x - a) * h x"
      using qh [of x] by (simp add: algebra_simps)
    finally show ?thesis
      by (simp add: algebra_simps)
  qed
  ultimately show ?case by blast
qed

lemma interpolate_factor:
  assumes "finite S" and "a \<in> S"
  shows "interpolate S (\<lambda>x. (x - a) * g x) = - a * interpolate (S - {a}) g"
proof -
  have "interpolate S (\<lambda>x. (x - a) * g x) = (\<Sum>i\<in>S - {a}. (i - a) * g i * lagrange_basis S i)"
    unfolding interpolate_def using assms by (subst sum.remove [of S a]) auto
  also have "\<dots> = (\<Sum>i\<in>S - {a}. - a * (g i * lagrange_basis (S - {a}) i))"
  proof (rule sum.cong)
    fix i assume i: "i \<in> S - {a}"
    then have ne: "a - i \<noteq> 0" by auto
    have "lagrange_basis S i = a / (a - i) * (\<Prod>j\<in>(S - {i}) - {a}. j / (j - i))"
      unfolding lagrange_basis_def using assms i by (subst prod.remove [of _ a]) auto
    also have "(S - {i}) - {a} = (S - {a}) - {i}" by blast
    finally have "(i - a) * g i * lagrange_basis S i
        = ((i - a) * (a / (a - i))) * (g i * lagrange_basis (S - {a}) i)"
      by (simp add: lagrange_basis_def ac_simps)
    also have "(i - a) * (a / (a - i)) = - a"
      using ne by (simp add: field_simps)
    finally show "(i - a) * g i * lagrange_basis S i = - a * (g i * lagrange_basis (S - {a}) i)" .
  qed simp
  finally show ?thesis
    by (simp only: interpolate_def sum_distrib_left)
qed

lemma interpolate_add:
  "interpolate S (\<lambda>x. f x + g x) = interpolate S f + interpolate S g"
  by (simp add: interpolate_def distrib_right sum.distrib)

lemma interpolate_cmult: "interpolate S (\<lambda>x. a * f x) = a * interpolate S f"
  by (simp add: interpolate_def sum_distrib_left mult.assoc)

lemma interpolate_one:
  assumes "finite S" and "S \<noteq> {}"
  shows "interpolate S (\<lambda>x. 1) = 1"
  using assms
proof (induction "card S" arbitrary: S rule: less_induct)
  case less
  show ?case
  proof (cases "\<exists>a. S = {a}")
    case True
    then show ?thesis by (auto simp: interpolate_def lagrange_basis_def)
  next
    case False
    then obtain a b where ab: "a \<in> S" "b \<in> S" "a \<noteq> b"
      using less.prems by blast
    have IH: "interpolate (S - {x}) (\<lambda>x. 1) = 1" if "x \<in> S" "y \<in> S" "y \<noteq> x" for x y
    proof (rule less.hyps)
      show "card (S - {x}) < card S"
        using less.prems(1) that(1) by (rule card_Diff1_less)
      show "finite (S - {x})" "S - {x} \<noteq> {}"
        using less.prems(1) that by auto
    qed
    have "(b - a) * interpolate S (\<lambda>x. 1)
        = interpolate S (\<lambda>x. (x - a) * 1) + (- 1) * interpolate S (\<lambda>x. (x - b) * 1)"
      unfolding interpolate_cmult [symmetric] interpolate_add [symmetric] by simp
    also have "\<dots> = b - a"
      unfolding interpolate_factor [OF less.prems(1) ab(1)] interpolate_factor [OF less.prems(1) ab(2)]
        IH [OF ab(1,2) ab(3) [symmetric]] IH [OF ab(2,1) ab(3)] by simp
    finally show ?thesis
      using ab(3) by simp
  qed
qed

lemma interpolate_poly:
  assumes "finite S" and "S \<noteq> {}" and "is_poly (card S) f"
  shows "interpolate S f = f 0"
  using assms
proof (induction "card S" arbitrary: S f)
  case (Suc n)
  then obtain a where a: "a \<in> S" by blast
  have "is_poly (Suc n) f"
    using Suc.hyps(2) Suc.prems(3) by simp
  from is_poly_factor [OF this, of a] obtain g
    where g: "is_poly n g" and f: "\<And>x. f x = f a + (x - a) * g x" by blast
  have card: "card (S - {a}) = n"
    using a Suc.hyps(2) Suc.prems(1) by simp
  have "interpolate S f = interpolate S (\<lambda>x. f a * 1 + (x - a) * g x)"
    using f by (metis mult.right_neutral)
  also have "\<dots> = f a + (- a) * interpolate (S - {a}) g"
    unfolding interpolate_add interpolate_cmult interpolate_factor [OF Suc.prems(1) a]
    using Suc.prems by (simp add: interpolate_one)
  also have "\<dots> = f a + (- a) * g 0"
  proof (cases "n = 0")
    case True
    then have "g x = 0" for x
      using g unfolding is_poly_def by auto
    then show ?thesis by (simp add: interpolate_def)
  next
    case False
    then have "S - {a} \<noteq> {}" using card by force
    then show ?thesis
      using Suc.hyps(1) [of "S - {a}" g] card g Suc.prems(1) by simp
  qed
  also have "\<dots> = f 0"
    using f [of 0] by simp
  finally show ?case .
qed simp

subsection \<open>Aggregation\<close>

lemma lagrange_basis_prod_list:
  "distinct xs \<Longrightarrow>
    prod_list (map (\<lambda>j. j * inverse (j - i)) (filter (\<lambda>j. j \<noteq> i) xs)) = lagrange_basis (set xs) i"
  by (simp add: lagrange_basis_def prod.distinct_set_conv_list [symmetric]
    divide_inverse set_diff_eq Collect_conj_eq [symmetric] conj_commute)

lemma lagrange_multipliers_eq:
  assumes "distinct xs" and "2 \<le> length xs"
  shows "lagrange_multipliers xs = (Ok (map (lagrange_basis (set xs)) xs) :: ('e, 'a::field list) result)"
  unfolding lagrange_multipliers_def
proof (rule traverse_Ok)
  fix i assume i: "i \<in> set xs"
  let ?js = "filter (\<lambda>j. j \<noteq> i) xs"
  have ne: "?js \<noteq> []"
  proof
    assume "?js = []"
    then have "set xs \<subseteq> {i}" by (auto simp: filter_empty_conv)
    then have "card (set xs) \<le> 1"
      using card_mono [of "{i}" "set xs"] by simp
    then show False
      using assms by (simp add: distinct_card)
  qed
  have "traverse (\<lambda>j. rbind (expect (invert (j - i))) (\<lambda>v. Ok (j * v))) ?js
      = (Ok (map (\<lambda>j. j * inverse (j - i)) ?js) :: ('e, 'a list) result)"
    by (intro traverse_Ok) (auto simp: invert_def)
  then show "rbind (traverse (\<lambda>j. rbind (expect (invert (j - i))) (\<lambda>v. Ok (j * v))) ?js)
      (\<lambda>factors. expect (reduce (*) factors)) = (Ok (lagrange_basis (set xs) i) :: ('e, 'a) result)"
    using ne by (simp add: reduce_mult lagrange_basis_prod_list [OF assms(1)])
qed

text \<open>The shares of a polynomial combine to its share at zero, in any group the scalars act on.\<close>

lemma combine_shares:
  assumes vs: "vector_space scale" and xs: "distinct xs" "xs \<noteq> []"
    and f: "is_poly (length xs) f"
  shows "sum_list (map (\<lambda>(m, share). scale m share)
      (zip (map (lagrange_basis (set xs)) xs) (map (\<lambda>x. scale (f x) g) xs))) = scale (f 0) g"
proof -
  have "sum_list (map (\<lambda>(m, share). scale m share)
      (zip (map (lagrange_basis (set xs)) xs) (map (\<lambda>x. scale (f x) g) xs)))
      = sum_list (map (\<lambda>x. scale (f x * lagrange_basis (set xs) x) g) xs)"
    by (simp add: zip_map_map zip_same_conv_map comp_def
      vector_space.vector_space_assms(3) [OF vs] mult.commute)
  also have "\<dots> = (\<Sum>x\<in>set xs. scale (f x * lagrange_basis (set xs) x) g)"
    using xs(1) by (simp add: sum_list_distinct_conv_sum_set)
  also have "\<dots> = scale (interpolate (set xs) f) g"
    unfolding interpolate_def using vs
    by (simp add: module.scale_sum_left module_iff_vector_space)
  also have "\<dots> = scale (f 0) g"
    using interpolate_poly [of "set xs" f] xs f by (simp add: distinct_card)
  finally show ?thesis .
qed

text \<open>The shares of some peers: the value of a polynomial at each, applied to a point.\<close>

definition shares_of :: "('s \<Rightarrow> 'g \<Rightarrow> 'g) \<Rightarrow> ('s::field \<Rightarrow> 's) \<Rightarrow> 'g \<Rightarrow> u64 list \<Rightarrow> (u64, 'g) btree" where
  "shares_of scale f g peers = map (\<lambda>p. (p, scale (f (share_scalar p)) g)) peers"

lemma share_scalar_distinct:
  assumes "scalars_ok TYPE('s::field)" and "distinct peers"
  shows "distinct (map (share_scalar :: u64 \<Rightarrow> 's) peers)"
proof -
  have "inj (share_scalar :: u64 \<Rightarrow> 's)"
  proof (rule injI)
    fix p q :: u64
    assume "share_scalar p = (share_scalar q :: 's)"
    moreover have "unat (p + 1) \<in> {..<2 ^ 64}" "unat (q + 1) \<in> {..<2 ^ 64}"
      using unsigned_less [of "p + 1", where 'a = nat] unsigned_less [of "q + 1", where 'a = nat] by auto
    ultimately have "unat (p + 1) = unat (q + 1)"
      using assms(1) unfolding scalars_ok_def share_scalar_def by (metis inj_onD)
    then show "p = q" by (simp add: word_unat_eq_iff [symmetric])
  qed
  then show ?thesis
    using assms(2) by (simp add: distinct_map inj_on_def)
qed

lemma aggregate_shares_of:
  fixes f :: "'s::field \<Rightarrow> 's"
  assumes vs: "vector_space scale" and inj: "scalars_ok TYPE('s)"
    and peers: "distinct peers" "peers \<noteq> []" and f: "is_poly (length peers) f"
  shows "(if length (shares_of scale f g peers) = 1 then Ok (hd (bt_values (shares_of scale f g peers)))
      else rbind (lagrange_multipliers (map share_scalar (bt_keys (shares_of scale f g peers)))) (\<lambda>ms.
        expect (reduce (+) (map (\<lambda>(m, share). scale m share)
          (zip ms (bt_values (shares_of scale f g peers)))))))
    = (Ok (scale (f 0) g) :: ('e, _) result)"
proof -
  let ?xs = "map share_scalar peers :: 's list"
  have keys: "map share_scalar (bt_keys (shares_of scale f g peers)) = ?xs"
    and vals: "bt_values (shares_of scale f g peers) = map (\<lambda>x. scale (f x) g) ?xs"
    and len: "length (shares_of scale f g peers) = length peers"
    by (simp_all add: shares_of_def bt_keys_def bt_values_def comp_def)
  have d: "distinct ?xs"
    by (rule share_scalar_distinct [OF inj peers(1)])
  show ?thesis
  proof (cases "length peers = 1")
    case True
    then obtain p where "peers = [p]" by (auto simp: length_Suc_conv)
    moreover obtain a where "\<And>x. f x = a"
      using f True by (auto simp: is_poly_def)
    ultimately show ?thesis
      by (simp add: shares_of_def bt_values_def)
  next
    case False
    then have two: "2 \<le> length ?xs"
      using peers(2) by (cases peers rule: remdups_adj.cases) auto
    have "reduce (+) (map (\<lambda>(m, share). scale m share)
        (zip (map (lagrange_basis (set ?xs)) ?xs) (map (\<lambda>x. scale (f x) g) ?xs))) = Some (scale (f 0) g)"
      using combine_shares [OF vs d, of f g] f peers(2) by (subst reduce_add) auto
    then show ?thesis
      unfolding keys vals len lagrange_multipliers_eq [OF d two] using False by simp
  qed
qed

lemma aggregate_signature_shares_of:
  fixes C :: "('s::field, 'g1::ab_group_add, 'g2::ab_group_add, 'gt) curve"
  assumes "curve_ok C" and "scalars_ok TYPE('s)" and "distinct peers" and "peers \<noteq> []"
    and "is_poly (length peers) f"
  shows "aggregate_signature_shares C (shares_of (g1_scale C) f g peers) = Ok (g1_scale C (f 0) g)"
  unfolding aggregate_signature_shares_def
  using assms by (intro aggregate_shares_of) (simp_all add: curve_ok_def)

lemma aggregate_public_key_shares_of:
  fixes C :: "('s::field, 'g1::ab_group_add, 'g2::ab_group_add, 'gt) curve"
  assumes "curve_ok C" and "scalars_ok TYPE('s)" and "distinct peers" and "peers \<noteq> []"
    and "is_poly (length peers) f"
  shows "aggregate_public_key_shares C (shares_of (g2_scale C) f g peers) = Ok (g2_scale C (f 0) g)"
  unfolding aggregate_public_key_shares_def
  using assms by (intro aggregate_shares_of) (simp_all add: curve_ok_def)

text \<open>Blinding commutes with signing.\<close>

lemma unblind_sign:
  assumes "curve_ok C" and "r \<noteq> 0"
  shows "unblind_signature C r (g1_scale C s (blind_message C m r)) = Ok (g1_scale C s m)"
proof -
  have vs: "vector_space (g1_scale C)"
    using assms(1) by (simp add: curve_ok_def)
  have "inverse r * (s * r) = s"
    using assms(2) by (simp add: field_simps)
  then have "g1_scale C (inverse r) (g1_scale C s (g1_scale C r m)) = g1_scale C s m"
    by (simp only: vector_space.vector_space_assms(3) [OF vs])
  then show ?thesis
    using assms(2) by (simp add: unblind_signature_def blind_message_def invert_def)
qed

lemma verify_scaled:
  assumes "curve_ok C"
  shows "tbs_verify C m (g1_scale C s m) (g2_scale C s (g2_generator C))"
    and "verify_blinded_signature C m (g1_scale C s m) (g2_scale C s (g2_generator C))"
    and "verify_signature_share C m (sign_message C m s) (derive_pk_share C s)"
  using assms by (simp_all add: curve_ok_def tbs_verify_def verify_blinded_signature_def
    verify_signature_share_def sign_message_def derive_pk_share_def)

text \<open>The laws can hold: the rationals with multiplication as the pairing.\<close>

definition rat_curve :: "(rat, rat, rat, rat) curve" where
  "rat_curve = \<lparr>g1_scale = (*), g2_scale = (*), g1_generator = 1, g2_generator = 1, pairing = (*), g1_random = (\<lambda>_. 1),
     g2_random = (\<lambda>_. 1), scalar_random = (\<lambda>_. 1),
     g1_to_compressed = (\<lambda>_. []), g2_to_compressed = (\<lambda>_. []), sha3_256 = (\<lambda>b. b), sha256 = (\<lambda>b. b)\<rparr>"

lemma rat_curve_ok: "curve_ok rat_curve"
  by (auto simp: curve_ok_def rat_curve_def vector_space_def algebra_simps)

lemma rat_scalars_ok: "scalars_ok TYPE(rat)"
  by (auto simp: scalars_ok_def inj_on_def)

end
