(* ===== verification/Index_Log.thy ===== *)
theory Index_Log
  imports Database
begin

section \<open>Append-only logs\<close>

text \<open>
  Several modules keep a log in a table keyed by a running \<open>u64\<close> index: the next index is one
  more than the largest key, found with a descending scan. Such a table is \<open>index_log items\<close>,
  numbered from 0 on without gaps.
\<close>

definition index_log :: "'a list \<Rightarrow> (u64, 'a) btree" where
  "index_log items = map (\<lambda>i. (of_nat i, items ! i)) [0..<length items]"

lemma index_log_Nil [simp]: "index_log [] = []"
  by (simp add: index_log_def)

lemma length_index_log [simp]: "length (index_log items) = length items"
  by (simp add: index_log_def)

lemma index_log_snoc:
  "index_log (items @ [x]) = index_log items @ [(of_nat (length items), x)]"
  by (auto simp: index_log_def nth_append)

lemma unat_index_key: "i < length items \<Longrightarrow> length items \<le> 2 ^ 64 \<Longrightarrow> unat (of_nat i :: u64) = i"
  by (rule unat_of_nat_u64) (rule less_le_trans)

lemma index_log_below:
  "length items < 2 ^ 64 \<Longrightarrow> \<forall>p\<in>set (index_log items). fst p < of_nat (length items)"
  by (auto simp: index_log_def word_less_nat_alt unat_index_key unat_of_nat_u64)

lemma bt_wf_index_log: "length items \<le> 2 ^ 64 \<Longrightarrow> bt_wf (index_log items)"
proof (induction items rule: rev_induct)
  case (snoc x items)
  then show ?case
    using index_log_below [of items] by (simp add: index_log_snoc bt_wf_append bt_wf_Cons)
qed (simp add: index_log_def)

lemma insert_index_log:
  assumes "length items < 2 ^ 64"
  shows "bt_get (index_log items) (of_nat (length items)) = None"
    and "bt_insert (of_nat (length items)) x (index_log items) = index_log (items @ [x])"
  using index_log_below [OF assms]
  by (auto simp: map_of_eq_None_iff index_log_snoc bt_insert_append)

lemma index_log_full:
  assumes "length items \<le> 2 ^ 64" and "bt_get (index_log items) (of_nat (length items)) = None"
  shows "length items < 2 ^ 64"
proof (rule ccontr)
  assume "\<not> length items < 2 ^ 64"
  then have "(of_nat (length items) :: u64) = 0" "0 < length items"
    using assms(1) by auto
  then have "bt_get (index_log items) (of_nat (length items)) \<noteq> None"
    by (cases items) (auto simp: index_log_def map_of_eq_None_iff image_iff intro!: bexI [of _ 0])
  then show False
    using assms(2) by simp
qed

lemma next_index_log:
  "(case find_by_prefix_sorted_descending (index_log items) of [] \<Rightarrow> 0 | (k, item) # _ \<Rightarrow> k + 1) =
    of_nat (length items)"
  by (cases items rule: rev_cases)
    (simp_all add: find_by_prefix_sorted_descending_def index_log_snoc)

lemma index_log_inj: "index_log xs = index_log ys \<Longrightarrow> xs = ys"
proof -
  have "map snd (index_log xs) = xs" for xs
    by (simp add: index_log_def comp_def map_nth)
  then show "index_log xs = index_log ys \<Longrightarrow> xs = ys" by metis
qed

lemma index_log_append: "\<exists>rest. index_log (xs @ ys) = index_log xs @ rest"
proof (induction ys rule: rev_induct)
  case (snoc y ys)
  then obtain rest where "index_log (xs @ ys) = index_log xs @ rest" by blast
  then show ?case
    using index_log_snoc [of "xs @ ys" y] by simp
qed simp

lemma get_index_log_append: "bt_get (index_log xs) k = Some v \<Longrightarrow> bt_get (index_log (xs @ ys)) k = Some v"
  using index_log_append [of xs ys] by (auto simp: map_of_append)

end
