(* ===== verification/Mint_Server.thy ===== *)
theory Mint_Server
  imports Tbs Balance_Sheet Fees Tiered Index_Log
begin

section \<open>The mint module\<close>

text \<open>
  \<open>modules/fedimint-mint-server/src/lib.rs\<close> and \<open>db.rs\<close>, with the types of
  \<open>modules/fedimint-mint-common/src/lib.rs\<close>: e-cash notes are issued blindly as outputs and
  redeemed as inputs. The state \<open>mint_db\<close> has one table per database prefix. The lemmas show
  the contract \<open>funds_module\<close>, that no note is redeemed twice, that the audit reports and keeps
  the balance, and that the recovery tables rebuilt by the migration are those of live processing.

  The order of points of the curve as table keys is that of their encoding.
\<close>

subsection \<open>Inputs, outputs and tables\<close>

type_synonym nonce = public_key

record 'g1 mint_note =
  nt_nonce :: nonce
  nt_signature :: 'g1

datatype 'g1 mint_input =
    MintInputV0 amount "'g1 mint_note"
  | MintInputDefault u64 bytes

datatype 'g1 mint_output =
    MintOutputV0 amount 'g1
  | MintOutputDefault u64 bytes

datatype 'g1 mint_output_outcome =
    MintOutputOutcomeV0 'g1
  | MintOutputOutcomeDefault u64 bytes

datatype mint_consensus_item = MintConsensusItemDefault u64 bytes

datatype mint_input_error =
    SpentCoin
  | InputInvalidAmountTier amount
  | InvalidNoteSignature
  | UnknownInputVariant u64

datatype mint_output_error =
    OutputInvalidAmountTier amount
  | UnknownOutputVariant u64
  | BlindNonceAlreadyUsed

datatype recovery_item =
    RecoveryOutput amount bytes
  | RecoveryInput bytes

datatype mint_audit_item_key =
    Issuance out_point
  | IssuanceTotal
  | Redemption nonce
  | RedemptionTotal

text \<open>Keys are ordered by variant, then by what they hold.\<close>

fun audit_key_rank :: "mint_audit_item_key \<Rightarrow> nat \<times> out_point \<times> nonce" where
  "audit_key_rank (Issuance q) = (0, q, [])"
| "audit_key_rank IssuanceTotal = (1, ([], 0), [])"
| "audit_key_rank (Redemption n) = (2, ([], 0), n)"
| "audit_key_rank RedemptionTotal = (3, ([], 0), [])"

lemma audit_key_rank_inj: "audit_key_rank x = audit_key_rank y \<longleftrightarrow> x = y"
  by (cases x; cases y) auto

instantiation mint_audit_item_key :: linorder
begin

definition less_eq_mint_audit_item_key :: "mint_audit_item_key \<Rightarrow> mint_audit_item_key \<Rightarrow> bool" where
  "less_eq_mint_audit_item_key x y \<longleftrightarrow> audit_key_rank x \<le> audit_key_rank y"

definition less_mint_audit_item_key :: "mint_audit_item_key \<Rightarrow> mint_audit_item_key \<Rightarrow> bool" where
  "less_mint_audit_item_key x y \<longleftrightarrow> audit_key_rank x < audit_key_rank y"

instance
proof
  fix x y :: mint_audit_item_key
  show "x \<le> y \<Longrightarrow> y \<le> x \<Longrightarrow> x = y"
    unfolding less_eq_mint_audit_item_key_def audit_key_rank_inj [symmetric] by (rule antisym)
qed (auto simp: less_eq_mint_audit_item_key_def less_mint_audit_item_key_def)

end

record 'g1 mint_db =
  md_nonces :: "(nonce, unit) btree"
  md_outcomes :: "(out_point, 'g1 mint_output_outcome) btree"
  md_audit :: "(mint_audit_item_key, amount) btree"
  md_blind_nonces :: "('g1, unit) btree"
  md_recovery :: "(u64, recovery_item) btree"
  md_recovery_outpoints :: "('g1, out_point) btree"

definition mint_db_empty :: "'g1 mint_db" where
  "mint_db_empty = \<lparr>md_nonces = [], md_outcomes = [], md_audit = [], md_blind_nonces = [],
     md_recovery = [], md_recovery_outpoints = []\<rparr>"

record ('s, 'g2) mint_config =
  mc_tbs_sks :: "'s tiered"
  mc_peer_tbs_pks :: "(peer_id, 'g2 tiered) btree"
  mc_fee_consensus :: fee_consensus
  mc_max_notes_per_denomination :: u16

record ('s, 'g2) mint =
  m_cfg :: "('s, 'g2) mint_config"
  m_sec_key :: "'s tiered"
  m_pub_key :: "(amount, 'g2) btree"

subsection \<open>Notes\<close>

definition to_message :: "('s, 'g1, 'g2, 'gt) curve \<Rightarrow> nonce \<Rightarrow> 'g1" where
  "to_message C n = message_from_bytes C n"

definition note_verify :: "('s, 'g1, 'g2, 'gt) curve \<Rightarrow> 'g1 mint_note \<Rightarrow> 'g2 \<Rightarrow> bool" where
  "note_verify C note pk = tbs_verify C (to_message C (nt_nonce note)) (nt_signature note) pk"

definition spend_key :: "'g1 mint_note \<Rightarrow> public_key" where
  "spend_key note = nt_nonce note"

subsection \<open>Consensus operations\<close>

definition get_recovery_count :: "'g1 mint_db \<Rightarrow> u64" where
  "get_recovery_count db =
     (case find_by_prefix_sorted_descending (md_recovery db) of
        [] \<Rightarrow> 0 | (k, item) # _ \<Rightarrow> k + 1)"

definition get_recovery_slice :: "'g1 mint_db \<Rightarrow> u64 \<times> u64 \<Rightarrow> recovery_item list" where
  "get_recovery_slice db rng = map snd (find_by_range (fst rng) (snd rng) (md_recovery db))"

definition mint_process_consensus_item ::
  "'g1 mint_db \<Rightarrow> mint_consensus_item \<Rightarrow> peer_id \<Rightarrow> (string, 'g1 mint_db) result" where
  "mint_process_consensus_item db item peer = Err ''Mint does not process consensus items''"

definition mint_verify_input ::
  "('s, 'g1, 'g2, 'gt) curve \<Rightarrow> ('s, 'g2) mint \<Rightarrow> 'g1 mint_input \<Rightarrow> (mint_input_error, unit) result" where
  "mint_verify_input C M input =
     (case input of
        MintInputDefault variant _ \<Rightarrow> Err (UnknownInputVariant variant)
      | MintInputV0 amount note \<Rightarrow>
          rbind (ok_or (bt_get (m_pub_key M) amount) (InputInvalidAmountTier amount)) (\<lambda>amount_key.
            if \<not> note_verify C note amount_key then Err InvalidNoteSignature else Ok ()))"

text \<open>\<open>hash160\<close> is the hash that \<open>consensus_hash\<close> uses here; a nonce encodes as itself.\<close>

definition mint_process_input ::
  "(bytes \<Rightarrow> bytes) \<Rightarrow> ('s, 'g2) mint \<Rightarrow> 'g1 mint_db \<Rightarrow> 'g1 mint_input \<Rightarrow> in_point
    \<Rightarrow> (mint_input_error, 'g1 mint_db \<times> input_meta) result" where
  "mint_process_input hash160 M db input in_point =
     (case input of
        MintInputDefault variant _ \<Rightarrow> Err (UnknownInputVariant variant)
      | MintInputV0 amount note \<Rightarrow>
          (case insert_entry (nt_nonce note) () (md_nonces db) of (prev, nonces) \<Rightarrow>
             if prev \<noteq> None then Err SpentCoin
             else
               rbind (insert_new_entry (Redemption (nt_nonce note)) amount (md_audit db)) (\<lambda>audit.
               rbind (insert_new_entry (get_recovery_count db)
                        (RecoveryInput (consensus_hash hash160 (\<lambda>b. b) (nt_nonce note))) (md_recovery db)) (\<lambda>recovery.
               rbind (mint_fee (mc_fee_consensus (m_cfg M)) amount) (\<lambda>fee.
                 Ok (db\<lparr>md_nonces := nonces, md_audit := audit, md_recovery := recovery\<rparr>,
                     \<lparr>im_amount = \<lparr>ti_amounts = new_bitcoin amount, ti_fees = new_bitcoin fee\<rparr>,
                      im_pub_key = spend_key note\<rparr>))))))"

definition mint_process_output ::
  "('s, 'g1::linorder, 'g2, 'gt) curve \<Rightarrow> (bytes \<Rightarrow> bytes) \<Rightarrow> ('s, 'g2) mint \<Rightarrow> 'g1 mint_db \<Rightarrow> 'g1 mint_output \<Rightarrow> out_point
    \<Rightarrow> (mint_output_error, 'g1 mint_db \<times> transaction_item_amounts) result" where
  "mint_process_output C hash160 M db output out_point =
     (case output of
        MintOutputDefault variant _ \<Rightarrow> Err (UnknownOutputVariant variant)
      | MintOutputV0 amount blind_nonce \<Rightarrow>
          rbind (ok_or (bt_get (m_sec_key M) amount) (OutputInvalidAmountTier amount)) (\<lambda>amount_key.
          rbind (insert_new_entry out_point (MintOutputOutcomeV0 (sign_message C blind_nonce amount_key)) (md_outcomes db)) (\<lambda>outcomes.
          rbind (insert_new_entry (Issuance out_point) amount (md_audit db)) (\<lambda>audit.
          rbind (insert_new_entry (get_recovery_count db)
                   (RecoveryOutput amount (consensus_hash hash160 (g1_to_compressed C) blind_nonce))
                   (md_recovery db)) (\<lambda>recovery.
          rbind (mint_fee (mc_fee_consensus (m_cfg M)) amount) (\<lambda>fee.
            Ok (db\<lparr>md_outcomes := outcomes, md_audit := audit,
                   md_blind_nonces := snd (insert_entry blind_nonce () (md_blind_nonces db)),
                   md_recovery := recovery,
                   md_recovery_outpoints := snd (insert_entry blind_nonce out_point (md_recovery_outpoints db))\<rparr>,
                \<lparr>ti_amounts = new_bitcoin amount, ti_fees = new_bitcoin fee\<rparr>)))))))"

definition mint_output_status :: "'g1 mint_db \<Rightarrow> out_point \<Rightarrow> 'g1 mint_output_outcome option" where
  "mint_output_status db out_point = bt_get (md_outcomes db) out_point"

definition mint_verify_output_submission ::
  "'g1 mint_db \<Rightarrow> 'g1 mint_output \<Rightarrow> out_point \<Rightarrow> (mint_output_error, unit) result" where
  "mint_verify_output_submission db output out_point =
     (case output of
        MintOutputDefault variant _ \<Rightarrow> Err (UnknownOutputVariant variant)
      | MintOutputV0 amount blind_nonce \<Rightarrow>
          if bt_get (md_blind_nonces db) blind_nonce \<noteq> None then Err BlindNonceAlreadyUsed else Ok ())"

subsection \<open>Audit\<close>

fun is_issuance :: "mint_audit_item_key \<Rightarrow> bool" where
  "is_issuance (Issuance _) = True"
| "is_issuance IssuanceTotal = True"
| "is_issuance (Redemption _) = False"
| "is_issuance RedemptionTotal = False"

text \<open>The items are summed up with unchecked additions, and replaced by the two totals.\<close>

definition audit_totals :: "(mint_audit_item_key, amount) btree \<Rightarrow> amount \<times> amount" where
  "audit_totals items =
     fold (\<lambda>(key, amount) (issuances, redemptions).
         if is_issuance key then (amount_add issuances amount, redemptions)
         else (issuances, amount_add redemptions amount))
       items (from_sats 0, from_sats 0)"

definition mint_audit ::
  "'g1 mint_db \<Rightarrow> audit \<Rightarrow> module_instance_id \<Rightarrow> 'g1 mint_db \<times> audit" where
  "mint_audit db audit module_instance_id =
     (let (issuances, redemptions) = audit_totals (md_audit db);
          table = fold (\<lambda>key t. snd (remove_entry key t)) (bt_keys (md_audit db)) (md_audit db);
          table = snd (insert_entry IssuanceTotal issuances table);
          table = snd (insert_entry RedemptionTotal redemptions table)
      in (db\<lparr>md_audit := table\<rparr>,
          add_items table module_instance_id (\<lambda>k v. if is_issuance k then - v else v) audit))"

subsection \<open>API endpoints\<close>

definition note_spent_endpoint :: "'g1 mint_db \<Rightarrow> nonce \<Rightarrow> bool" where
  "note_spent_endpoint db nonce \<longleftrightarrow> bt_get (md_nonces db) nonce \<noteq> None"

definition blind_nonce_used_endpoint :: "'g1 mint_db \<Rightarrow> 'g1 \<Rightarrow> bool" where
  "blind_nonce_used_endpoint db blind_nonce \<longleftrightarrow> bt_get (md_blind_nonces db) blind_nonce \<noteq> None"

definition recovery_slice_hash_endpoint ::
  "(bytes \<Rightarrow> 'h) \<Rightarrow> recovery_item list encoder \<Rightarrow> 'g1 mint_db \<Rightarrow> u64 \<times> u64 \<Rightarrow> 'h" where
  "recovery_slice_hash_endpoint sha enc db rng = consensus_hash sha enc (get_recovery_slice db rng)"

definition recovery_blind_nonce_outpoints_endpoint ::
  "'g1 mint_db \<Rightarrow> 'g1 list \<Rightarrow> (string, out_point list) result" where
  "recovery_blind_nonce_outpoints_endpoint db blind_nonces =
     traverse (\<lambda>bn. ok_or (bt_get (md_recovery_outpoints db) bn) ''blind nonce not found'') blind_nonces"

subsection \<open>Migrations\<close>

text \<open>What the consensus history holds of the module.\<close>

datatype 'g1 history_item =
    HistoryConsensusItem mint_consensus_item
  | HistoryInput "'g1 mint_input"
  | HistoryOutput "'g1 mint_output" out_point

fun ensure_v0_output :: "'g1 mint_output \<Rightarrow> (mint_output_error, amount \<times> 'g1) result" where
  "ensure_v0_output (MintOutputV0 amount blind_nonce) = Ok (amount, blind_nonce)"
| "ensure_v0_output (MintOutputDefault variant _) = Err (UnknownOutputVariant variant)"

fun ensure_v0_input :: "'g1 mint_input \<Rightarrow> (mint_input_error, amount \<times> 'g1 mint_note) result" where
  "ensure_v0_input (MintInputV0 amount note) = Ok (amount, note)"
| "ensure_v0_input (MintInputDefault variant _) = Err (UnknownInputVariant variant)"

fun history_blind_nonces :: "'g1 history_item list \<Rightarrow> ('e, 'g1 list) result" where
  "history_blind_nonces [] = Ok []"
| "history_blind_nonces (HistoryOutput output _ # hist) =
     rbind (expect_ok (ensure_v0_output output)) (\<lambda>(amount, blind_nonce).
       map_ok ((#) blind_nonce) (history_blind_nonces hist))"
| "history_blind_nonces (_ # hist) = history_blind_nonces hist"

definition migrate_db_v0 ::
  "'g1::linorder history_item list \<Rightarrow> 'g1 mint_db \<Rightarrow> ('e, 'g1 mint_db) result" where
  "migrate_db_v0 hist db =
     rbind (history_blind_nonces hist) (\<lambda>blind_nonces.
       Ok (db\<lparr>md_blind_nonces :=
         fold (\<lambda>bn t. snd (insert_entry bn () t)) blind_nonces (md_blind_nonces db)\<rparr>))"

text \<open>The first migration works on the raw prefix of the module, which no other table shares.\<close>

definition migrate_db_v1 :: "mem_transaction \<Rightarrow> mem_transaction" where
  "migrate_db_v1 dbtx = raw_remove_by_prefix [0x15] dbtx"

fun history_recovery ::
  "('s, 'g1, 'g2, 'gt) curve \<Rightarrow> (bytes \<Rightarrow> bytes) \<Rightarrow> 'g1 history_item list
    \<Rightarrow> ('e, recovery_item list \<times> ('g1 \<times> out_point) list) result" where
  "history_recovery C hash160 [] = Ok ([], [])"
| "history_recovery C hash160 (HistoryOutput output out_point # hist) =
     rbind (expect_ok (ensure_v0_output output)) (\<lambda>(amount, blind_nonce).
       map_ok (\<lambda>(items, outpoints).
           (RecoveryOutput amount (consensus_hash hash160 (g1_to_compressed C) blind_nonce) # items,
            (blind_nonce, out_point) # outpoints))
         (history_recovery C hash160 hist))"
| "history_recovery C hash160 (HistoryInput input # hist) =
     rbind (expect_ok (ensure_v0_input input)) (\<lambda>(amount, note).
       map_ok (\<lambda>(items, outpoints).
           (RecoveryInput (consensus_hash hash160 (\<lambda>b. b) (nt_nonce note)) # items, outpoints))
         (history_recovery C hash160 hist))"
| "history_recovery C hash160 (HistoryConsensusItem _ # hist) = history_recovery C hash160 hist"

fun insert_enumerated ::
  "nat \<Rightarrow> recovery_item list \<Rightarrow> (u64, recovery_item) btree \<Rightarrow> ('e, (u64, recovery_item) btree) result" where
  "insert_enumerated index [] t = Ok t"
| "insert_enumerated index (item # items) t =
     rbind (insert_new_entry (of_nat index) item t) (insert_enumerated (Suc index) items)"

definition migrate_db_v2 ::
  "('s, 'g1::linorder, 'g2, 'gt) curve \<Rightarrow> (bytes \<Rightarrow> bytes) \<Rightarrow> 'g1 history_item list
    \<Rightarrow> 'g1 mint_db \<Rightarrow> ('e, 'g1 mint_db) result" where
  "migrate_db_v2 C hash160 hist db =
     rbind (history_recovery C hash160 hist) (\<lambda>(items, outpoints).
       rbind (insert_enumerated 0 items (md_recovery db)) (\<lambda>recovery.
         Ok (db\<lparr>md_recovery := recovery,
           md_recovery_outpoints :=
             fold (\<lambda>(bn, q) t. snd (insert_entry bn q t)) outpoints (md_recovery_outpoints db)\<rparr>)))"

subsection \<open>The module\<close>

definition mint_module ::
  "('s, 'g1::linorder, 'g2, 'gt) curve \<Rightarrow> (bytes \<Rightarrow> bytes) \<Rightarrow> ('s, 'g2) mint
    \<Rightarrow> ('g1 mint_db, 'g1 mint_input, 'g1 mint_output, mint_consensus_item, mint_input_error, mint_output_error) server_module" where
  "mint_module C hash160 M =
     \<lparr>sm_process_consensus_item = mint_process_consensus_item,
      sm_verify_input = mint_verify_input C M,
      sm_process_input = mint_process_input hash160 M,
      sm_process_output = mint_process_output C hash160 M,
      sm_verify_input_submission = (\<lambda>db input. Ok ()),
      sm_verify_output_submission = mint_verify_output_submission,
      sm_audit = mint_audit\<rparr>"

subsection \<open>The invariant\<close>

definition mint_wf :: "'g1::linorder mint_db \<Rightarrow> bool" where
  "mint_wf db \<longleftrightarrow> bt_wf (md_nonces db) \<and> bt_wf (md_outcomes db) \<and> bt_wf (md_audit db)
     \<and> bt_wf (md_blind_nonces db) \<and> bt_wf (md_recovery_outpoints db)
     \<and> (\<exists>items. length items \<le> 2 ^ 64 \<and> md_recovery db = index_log items)
     \<and> (\<forall>n. bt_get (md_audit db) (Redemption n) \<noteq> None \<longrightarrow> bt_get (md_nonces db) n \<noteq> None)
     \<and> (\<forall>q. bt_get (md_audit db) (Issuance q) \<noteq> None \<longrightarrow> bt_get (md_outcomes db) q \<noteq> None)"

definition mint_fee_ok :: "fee_consensus \<Rightarrow> bool" where
  "mint_fee_ok f \<longleftrightarrow> f = mint_fee_zero \<or> (\<exists>p. mint_fee_new p = Ok f)"

definition audit_value :: "mint_audit_item_key \<Rightarrow> amount \<Rightarrow> int" where
  "audit_value k v = (if is_issuance k then - int (unat v) else int (unat v))"

text \<open>What was redeemed less what was issued: notes in circulation are a liability.\<close>

definition mint_balance :: "'g1 mint_db \<Rightarrow> int" where
  "mint_balance db = bt.total audit_value (md_audit db)"

definition mint_outs :: "'g1 mint_db \<Rightarrow> out_point set" where
  "mint_outs db = dom (bt_get (md_outcomes db))"

definition mint_used :: "'g1 mint_db \<Rightarrow> nat" where
  "mint_used db = length (md_recovery db)"

lemma recovery_count_log:
  "md_recovery db = index_log items \<Longrightarrow> get_recovery_count db = of_nat (length items)"
  by (simp add: get_recovery_count_def next_index_log)

lemma mint_fee_ok_fee:
  assumes "mint_fee_ok f"
  shows "\<exists>x. mint_fee f a = (Ok x :: ('e, amount) result)"
  using assms unfolding mint_fee_ok_def
proof (elim disjE exE)
  assume "f = mint_fee_zero"
  then show ?thesis
    by (simp add: mint_fee_zero_def mint_fee_def mint_fee_msats_def checked_add_def saturating_mul_def)
next
  fix p assume "mint_fee_new p = Ok f"
  then show ?thesis using mint.fee_value [of p f a] by blast
qed

lemma mint_fee_no_panic: "mint_fee_ok f \<Longrightarrow> mint_fee f a \<noteq> (Panic :: ('e, amount) result)"
  using mint_fee_ok_fee [of f a, where 'e = 'e] by auto

subsection \<open>The contract\<close>

text \<open>What an accepted input does.\<close>

lemma mint_process_input_Ok:
  assumes wf: "mint_wf db" and ok: "mint_process_input h M db input p = Ok (db', meta)"
  obtains amount nt fee items where "input = MintInputV0 amount nt"
    "bt_get (md_nonces db) (nt_nonce nt) = None" "bt_get (md_audit db) (Redemption (nt_nonce nt)) = None"
    "md_recovery db = index_log items" "length items < 2 ^ 64"
    "db' = db\<lparr>md_nonces := bt_insert (nt_nonce nt) () (md_nonces db),
        md_audit := bt_insert (Redemption (nt_nonce nt)) amount (md_audit db),
        md_recovery := index_log (items @ [RecoveryInput (consensus_hash h (\<lambda>b. b) (nt_nonce nt))])\<rparr>"
    "meta = \<lparr>im_amount = \<lparr>ti_amounts = new_bitcoin amount, ti_fees = new_bitcoin fee\<rparr>, im_pub_key = nt_nonce nt\<rparr>"
proof -
  obtain items where items: "md_recovery db = index_log items" "length items \<le> 2 ^ 64"
    using wf by (auto simp: mint_wf_def)
  from ok obtain amount nt fee where 1: "input = MintInputV0 amount nt"
    and 2: "bt_get (md_nonces db) (nt_nonce nt) = None" "bt_get (md_audit db) (Redemption (nt_nonce nt)) = None"
    and new: "bt_get (index_log items) (of_nat (length items)) = None"
    and db': "db' = db\<lparr>md_nonces := bt_insert (nt_nonce nt) () (md_nonces db),
        md_audit := bt_insert (Redemption (nt_nonce nt)) amount (md_audit db),
        md_recovery := bt_insert (of_nat (length items))
          (RecoveryInput (consensus_hash h (\<lambda>b. b) (nt_nonce nt))) (index_log items)\<rparr>"
    and meta: "meta = \<lparr>im_amount = \<lparr>ti_amounts = new_bitcoin amount, ti_fees = new_bitcoin fee\<rparr>, im_pub_key = nt_nonce nt\<rparr>"
    by (cases input) (auto simp: mint_process_input_def insert_entry_def spend_key_def
      recovery_count_log [OF items(1)] items(1) neq_Some_unit split: if_splits)
  note len = index_log_full [OF items(2) new]
  show thesis
    by (rule that [OF 1 2 items(1) len _ meta]) (simp add: db' insert_index_log(2) [OF len])
qed

lemma mint_process_output_Ok:
  assumes wf: "mint_wf db" and ok: "mint_process_output C h M db ot q = Ok (db', a)"
  obtains amount bn sk fee items where "ot = MintOutputV0 amount bn" "bt_get (m_sec_key M) amount = Some sk"
    "bt_get (md_outcomes db) q = None" "bt_get (md_audit db) (Issuance q) = None"
    "md_recovery db = index_log items" "length items < 2 ^ 64"
    "db' = db\<lparr>md_outcomes := bt_insert q (MintOutputOutcomeV0 (sign_message C bn sk)) (md_outcomes db),
        md_audit := bt_insert (Issuance q) amount (md_audit db),
        md_blind_nonces := bt_insert bn () (md_blind_nonces db),
        md_recovery := index_log (items @ [RecoveryOutput amount (consensus_hash h (g1_to_compressed C) bn)]),
        md_recovery_outpoints := bt_insert bn q (md_recovery_outpoints db)\<rparr>"
    "a = \<lparr>ti_amounts = new_bitcoin amount, ti_fees = new_bitcoin fee\<rparr>"
proof -
  obtain items where items: "md_recovery db = index_log items" "length items \<le> 2 ^ 64"
    using wf by (auto simp: mint_wf_def)
  from ok obtain amount bn sk fee where 1: "ot = MintOutputV0 amount bn" "bt_get (m_sec_key M) amount = Some sk"
    and 2: "bt_get (md_outcomes db) q = None" "bt_get (md_audit db) (Issuance q) = None"
    and new: "bt_get (index_log items) (of_nat (length items)) = None"
    and db': "db' = db\<lparr>md_outcomes := bt_insert q (MintOutputOutcomeV0 (sign_message C bn sk)) (md_outcomes db),
        md_audit := bt_insert (Issuance q) amount (md_audit db),
        md_blind_nonces := bt_insert bn () (md_blind_nonces db),
        md_recovery := bt_insert (of_nat (length items))
          (RecoveryOutput amount (consensus_hash h (g1_to_compressed C) bn)) (index_log items),
        md_recovery_outpoints := bt_insert bn q (md_recovery_outpoints db)\<rparr>"
    and a: "a = \<lparr>ti_amounts = new_bitcoin amount, ti_fees = new_bitcoin fee\<rparr>"
    by (cases ot) (auto simp: mint_process_output_def insert_entry_def
      recovery_count_log [OF items(1)] items(1))
  note len = index_log_full [OF items(2) new]
  show thesis
    by (rule that [OF 1 2 items(1) len _ a]) (simp add: db' insert_index_log(2) [OF len])
qed

lemma mint_input_keeps:
  assumes wf: "mint_wf db" and ok: "mint_process_input h M db input p = Ok (db', meta)"
  shows "mint_wf db' \<and> item_wf (im_amount meta) \<and> mint_outs db' = mint_outs db \<and> mint_used db' \<le> Suc (mint_used db)
    \<and> mint_balance db' = mint_balance db + bitcoin_of (ti_amounts (im_amount meta))"
proof -
  from wf ok obtain amount nt fee items where *: "input = MintInputV0 amount nt"
    "bt_get (md_nonces db) (nt_nonce nt) = None" "bt_get (md_audit db) (Redemption (nt_nonce nt)) = None"
    "md_recovery db = index_log items" "length items < 2 ^ 64"
    "db' = db\<lparr>md_nonces := bt_insert (nt_nonce nt) () (md_nonces db),
        md_audit := bt_insert (Redemption (nt_nonce nt)) amount (md_audit db),
        md_recovery := index_log (items @ [RecoveryInput (consensus_hash h (\<lambda>b. b) (nt_nonce nt))])\<rparr>"
    "meta = \<lparr>im_amount = \<lparr>ti_amounts = new_bitcoin amount, ti_fees = new_bitcoin fee\<rparr>, im_pub_key = nt_nonce nt\<rparr>"
    by (rule mint_process_input_Ok)
  have log: "\<exists>xs. length xs \<le> 2 ^ 64 \<and> md_recovery db' = index_log xs"
    using *(5) by (intro exI [of _ "items @ [RecoveryInput (consensus_hash h (\<lambda>b. b) (nt_nonce nt))]"]) (simp add: *(6))
  then have "mint_wf db'"
    using wf by (auto simp: mint_wf_def *(6) map_of_bt_insert)
  moreover have "mint_balance db' = mint_balance db + int (unat amount)"
    using wf *(3) by (simp add: mint_balance_def *(6) mint_wf_def bt.total_insert_new audit_value_def)
  ultimately show ?thesis
    by (simp add: *(4,6,7) mint_outs_def mint_used_def)
qed

lemma mint_output_keeps:
  assumes wf: "mint_wf db" and ok: "mint_process_output C h M db ot q = Ok (db', a)"
  shows "mint_wf db' \<and> item_wf a \<and> mint_outs db' \<subseteq> insert q (mint_outs db) \<and> mint_used db' \<le> Suc (mint_used db)
    \<and> mint_balance db' = mint_balance db - bitcoin_of (ti_amounts a)"
proof -
  from wf ok obtain amount bn sk fee items where *: "ot = MintOutputV0 amount bn" "bt_get (m_sec_key M) amount = Some sk"
    "bt_get (md_outcomes db) q = None" "bt_get (md_audit db) (Issuance q) = None"
    "md_recovery db = index_log items" "length items < 2 ^ 64"
    "db' = db\<lparr>md_outcomes := bt_insert q (MintOutputOutcomeV0 (sign_message C bn sk)) (md_outcomes db),
        md_audit := bt_insert (Issuance q) amount (md_audit db),
        md_blind_nonces := bt_insert bn () (md_blind_nonces db),
        md_recovery := index_log (items @ [RecoveryOutput amount (consensus_hash h (g1_to_compressed C) bn)]),
        md_recovery_outpoints := bt_insert bn q (md_recovery_outpoints db)\<rparr>"
    "a = \<lparr>ti_amounts = new_bitcoin amount, ti_fees = new_bitcoin fee\<rparr>"
    by (rule mint_process_output_Ok)
  have log: "\<exists>xs. length xs \<le> 2 ^ 64 \<and> md_recovery db' = index_log xs"
    using *(6) by (intro exI [of _ "items @ [RecoveryOutput amount (consensus_hash h (g1_to_compressed C) bn)]"]) (simp add: *(7))
  then have "mint_wf db'"
    using wf by (auto simp: mint_wf_def *(7) map_of_bt_insert)
  moreover have "mint_balance db' = mint_balance db - int (unat amount)"
    using wf *(4) by (simp add: mint_balance_def *(7) mint_wf_def bt.total_insert_new audit_value_def)
  ultimately show ?thesis
    by (auto simp: *(5,7,8) mint_outs_def mint_used_def map_of_bt_insert)
qed

definition mint_good :: "('s, 'g2) mint \<Rightarrow> 'g1::linorder mint_db \<Rightarrow> bool" where
  "mint_good M db \<longleftrightarrow> mint_wf db \<and> mint_fee_ok (mc_fee_consensus (m_cfg M))"

interpretation mint_funds: funds_module "mint_process_input h M" "mint_process_output C h M"
  mint_balance mint_outs "mint_good M" mint_used "\<lambda>_. True" "\<lambda>_. True"
  for C :: "('s, 'g1::linorder, 'g2, 'gt) curve" and h M
proof
  fix db :: "'g1 mint_db" and input p
  assume good: "mint_good M db" and used: "mint_used db < 2 ^ 64 - 1"
  then obtain items where items: "md_recovery db = index_log items" "length items < 2 ^ 64"
    by (auto simp: mint_good_def mint_wf_def mint_used_def)
  have fee: "mint_fee (mc_fee_consensus (m_cfg M)) a \<noteq> (Panic :: (mint_input_error, amount) result)" for a
    using good by (simp add: mint_good_def mint_fee_no_panic)
  have "bt_get (md_audit db) (Redemption n) = None" if "bt_get (md_nonces db) n = None" for n
    using good that by (auto simp: mint_good_def mint_wf_def)
  then show "mint_process_input h M db input p \<noteq> Panic"
    by (cases input) (simp_all add: mint_process_input_def insert_entry_def rbind_eq_Panic fee
      recovery_count_log [OF items(1)] items(1) insert_index_log(1) [OF items(2)] neq_Some_unit)
next
  fix db :: "'g1 mint_db" and ot q
  assume good: "mint_good M db" and used: "mint_used db < 2 ^ 64 - 1" and q: "q \<notin> mint_outs db"
  then obtain items where items: "md_recovery db = index_log items" "length items < 2 ^ 64"
    by (auto simp: mint_good_def mint_wf_def mint_used_def)
  have fee: "mint_fee (mc_fee_consensus (m_cfg M)) a \<noteq> (Panic :: (mint_output_error, amount) result)" for a
    using good by (simp add: mint_good_def mint_fee_no_panic)
  have "bt_get (md_outcomes db) q = None" "bt_get (md_audit db) (Issuance q) = None"
    using good q by (cases q; auto simp: mint_good_def mint_wf_def mint_outs_def)+
  then show "mint_process_output C h M db ot q \<noteq> Panic"
    by (cases ot) (simp_all add: mint_process_output_def insert_entry_def rbind_eq_Panic fee
      recovery_count_log [OF items(1)] items(1) insert_index_log(1) [OF items(2)])
qed (auto simp: mint_good_def dest: mint_input_keeps mint_output_keeps)

subsection \<open>Audit keeps the balance\<close>

definition issued :: "(mint_audit_item_key, amount) btree \<Rightarrow> nat" where
  "issued t = (\<Sum>(k, v)\<leftarrow>t. if is_issuance k then unat v else 0)"

definition redeemed :: "(mint_audit_item_key, amount) btree \<Rightarrow> nat" where
  "redeemed t = (\<Sum>(k, v)\<leftarrow>t. if is_issuance k then 0 else unat v)"

lemma balance_issued_redeemed: "bt.total audit_value t = int (redeemed t) - int (issued t)"
  unfolding bt.total_def by (induction t) (auto simp: audit_value_def issued_def redeemed_def)

lemma audit_totals_fold:
  assumes "unat i + issued t < 2 ^ 64" and "unat r + redeemed t < 2 ^ 64"
  shows "fold (\<lambda>(key, amount) (issuances, redemptions).
         if is_issuance key then (amount_add issuances amount, redemptions)
         else (issuances, amount_add redemptions amount)) t (i, r)
    = (i + of_nat (issued t), r + of_nat (redeemed t))"
  using assms
proof (induction t arbitrary: i r)
  case Nil
  then show ?case by (simp add: issued_def redeemed_def)
next
  case (Cons p t)
  obtain k v where p: "p = (k, v)" by (cases p)
  show ?case
  proof (cases "is_issuance k")
    case True
    then have sums: "issued (p # t) = unat v + issued t" "redeemed (p # t) = redeemed t"
      by (simp_all add: p issued_def redeemed_def)
    then have "unat (i + v) = unat i + unat v"
      using Cons.prems(1) by (intro unat_plus_small) simp
    then show ?thesis
      using Cons.IH [of "i + v" r] Cons.prems True by (simp add: p sums [unfolded p] amount_add_def)
  next
    case False
    then have sums: "issued (p # t) = issued t" "redeemed (p # t) = unat v + redeemed t"
      by (simp_all add: p issued_def redeemed_def)
    then have "unat (r + v) = unat r + unat v"
      using Cons.prems(2) by (intro unat_plus_small) simp
    then show ?thesis
      using Cons.IH [of i "r + v"] Cons.prems False by (simp add: p sums [unfolded p] amount_add_def)
  qed
qed

lemma audit_totals_eq:
  assumes "issued t < 2 ^ 64" and "redeemed t < 2 ^ 64"
  shows "audit_totals t = (of_nat (issued t), of_nat (redeemed t))"
  unfolding audit_totals_def using audit_totals_fold [of 0 t 0] assms
  by (simp add: from_sats_def from_msats_def)

lemma remove_all_keys: "fold (\<lambda>key t. snd (remove_entry key t)) (bt_keys t) t = []"
proof -
  have "fold (\<lambda>key t. snd (remove_entry key t)) ks t = filter (\<lambda>p. fst p \<notin> set ks) t" for ks
    by (induction ks arbitrary: t) (auto simp: remove_entry_def bt_remove_def intro: filter_cong)
  then show ?thesis
    by (simp add: bt_keys_def filter_empty_conv)
qed

lemma mint_audit_eq:
  assumes "issued (md_audit db) < 2 ^ 64" and "redeemed (md_audit db) < 2 ^ 64"
  shows "mint_audit db audit mid =
    (db\<lparr>md_audit := [(IssuanceTotal, of_nat (issued (md_audit db))), (RedemptionTotal, of_nat (redeemed (md_audit db)))]\<rparr>,
     audit @ [\<lparr>ai_milli_sat = - of_nat (issued (md_audit db)), ai_module_instance_id = Some mid\<rparr>,
              \<lparr>ai_milli_sat = of_nat (redeemed (md_audit db)), ai_module_instance_id = Some mid\<rparr>])"
proof -
  have "\<not> RedemptionTotal < IssuanceTotal"
    by (simp add: less_mint_audit_item_key_def)
  then show ?thesis
    unfolding mint_audit_def audit_totals_eq [OF assms] remove_all_keys
    by (simp add: insert_entry_def add_items_def)
qed

text \<open>
  As long as the sums issued and redeemed fit in \<open>i64\<close>, an audit of the mint adds items
  worth exactly the balance of the module to the sheet, and replacing the logged items by their
  totals changes neither the balance nor the invariant.
\<close>

lemma mint_audit_reports_balance:
  assumes wf: "mint_wf db"
    and small: "issued (md_audit db) < 2 ^ 63" "redeemed (md_audit db) < 2 ^ 63"
    and audit: "mint_audit db items mid = (db', items')"
  shows "net items' = net items + mint_balance db \<and> mint_balance db' = mint_balance db \<and> mint_wf db'
    \<and> (\<forall>n. note_spent_endpoint db' n = note_spent_endpoint db n)"
proof -
  have small64: "issued (md_audit db) < 2 ^ 64" "redeemed (md_audit db) < 2 ^ 64"
    using small by simp_all
  note eq = audit [unfolded mint_audit_eq [OF small64], symmetric]
  then have db': "md_audit db' = [(IssuanceTotal, of_nat (issued (md_audit db))),
      (RedemptionTotal, of_nat (redeemed (md_audit db)))]"
    by simp
  have "unat (of_nat (issued (md_audit db)) :: u64) = issued (md_audit db)"
    "unat (of_nat (redeemed (md_audit db)) :: u64) = redeemed (md_audit db)"
    using small64 by (simp_all only: unat_of_nat_u64)
  then have "issued (md_audit db') = issued (md_audit db)" "redeemed (md_audit db') = redeemed (md_audit db)"
    unfolding db' by (simp_all add: issued_def redeemed_def)
  then have bal: "mint_balance db' = mint_balance db"
    by (simp only: mint_balance_def balance_issued_redeemed)
  have "mint_wf db'"
    using wf eq by (auto simp: mint_wf_def bt_wf_def less_mint_audit_item_key_def)
  moreover have "net items' = net items + mint_balance db"
    using eq small by (simp add: mint_balance_def balance_issued_redeemed sint_of_nat_small sint_minus_of_nat_small)
  ultimately show ?thesis
    using bal eq by (simp add: note_spent_endpoint_def)
qed

subsection \<open>Executions\<close>

text \<open>
  Any interleaving of accepted inputs, accepted outputs and audits. A run is read with its last
  step first.
\<close>

datatype 'g1 mint_event =
    RedeemNote "'g1 mint_input" in_point
  | IssueNote "'g1 mint_output" out_point
  | RunAudit module_instance_id

inductive mint_step ::
  "('s, 'g1::linorder, 'g2, 'gt) curve \<Rightarrow> (bytes \<Rightarrow> bytes) \<Rightarrow> ('s, 'g2) mint
    \<Rightarrow> 'g1 mint_db \<Rightarrow> 'g1 mint_event \<Rightarrow> 'g1 mint_db \<Rightarrow> bool"
  for C :: "('s, 'g1::linorder, 'g2, 'gt) curve" and h :: "bytes \<Rightarrow> bytes" and M :: "('s, 'g2) mint" where
  redeem: "mint_process_input h M db i p = Ok (db', meta) \<Longrightarrow> mint_step C h M db (RedeemNote i p) db'"
| issue: "mint_process_output C h M db ot q = Ok (db', a) \<Longrightarrow> mint_step C h M db (IssueNote ot q) db'"
| audit: "mint_audit db items mid = (db', items') \<Longrightarrow> mint_step C h M db (RunAudit mid) db'"

inductive mint_run ::
  "('s, 'g1::linorder, 'g2, 'gt) curve \<Rightarrow> (bytes \<Rightarrow> bytes) \<Rightarrow> ('s, 'g2) mint
    \<Rightarrow> 'g1 mint_db \<Rightarrow> 'g1 mint_event list \<Rightarrow> 'g1 mint_db \<Rightarrow> bool"
  for C :: "('s, 'g1::linorder, 'g2, 'gt) curve" and h :: "bytes \<Rightarrow> bytes" and M :: "('s, 'g2) mint" where
  start: "mint_run C h M db [] db"
| step: "mint_run C h M db evs db' \<Longrightarrow> mint_step C h M db' ev db'' \<Longrightarrow> mint_run C h M db (evs @ [ev]) db''"

inductive_cases mint_step_redeem: "mint_step C h M db (RedeemNote i p) db'"
inductive_cases mint_step_issue: "mint_step C h M db (IssueNote ot q) db'"
inductive_cases mint_step_audit: "mint_step C h M db (RunAudit mid) db'"

fun event_nonces :: "'g1 mint_event \<Rightarrow> nonce list" where
  "event_nonces (RedeemNote (MintInputV0 amount note) p) = [nt_nonce note]"
| "event_nonces _ = []"

definition redeemed_nonces :: "'g1 mint_event list \<Rightarrow> nonce list" where
  "redeemed_nonces evs = concat (map event_nonces evs)"

lemma mint_audit_wf:
  assumes "mint_wf db" and "mint_audit db items mid = (db', items')"
  shows "mint_wf db'" and "\<exists>t. db' = db\<lparr>md_audit := t\<rparr>"
proof -
  obtain i r where t: "audit_totals (md_audit db) = (i, r)" by (cases "audit_totals (md_audit db)")
  have "\<not> RedemptionTotal < IssuanceTotal"
    by (simp add: less_mint_audit_item_key_def)
  then have db': "db' = db\<lparr>md_audit := [(IssuanceTotal, i), (RedemptionTotal, r)]\<rparr>"
    using assms(2) by (simp add: mint_audit_def t remove_all_keys insert_entry_def Let_def)
  then show "mint_wf db'" "\<exists>t. db' = db\<lparr>md_audit := t\<rparr>"
    using assms(1) by (auto simp: mint_wf_def bt_wf_def less_mint_audit_item_key_def)
qed

lemma mint_step_wf: "mint_step C h M db ev db' \<Longrightarrow> mint_wf db \<Longrightarrow> mint_wf db'"
  by (induction rule: mint_step.induct) (auto dest: mint_input_keeps mint_output_keeps mint_audit_wf)

lemma mint_run_wf: "mint_run C h M db evs db' \<Longrightarrow> mint_wf db \<Longrightarrow> mint_wf db'"
  by (induction rule: mint_run.induct) (auto dest: mint_step_wf)

lemma mint_step_nonces:
  assumes "mint_step C h M db ev db'" and wf: "mint_wf db"
  shows "dom (bt_get (md_nonces db')) = dom (bt_get (md_nonces db)) \<union> set (event_nonces ev)
    \<and> distinct (event_nonces ev) \<and> set (event_nonces ev) \<inter> dom (bt_get (md_nonces db)) = {}"
  using assms(1)
proof cases
  case (redeem i p meta)
  from wf redeem(2) show ?thesis
    by (rule mint_process_input_Ok) (auto simp: redeem(1) map_of_bt_insert)
next
  case (issue ot q a)
  from wf issue(2) show ?thesis
    by (rule mint_process_output_Ok) (auto simp: issue(1))
next
  case (audit items mid items')
  with mint_audit_wf(2) [OF wf audit(2)] show ?thesis
    by auto
qed

text \<open>
  C22: in no execution of the mint, however inputs, outputs and audits are interleaved, is a note
  redeemed twice, and none is redeemed that was spent before; the nonces the API reports as spent are
  exactly those spent before and those redeemed since.
\<close>

theorem mint_no_double_spend:
  assumes "mint_run C h M db evs db'" and "mint_wf db"
  shows "distinct (redeemed_nonces evs)
    \<and> (\<forall>n\<in>set (redeemed_nonces evs). \<not> note_spent_endpoint db n)
    \<and> (\<forall>n. note_spent_endpoint db' n \<longleftrightarrow> note_spent_endpoint db n \<or> n \<in> set (redeemed_nonces evs))"
  using assms
proof (induction rule: mint_run.induct)
  case (start db)
  then show ?case by (simp add: redeemed_nonces_def)
next
  case (step db evs db' ev db'')
  have "mint_wf db'"
    using step.hyps(1) step.prems by (rule mint_run_wf)
  from mint_step_nonces [OF step.hyps(2) this] step.IH [OF step.prems]
  show ?case
    unfolding redeemed_nonces_def note_spent_endpoint_def by (auto simp: domIff set_eq_iff disjoint_iff)
qed

definition sample_note :: "rat mint_note" where
  "sample_note = \<lparr>nt_nonce = [2], nt_signature = 1\<rparr>"

definition sample_mint :: "(rat, rat) mint" where
  "sample_mint = \<lparr>m_cfg = \<lparr>mc_tbs_sks = [(8, 5)], mc_peer_tbs_pks = [(0, [(8, 5)])],
     mc_fee_consensus = \<lparr>fc_base = 100, fc_ppm = 0\<rparr>, mc_max_notes_per_denomination = 3\<rparr>,
     m_sec_key = [(8, 5)], m_pub_key = [(8, 5)]\<rparr>"

lemma mint_wf_empty [simp]: "mint_wf mint_db_empty"
  by (auto simp: mint_wf_def mint_db_empty_def index_log_def intro!: exI [of _ "[]"])

lemma sample_redeem:
  "\<exists>db meta. mint_process_input (\<lambda>b. b) sample_mint mint_db_empty (MintInputV0 8 sample_note) p = Ok (db, meta)"
  by (simp add: mint_process_input_def mint_db_empty_def insert_entry_def insert_new_entry_def sample_mint_def
    get_recovery_count_def find_by_prefix_sorted_descending_def mint_fee_def mint_fee_msats_def checked_add_def
    saturating_mul_def)

lemma sample_run:
  "\<exists>db. mint_run rat_curve (\<lambda>b. b) sample_mint mint_db_empty [RedeemNote (MintInputV0 8 sample_note) ([], 0)] db"
proof -
  obtain db meta where "mint_process_input (\<lambda>b. b) sample_mint mint_db_empty (MintInputV0 8 sample_note) ([], 0) = Ok (db, meta)"
    using sample_redeem by blast
  then have "mint_step rat_curve (\<lambda>b. b) sample_mint mint_db_empty (RedeemNote (MintInputV0 8 sample_note) ([], 0)) db"
    by (rule mint_step.redeem)
  from mint_run.step [OF mint_run.start this]
  have run: "mint_run rat_curve (\<lambda>b. b) sample_mint mint_db_empty [RedeemNote (MintInputV0 8 sample_note) ([], 0)] db"
    by simp
  then show ?thesis by blast
qed

theorem mint_no_double_spend_witness:
  "\<exists>db. mint_run rat_curve (\<lambda>b. b) sample_mint mint_db_empty [RedeemNote (MintInputV0 8 sample_note) ([], 0)] db
    \<and> note_spent_endpoint db [2]"
proof -
  obtain db where run: "mint_run rat_curve (\<lambda>b. b) sample_mint mint_db_empty
      [RedeemNote (MintInputV0 8 sample_note) ([], 0)] db"
    using sample_run by blast
  from mint_no_double_spend [OF run] have "note_spent_endpoint db [2]"
    by (simp add: redeemed_nonces_def sample_note_def)
  with run show ?thesis by blast
qed

subsection \<open>Migrations rebuild the tables\<close>

fun event_history :: "'g1 mint_event \<Rightarrow> 'g1 history_item list" where
  "event_history (RedeemNote i p) = [HistoryInput i]"
| "event_history (IssueNote ot q) = [HistoryOutput ot q]"
| "event_history (RunAudit mid) = []"

definition history_of :: "'g1 mint_event list \<Rightarrow> 'g1 history_item list" where
  "history_of evs = concat (map event_history evs)"

lemma history_blind_nonces_append:
  "history_blind_nonces (xs @ ys) =
     rbind (history_blind_nonces xs) (\<lambda>as. map_ok ((@) as) (history_blind_nonces ys :: ('e, 'g list) result))"
proof (induction xs)
  case Nil
  show ?case by (cases "history_blind_nonces ys :: ('e, 'g list) result") auto
next
  case (Cons x xs)
  then show ?case
  proof (cases x)
    case (HistoryOutput ot q)
    then show ?thesis
      using Cons by (cases ot; cases "history_blind_nonces xs :: ('e, 'g list) result";
        cases "history_blind_nonces ys :: ('e, 'g list) result") auto
  qed simp_all
qed

lemma history_recovery_append:
  fixes C :: "('s, 'g, 'g2, 'gt) curve"
  shows "history_recovery C h (xs @ ys) = rbind (history_recovery C h xs) (\<lambda>(as, bs).
     map_ok (\<lambda>(cs, ds). (as @ cs, bs @ ds))
       (history_recovery C h ys :: ('e, recovery_item list \<times> ('g \<times> out_point) list) result))"
proof (induction xs)
  case Nil
  show ?case
    by (cases "history_recovery C h ys :: ('e, recovery_item list \<times> ('g \<times> out_point) list) result") auto
next
  case (Cons x xs)
  then show ?case
  proof (cases x)
    case (HistoryOutput ot q)
    then show ?thesis
      using Cons by (cases ot;
        cases "history_recovery C h xs :: ('e, recovery_item list \<times> ('g \<times> out_point) list) result";
        cases "history_recovery C h ys :: ('e, recovery_item list \<times> ('g \<times> out_point) list) result") auto
  next
    case (HistoryInput i)
    then show ?thesis
      using Cons by (cases i;
        cases "history_recovery C h xs :: ('e, recovery_item list \<times> ('g \<times> out_point) list) result";
        cases "history_recovery C h ys :: ('e, recovery_item list \<times> ('g \<times> out_point) list) result") auto
  qed simp_all
qed

text \<open>What the history of a run says about its tables.\<close>

lemma mint_run_history:
  assumes "mint_run C h M db0 evs db" and "db0 = mint_db_empty"
  shows "\<exists>bns items outpoints. length items \<le> 2 ^ 64
    \<and> history_blind_nonces (history_of evs) = (Ok bns :: ('e, _) result)
    \<and> md_blind_nonces db = fold (\<lambda>bn t. bt_insert bn () t) bns []
    \<and> history_recovery C h (history_of evs) = (Ok (items, outpoints) :: ('e, _) result)
    \<and> md_recovery db = index_log items
    \<and> md_recovery_outpoints db = fold (\<lambda>(bn, q) t. bt_insert bn q t) outpoints []"
  using assms
proof (induction rule: mint_run.induct)
  case (start db)
  then show ?case
    by (intro exI [of _ "[]"]) (simp add: history_of_def mint_db_empty_def index_log_def)
next
  case (step db0 evs db ev db')
  have wf: "mint_wf db"
    using mint_run_wf [OF step.hyps(1)] step.prems by simp
  from step.IH [OF step.prems] obtain bns items outpoints where IH: "length items \<le> 2 ^ 64"
    "history_blind_nonces (history_of evs) = (Ok bns :: ('e, _) result)"
    "md_blind_nonces db = fold (\<lambda>bn t. bt_insert bn () t) bns []"
    "history_recovery C h (history_of evs) = (Ok (items, outpoints) :: ('e, _) result)"
    "md_recovery db = index_log items"
    "md_recovery_outpoints db = fold (\<lambda>(bn, q) t. bt_insert bn q t) outpoints []"
    by blast
  have app: "history_of (evs @ [e]) = history_of evs @ event_history e" for e
    by (simp add: history_of_def)
  note app' = app history_blind_nonces_append [where 'e = 'e] history_recovery_append [where 'e = 'e]
  show ?case
  proof (cases rule: mint_step.cases [OF step.hyps(2)])
    case (1 db2 i p db2' meta)
    from wf 1(4) [folded 1(1,3)] show ?thesis
    proof (rule mint_process_input_Ok)
      fix amount nt fee items'
      assume *: "i = MintInputV0 amount nt" "md_recovery db = index_log items'" "length items' < 2 ^ 64"
        "db' = db\<lparr>md_nonces := bt_insert (nt_nonce nt) () (md_nonces db),
          md_audit := bt_insert (Redemption (nt_nonce nt)) amount (md_audit db),
          md_recovery := index_log (items' @ [RecoveryInput (consensus_hash h (\<lambda>b. b) (nt_nonce nt))])\<rparr>"
      then have "items' = items"
        using index_log_inj IH(5) by metis
      then show ?thesis
        using * IH 1(2)
        by (intro exI [of _ bns] exI [of _ "items @ [RecoveryInput (consensus_hash h (\<lambda>b. b) (nt_nonce nt))]"]
          exI [of _ outpoints]) (simp add: app')
    qed
  next
    case (2 db2 ot q db2' a)
    from wf 2(4) [folded 2(1,3)] show ?thesis
    proof (rule mint_process_output_Ok)
      fix amount bn sk fee items'
      assume *: "ot = MintOutputV0 amount bn" "md_recovery db = index_log items'" "length items' < 2 ^ 64"
        "db' = db\<lparr>md_outcomes := bt_insert q (MintOutputOutcomeV0 (sign_message C bn sk)) (md_outcomes db),
          md_audit := bt_insert (Issuance q) amount (md_audit db),
          md_blind_nonces := bt_insert bn () (md_blind_nonces db),
          md_recovery := index_log (items' @ [RecoveryOutput amount (consensus_hash h (g1_to_compressed C) bn)]),
          md_recovery_outpoints := bt_insert bn q (md_recovery_outpoints db)\<rparr>"
      then have "items' = items"
        using index_log_inj IH(5) by metis
      then show ?thesis
        using * IH 2(2)
        by (intro exI [of _ "bns @ [bn]"] exI [of _ "outpoints @ [(bn, q)]"]
          exI [of _ "items @ [RecoveryOutput amount (consensus_hash h (g1_to_compressed C) bn)]"]) (simp add: app')
    qed
  next
    case (3 db2 its mid db2' its')
    then obtain t where "db' = db\<lparr>md_audit := t\<rparr>"
      using mint_audit_wf(2) [OF wf] by blast
    then show ?thesis
      using IH 3(2) by (intro exI [of _ bns] exI [of _ items] exI [of _ outpoints]) (simp add: app)
  qed
qed

lemma insert_enumerated_log:
  assumes "length (xs @ items) \<le> 2 ^ 64"
  shows "insert_enumerated (length xs) items (index_log xs) = Ok (index_log (xs @ items))"
  using assms
proof (induction items arbitrary: xs)
  case (Cons x items)
  then have "length xs < 2 ^ 64" by simp
  then show ?case
    using Cons.IH [of "xs @ [x]"] Cons.prems by (simp add: insert_index_log insert_new_entry_def insert_entry_def)
qed simp

text \<open>
  C27: the migrations rebuild, from the consensus history alone, exactly the tables that processing
  the same history live has written: the used blind nonces, the recovery log and the outpoints.
\<close>

theorem mint_migrations_rebuild:
  assumes "mint_run C h M mint_db_empty evs db"
  shows "migrate_db_v0 (history_of evs) (db\<lparr>md_blind_nonces := []\<rparr>) = (Ok db :: ('e, _) result)
    \<and> migrate_db_v2 C h (history_of evs) (db\<lparr>md_recovery := [], md_recovery_outpoints := []\<rparr>) = (Ok db :: ('e, _) result)"
proof -
  from mint_run_history [OF assms refl, where 'e = 'e] obtain bns items outpoints where *: "length items \<le> 2 ^ 64"
    "history_blind_nonces (history_of evs) = (Ok bns :: ('e, _) result)"
    "md_blind_nonces db = fold (\<lambda>bn t. bt_insert bn () t) bns []"
    "history_recovery C h (history_of evs) = (Ok (items, outpoints) :: ('e, _) result)"
    "md_recovery db = index_log items"
    "md_recovery_outpoints db = fold (\<lambda>(bn, q) t. bt_insert bn q t) outpoints []"
    by blast
  have v0: "migrate_db_v0 (history_of evs) (db\<lparr>md_blind_nonces := []\<rparr>) = (Ok db :: ('e, _) result)"
    by (simp add: migrate_db_v0_def * insert_entry_def flip: *(3))
  have "insert_enumerated 0 items [] = (Ok (index_log items) :: ('e, _) result)"
    using insert_enumerated_log [of "[]" items] *(1) by simp
  then show ?thesis
    using v0 by (simp add: migrate_db_v2_def *(4) insert_entry_def flip: *(5,6))
qed

theorem mint_migrations_rebuild_witness:
  "\<exists>db. mint_run rat_curve (\<lambda>b. b) sample_mint mint_db_empty [RedeemNote (MintInputV0 8 sample_note) ([], 0)] db
    \<and> migrate_db_v2 rat_curve (\<lambda>b. b) [HistoryInput (MintInputV0 8 sample_note)]
        (db\<lparr>md_recovery := [], md_recovery_outpoints := []\<rparr>) = (Ok db :: (unit, _) result)"
proof -
  obtain db where run: "mint_run rat_curve (\<lambda>b. b) sample_mint mint_db_empty
      [RedeemNote (MintInputV0 8 sample_note) ([], 0)] db"
    using sample_run by blast
  with mint_migrations_rebuild [OF run, where 'e = unit] show ?thesis
    by (auto simp: history_of_def)
qed

end
