(* ===== verification/Dkg.thy ===== *)
theory Dkg
  imports Tbs Peers
begin

section \<open>Distributed key generation\<close>

text \<open>
  The Pedersen key generation of \<open>fedimint-server/src/config/dkg_g1.rs\<close> and
  \<open>dkg_g2.rs\<close>, which are the same code for the two groups of the curve, with the helpers of
  \<open>fedimint-server-core/src/config.rs\<close>. A \<open>dkg_group\<close> names the group. Every guardian
  broadcasts a hash of its commitments, then the commitments, then sends each other guardian a share;
  \<open>dkg_step\<close> is what a guardian does with one message and \<open>run_dkg\<close> the loop that receives
  one message of every other guardian in turn. The random polynomial is an argument.

  The lemmas show that a result is consistent whatever the others send, and that honest guardians all
  end with the same public polynomial and with the shares of its secret.
\<close>

subsection \<open>Groups and polynomials\<close>

record ('s, 'g) dkg_group =
  dg_scale :: "'s \<Rightarrow> 'g \<Rightarrow> 'g"
  dg_generator :: 'g
  dg_hash :: "'g list \<Rightarrow> bytes"

definition dg_point :: "('s, 'g) dkg_group \<Rightarrow> 's \<Rightarrow> 'g" where
  "dg_point G s = dg_scale G s (dg_generator G)"

definition g2_group :: "('s, 'g1, 'g2, 'gt) curve \<Rightarrow> ('g2 list \<Rightarrow> bytes) \<Rightarrow> ('s, 'g2) dkg_group" where
  "g2_group C hash = \<lparr>dg_scale = g2_scale C, dg_generator = g2_generator C, dg_hash = hash\<rparr>"

definition g1_group :: "('s, 'g1, 'g2, 'gt) curve \<Rightarrow> ('g1 list \<Rightarrow> bytes) \<Rightarrow> ('s, 'g1) dkg_group" where
  "g1_group C hash = \<lparr>dg_scale = g1_scale C, dg_generator = g1_generator C, dg_hash = hash\<rparr>"

definition scalar :: "peer_id \<Rightarrow> 's::field" where
  "scalar peer = of_nat (unat (of_nat (peer_to_usize peer) + 1 :: u64))"

definition eval_poly_scalar :: "'s::field list \<Rightarrow> 's \<Rightarrow> ('e, 's) result" where
  "eval_poly_scalar coefficients x =
     expect (reduce (\<lambda>acc coefficient. acc * x + coefficient) (rev coefficients))"

definition eval_poly_group :: "('s::field \<Rightarrow> 'g::ab_group_add \<Rightarrow> 'g) \<Rightarrow> 'g list \<Rightarrow> peer_id \<Rightarrow> ('e, 'g) result" where
  "eval_poly_group scale coefficients peer =
     expect (reduce (\<lambda>acc coefficient. scale (scalar peer) acc + coefficient) (rev coefficients))"

definition eval_poly_g1 :: "('s::field, 'g1::ab_group_add, 'g2, 'gt) curve \<Rightarrow> 'g1 list \<Rightarrow> peer_id \<Rightarrow> ('e, 'g1) result" where
  "eval_poly_g1 C coefficients peer = eval_poly_group (g1_scale C) coefficients peer"

definition eval_poly_g2 :: "('s::field, 'g1, 'g2::ab_group_add, 'gt) curve \<Rightarrow> 'g2 list \<Rightarrow> peer_id \<Rightarrow> ('e, 'g2) result" where
  "eval_poly_g2 C coefficients peer = eval_poly_group (g2_scale C) coefficients peer"

subsection \<open>The state machine\<close>

datatype ('s, 'g) dkg_message =
    Hash bytes
  | Commitment "'g list"
  | Share 's

datatype ('s, 'g) dkg_step_result =
    Broadcast "('s, 'g) dkg_message"
  | Messages "(peer_id \<times> ('s, 'g) dkg_message) list"
  | DkgResult "'g list" 's

datatype dkg_error =
    TwoHashCommitments peer_id
  | HashCommitmentNotFound peer_id
  | HashCommitmentMismatch peer_id
  | WrongDegree peer_id
  | TwoCommitments peer_id
  | CommitmentNotFound peer_id
  | InvalidShare peer_id
  | TwoShares peer_id
  | ConnectionShutdown
  | UnexpectedMessage

record ('s, 'g) dkg =
  dkg_num_peers :: num_peers
  dkg_identity :: peer_id
  dkg_polynomial :: "'s list"
  dkg_hash_commitments :: "(peer_id, bytes) btree"
  dkg_commitments :: "(peer_id, 'g list) btree"
  dkg_sk_shares :: "(peer_id, 's) btree"

definition commitment_of :: "('s, 'g) dkg_group \<Rightarrow> 's list \<Rightarrow> 'g list" where
  "commitment_of G polynomial = map (dg_point G) polynomial"

definition dkg_new :: "('s, 'g) dkg_group \<Rightarrow> num_peers \<Rightarrow> peer_id \<Rightarrow> 's list \<Rightarrow> ('s, 'g) dkg" where
  "dkg_new G num_peers identity polynomial =
     \<lparr>dkg_num_peers = num_peers, dkg_identity = identity, dkg_polynomial = polynomial,
      dkg_hash_commitments = [(identity, dg_hash G (commitment_of G polynomial))],
      dkg_commitments = [(identity, commitment_of G polynomial)],
      dkg_sk_shares = []\<rparr>"

definition dkg_commitment :: "('s, 'g) dkg_group \<Rightarrow> ('s, 'g) dkg \<Rightarrow> 'g list" where
  "dkg_commitment G d = commitment_of G (dkg_polynomial d)"

definition initial_message :: "('s, 'g) dkg_group \<Rightarrow> ('s, 'g) dkg \<Rightarrow> ('s, 'g) dkg_message" where
  "initial_message G d = Hash (dg_hash G (dkg_commitment G d))"

text \<open>The share of every peer, our own kept and the others' sent.\<close>

fun dkg_shares ::
  "('s::field, 'g) dkg \<Rightarrow> peer_id list \<Rightarrow> (peer_id \<times> ('s, 'g) dkg_message) list
    \<Rightarrow> ('e, ('s, 'g) dkg \<times> (peer_id \<times> ('s, 'g) dkg_message) list) result" where
  "dkg_shares d [] messages = Ok (d, messages)"
| "dkg_shares d (peer # peers) messages =
     rbind (eval_poly_scalar (dkg_polynomial d) (scalar peer)) (\<lambda>s.
       if peer = dkg_identity d
       then dkg_shares (d\<lparr>dkg_sk_shares := bt_insert (dkg_identity d) s (dkg_sk_shares d)\<rparr>) peers messages
       else dkg_shares d peers (messages @ [(peer, Share s)]))"

definition dkg_checksum :: "('s::field, 'g::ab_group_add) dkg_group \<Rightarrow> peer_id \<Rightarrow> 'g list \<Rightarrow> ('e, 'g) result" where
  "dkg_checksum G identity polynomial =
     expect (reduce (+) (map (\<lambda>(c, x). dg_scale G x c)
       (zip polynomial (map (\<lambda>k. scalar identity ^ k) [0..<length polynomial]))))"

definition dkg_public :: "('s, 'g::ab_group_add) dkg \<Rightarrow> ('e, 'g list) result" where
  "dkg_public d =
     traverse (\<lambda>i.
       rbind (traverse (\<lambda>coefficients. slice_index coefficients i) (bt_values (dkg_commitments d))) (\<lambda>cs.
         expect (reduce (+) cs))) [0..<threshold (dkg_num_peers d)]"

definition dkg_step ::
  "('s::field, 'g::ab_group_add) dkg_group \<Rightarrow> ('s, 'g) dkg \<Rightarrow> peer_id \<Rightarrow> ('s, 'g) dkg_message
    \<Rightarrow> (dkg_error, ('s, 'g) dkg \<times> ('s, 'g) dkg_step_result) result" where
  "dkg_step G d peer msg =
     (case msg of
        Hash hash \<Rightarrow>
          rbind (ensure (bt_get (dkg_hash_commitments d) peer = None) (TwoHashCommitments peer)) (\<lambda>_.
            let d = d\<lparr>dkg_hash_commitments := bt_insert peer hash (dkg_hash_commitments d)\<rparr>
            in if length (dkg_hash_commitments d) = np_total (dkg_num_peers d)
               then Ok (d, Broadcast (Commitment (dkg_commitment G d)))
               else Ok (d, Messages []))
      | Commitment polynomial \<Rightarrow>
          rbind (ok_or (bt_get (dkg_hash_commitments d) peer) (HashCommitmentNotFound peer)) (\<lambda>hash.
          rbind (ensure (hash = dg_hash G polynomial) (HashCommitmentMismatch peer)) (\<lambda>_.
          rbind (ensure (threshold (dkg_num_peers d) = length polynomial) (WrongDegree peer)) (\<lambda>_.
          rbind (ensure (bt_get (dkg_commitments d) peer = None) (TwoCommitments peer)) (\<lambda>_.
            let d = d\<lparr>dkg_commitments := bt_insert peer polynomial (dkg_commitments d)\<rparr>
            in if length (dkg_commitments d) = np_total (dkg_num_peers d)
               then rbind (dkg_shares d (peer_ids (dkg_num_peers d)) []) (\<lambda>(d, messages). Ok (d, Messages messages))
               else Ok (d, Messages [])))))
      | Share s \<Rightarrow>
          rbind (ok_or (bt_get (dkg_commitments d) peer) (CommitmentNotFound peer)) (\<lambda>polynomial.
          rbind (dkg_checksum G (dkg_identity d) polynomial) (\<lambda>checksum.
          rbind (ensure (dg_point G s = checksum) (InvalidShare peer)) (\<lambda>_.
          rbind (ensure (bt_get (dkg_sk_shares d) peer = None) (TwoShares peer)) (\<lambda>_.
            let d = d\<lparr>dkg_sk_shares := bt_insert peer s (dkg_sk_shares d)\<rparr>
            in if length (dkg_sk_shares d) = np_total (dkg_num_peers d)
               then rbind (dkg_public d) (\<lambda>pks. Ok (d, DkgResult pks (sum_list (bt_values (dkg_sk_shares d)))))
               else Ok (d, Messages []))))))"

subsection \<open>The loop\<close>

datatype recipient = Everyone | Peer peer_id

datatype ('s, 'g) p2p_message =
    DkgMessage "('s, 'g) dkg_message"
  | OtherMessage

text \<open>What the connections will deliver, and what was sent. An exhausted connection is a shutdown.\<close>

type_synonym ('s, 'g) inbox = "peer_id \<Rightarrow> ('s, 'g) p2p_message list"
type_synonym ('s, 'g) outbox = "(recipient \<times> ('s, 'g) dkg_message) list"

fun dkg_round ::
  "('s::field, 'g::ab_group_add) dkg_group \<Rightarrow> peer_id list \<Rightarrow> ('s, 'g) dkg \<Rightarrow> ('s, 'g) inbox \<Rightarrow> ('s, 'g) outbox
    \<Rightarrow> (dkg_error, ('s, 'g) dkg \<times> ('s, 'g) inbox \<times> ('s, 'g) outbox + ('g list \<times> 's) \<times> ('s, 'g) outbox) result" where
  "dkg_round G [] d inbox out = Ok (Inl (d, inbox, out))"
| "dkg_round G (peer # peers) d inbox out =
     (case inbox peer of
        [] \<Rightarrow> Err ConnectionShutdown
      | OtherMessage # _ \<Rightarrow> Err UnexpectedMessage
      | DkgMessage message # rest \<Rightarrow>
          rbind (dkg_step G d peer message) (\<lambda>(d, step).
            case step of
              Broadcast m \<Rightarrow> dkg_round G peers d (inbox(peer := rest)) (out @ [(Everyone, m)])
            | Messages ms \<Rightarrow>
                dkg_round G peers d (inbox(peer := rest)) (out @ map (\<lambda>(p, m). (Peer p, m)) ms)
            | DkgResult pks sks \<Rightarrow> Ok (Inr ((pks, sks), out))))"

text \<open>A guardian without peers would loop for ever: not returning is \<open>None\<close>.\<close>

partial_function (option) dkg_loop ::
  "('s::field, 'g::ab_group_add) dkg_group \<Rightarrow> peer_id list \<Rightarrow> ('s, 'g) dkg \<Rightarrow> ('s, 'g) inbox \<Rightarrow> ('s, 'g) outbox
    \<Rightarrow> (dkg_error, ('g list \<times> 's) \<times> ('s, 'g) outbox) result option" where
  "dkg_loop G peers d inbox out =
     (case dkg_round G peers d inbox out of
        Ok (Inl (d, inbox, out)) \<Rightarrow> dkg_loop G peers d inbox out
      | Ok (Inr r) \<Rightarrow> Some (Ok r)
      | Err e \<Rightarrow> Some (Err e)
      | Panic \<Rightarrow> Some Panic)"

definition run_dkg ::
  "('s::field, 'g::ab_group_add) dkg_group \<Rightarrow> num_peers \<Rightarrow> peer_id \<Rightarrow> 's list \<Rightarrow> ('s, 'g) inbox
    \<Rightarrow> (dkg_error, ('g list \<times> 's) \<times> ('s, 'g) outbox) result option" where
  "run_dkg G num_peers identity polynomial inbox =
     (let d = dkg_new G num_peers identity polynomial
      in dkg_loop G (filter (\<lambda>p. p \<noteq> identity) (peer_ids num_peers)) d inbox
           [(Everyone, initial_message G d)])"

definition run_dkg_g1 ::
  "('s::field, 'g1::ab_group_add, 'g2, 'gt) curve \<Rightarrow> ('g1 list \<Rightarrow> bytes) \<Rightarrow> num_peers \<Rightarrow> peer_id \<Rightarrow> 's list
    \<Rightarrow> ('s, 'g1) inbox \<Rightarrow> (dkg_error, ('g1 list \<times> 's) \<times> ('s, 'g1) outbox) result option" where
  "run_dkg_g1 C hash = run_dkg (g1_group C hash)"

definition run_dkg_g2 ::
  "('s::field, 'g1, 'g2::ab_group_add, 'gt) curve \<Rightarrow> ('g2 list \<Rightarrow> bytes) \<Rightarrow> num_peers \<Rightarrow> peer_id \<Rightarrow> 's list
    \<Rightarrow> ('s, 'g2) inbox \<Rightarrow> (dkg_error, ('g2 list \<times> 's) \<times> ('s, 'g2) outbox) result option" where
  "run_dkg_g2 C hash = run_dkg (g2_group C hash)"

text \<open>
  \<open>exchange_bytes\<close> and \<open>exchange_encodable\<close>: every guardian sends the same bytes to all and
  collects those of the others. An error is \<open>None\<close>.
\<close>

fun exchange_collect ::
  "(peer_id \<Rightarrow> bytes option list) \<Rightarrow> peer_id list \<Rightarrow> (peer_id, bytes) btree \<Rightarrow> (peer_id, bytes) btree option" where
  "exchange_collect inbox [] peer_data = Some peer_data"
| "exchange_collect inbox (peer # peers) peer_data =
     (case inbox peer of
        Some b # _ \<Rightarrow> exchange_collect inbox peers (bt_insert peer b peer_data)
      | _ \<Rightarrow> None)"

definition exchange_bytes ::
  "num_peers \<Rightarrow> peer_id \<Rightarrow> bytes \<Rightarrow> (peer_id \<Rightarrow> bytes option list) \<Rightarrow> (peer_id, bytes) btree option" where
  "exchange_bytes n identity bs inbox =
     exchange_collect inbox (filter (\<lambda>p. p \<noteq> identity) (peer_ids n)) (bt_insert identity bs [])"

fun decode_all :: "'a decoder \<Rightarrow> (peer_id \<times> bytes) list \<Rightarrow> (peer_id, 'a) btree \<Rightarrow> (peer_id, 'a) btree option" where
  "decode_all dec [] decoded = Some decoded"
| "decode_all dec ((k, bs) # rest) decoded =
     (case consensus_decode_whole dec bs of
        Ok x \<Rightarrow> decode_all dec rest (bt_insert k x decoded)
      | _ \<Rightarrow> None)"

definition exchange_encodable ::
  "'a encoder \<Rightarrow> 'a decoder \<Rightarrow> num_peers \<Rightarrow> peer_id \<Rightarrow> 'a \<Rightarrow> (peer_id \<Rightarrow> bytes option list)
    \<Rightarrow> (peer_id, 'a) btree option" where
  "exchange_encodable enc dec n identity x inbox =
     (case exchange_bytes n identity (enc x) inbox of
        None \<Rightarrow> None
      | Some data \<Rightarrow> decode_all dec data [])"

subsection \<open>Polynomials\<close>

definition poly_value :: "'s::field list \<Rightarrow> 's \<Rightarrow> 's" where
  "poly_value cs x = (\<Sum>k<length cs. cs ! k * x ^ k)"

definition group_value :: "('s::field \<Rightarrow> 'g::ab_group_add \<Rightarrow> 'g) \<Rightarrow> 'g list \<Rightarrow> 's \<Rightarrow> 'g" where
  "group_value scale cs x = (\<Sum>k<length cs. scale (x ^ k) (cs ! k))"

lemma is_poly_value: "is_poly (length cs) (poly_value cs)"
  unfolding is_poly_def poly_value_def by (rule exI [of _ "(!) cs"]) simp

lemma poly_value_Cons: "poly_value (c # cs) x = poly_value cs x * x + c"
  by (simp add: poly_value_def sum.lessThan_Suc_shift sum_distrib_left ac_simps del: sum.lessThan_Suc)

lemma poly_value_0: "cs \<noteq> [] \<Longrightarrow> poly_value cs 0 = hd cs"
  by (cases cs) (simp_all add: poly_value_Cons)

lemma vs_simps:
  assumes "vector_space scale"
  shows "scale a (x + y) = scale a x + scale a y" and "scale (a + b) x = scale a x + scale b x"
    and "scale a (scale b x) = scale (a * b) x" and "scale 1 x = x"
    and "scale a (\<Sum>i\<in>I. f i) = (\<Sum>i\<in>I. scale a (f i))" and "scale (\<Sum>i\<in>I. g i) x = (\<Sum>i\<in>I. scale (g i) x)"
    and "scale a 0 = 0"
  using assms by (simp_all add: vector_space.vector_space_assms module.scale_sum_right module.scale_sum_left
    module.scale_zero_right module_iff_vector_space)

lemma group_value_Cons:
  assumes vs: "vector_space scale"
  shows "group_value scale (c # cs) x = scale x (group_value scale cs x) + c"
  by (simp add: group_value_def sum.lessThan_Suc_shift vs_simps [OF vs] ac_simps del: sum.lessThan_Suc)

lemma reduce_snoc: "ys \<noteq> [] \<Longrightarrow> reduce f (ys @ [c]) = Some (f (the (reduce f ys)) c)"
  by (cases ys) auto

lemma reduce_some: "ys \<noteq> [] \<Longrightarrow> \<exists>y. reduce f ys = Some y"
  by (cases ys) auto

lemma eval_poly_scalar_eq: "cs \<noteq> [] \<Longrightarrow> eval_poly_scalar cs x = Ok (poly_value cs x)"
proof -
  have "cs \<noteq> [] \<Longrightarrow> reduce (\<lambda>acc coefficient. acc * x + coefficient) (rev cs) = Some (poly_value cs x)"
  proof (induction cs)
    case (Cons c cs)
    then show ?case
      by (cases "cs = []") (simp_all add: reduce_snoc poly_value_Cons, simp add: poly_value_def)
  qed simp
  then show "cs \<noteq> [] \<Longrightarrow> ?thesis"
    by (simp add: eval_poly_scalar_def)
qed

lemma eval_poly_group_eq:
  assumes vs: "vector_space scale" and "cs \<noteq> []"
  shows "eval_poly_group scale cs peer = Ok (group_value scale cs (scalar peer))"
proof -
  have "cs \<noteq> [] \<Longrightarrow> reduce (\<lambda>acc coefficient. scale (scalar peer) acc + coefficient) (rev cs)
      = Some (group_value scale cs (scalar peer))"
  proof (induction cs)
    case (Cons c cs)
    then show ?case
      by (cases "cs = []") (simp_all add: reduce_snoc group_value_Cons [OF vs],
        simp add: group_value_def vs_simps [OF vs])
  qed simp
  then show ?thesis
    using assms(2) by (simp add: eval_poly_group_def)
qed

lemma dkg_checksum_eq:
  assumes "cs \<noteq> []"
  shows "dkg_checksum G i cs = Ok (group_value (dg_scale G) cs (scalar i))"
proof -
  have "map (\<lambda>(c, x). dg_scale G x c) (zip cs (map (\<lambda>k. scalar i ^ k) [0..<length cs]))
      = map (\<lambda>k. dg_scale G (scalar i ^ k) (cs ! k)) [0..<length cs]"
    by (rule nth_equalityI) auto
  then show ?thesis
    using assms by (simp add: dkg_checksum_def reduce_add group_value_def interv_sum_list_conv_sum_set_nat atLeast0LessThan)
qed

lemma group_value_commitment:
  assumes "vector_space (dg_scale G)"
  shows "group_value (dg_scale G) (commitment_of G f) x = dg_point G (poly_value f x)"
  by (simp add: group_value_def commitment_of_def dg_point_def poly_value_def vs_simps [OF assms] mult.commute)

text \<open>The sum of polynomials, coefficient by coefficient.\<close>

lemma group_value_sum:
  assumes vs: "vector_space scale" and "\<And>p. p \<in> P \<Longrightarrow> length (c p) = t"
  shows "group_value scale (map (\<lambda>k. \<Sum>p\<in>P. c p ! k) [0..<t]) x = (\<Sum>p\<in>P. group_value scale (c p) x)"
proof -
  have "(\<Sum>p\<in>P. group_value scale (c p) x) = (\<Sum>p\<in>P. \<Sum>k<t. scale (x ^ k) (c p ! k))"
    using assms(2) by (simp add: group_value_def)
  also have "\<dots> = (\<Sum>k<t. \<Sum>p\<in>P. scale (x ^ k) (c p ! k))"
    by (rule sum.swap)
  finally show ?thesis
    by (simp add: group_value_def vs_simps(5) [OF vs])
qed

lemma poly_value_sum:
  assumes "\<And>p. p \<in> P \<Longrightarrow> length (c p) = t"
  shows "poly_value (map (\<lambda>k. \<Sum>p\<in>P. c p ! k) [0..<t]) x = (\<Sum>p\<in>P. poly_value (c p) x)"
proof -
  have "(\<Sum>p\<in>P. poly_value (c p) x) = (\<Sum>p\<in>P. \<Sum>k<t. c p ! k * x ^ k)"
    using assms by (simp add: poly_value_def)
  also have "\<dots> = (\<Sum>k<t. \<Sum>p\<in>P. c p ! k * x ^ k)"
    by (rule sum.swap)
  finally show ?thesis
    by (simp add: poly_value_def sum_distrib_right)
qed

subsection \<open>The result is consistent whatever the others send\<close>

lemma sum_list_bt_values:
  assumes "bt_wf m"
  shows "sum_list (map f (bt_values m)) = (\<Sum>p\<in>dom (map_of m). f (the (map_of m p)))"
  using bt.total_dom [OF assms, of "\<lambda>k v. f v"]
  by (simp add: bt.total_def bt_values_def comp_def case_prod_beta')

definition dkg_inv :: "('s::field, 'g::ab_group_add) dkg_group \<Rightarrow> num_peers \<Rightarrow> peer_id \<Rightarrow> 's list \<Rightarrow> ('s, 'g) dkg \<Rightarrow> bool" where
  "dkg_inv G n i f d \<longleftrightarrow> dkg_num_peers d = n \<and> dkg_identity d = i \<and> dkg_polynomial d = f
     \<and> bt_wf (dkg_hash_commitments d) \<and> bt_wf (dkg_commitments d) \<and> bt_wf (dkg_sk_shares d)
     \<and> dom (bt_get (dkg_commitments d)) \<subseteq> set (peer_ids n)
     \<and> bt_get (dkg_commitments d) i = Some (commitment_of G f)
     \<and> (\<forall>p c. bt_get (dkg_commitments d) p = Some c \<longrightarrow>
          length c = threshold n \<and> bt_get (dkg_hash_commitments d) p = Some (dg_hash G c))
     \<and> (\<forall>p s. bt_get (dkg_sk_shares d) p = Some s \<longrightarrow>
          (\<exists>c. bt_get (dkg_commitments d) p = Some c \<and> dg_point G s = group_value (dg_scale G) c (scalar i)))"

lemma dkg_shares_own:
  assumes "dkg_polynomial d \<noteq> []" and "dkg_identity d \<notin> set peers"
  shows "dkg_shares d peers ms =
    Ok (d, ms @ map (\<lambda>p. (p, Share (poly_value (dkg_polynomial d) (scalar p)))) peers)"
  using assms by (induction peers arbitrary: ms) (auto simp: eval_poly_scalar_eq)

lemma dkg_shares_eq:
  assumes "dkg_polynomial d \<noteq> []" and "distinct peers" and "dkg_identity d \<in> set peers"
  shows "dkg_shares d peers ms =
    Ok (d\<lparr>dkg_sk_shares := bt_insert (dkg_identity d)
          (poly_value (dkg_polynomial d) (scalar (dkg_identity d))) (dkg_sk_shares d)\<rparr>,
        ms @ map (\<lambda>p. (p, Share (poly_value (dkg_polynomial d) (scalar p)))) (filter (\<lambda>p. p \<noteq> dkg_identity d) peers))"
  using assms
proof (induction peers arbitrary: ms)
  case (Cons p peers)
  show ?case
  proof (cases "p = dkg_identity d")
    case True
    then have "filter (\<lambda>q. q \<noteq> dkg_identity d) peers = peers"
      using Cons.prems(2) by (auto intro: filter_True)
    then show ?thesis
      using True Cons.prems by (simp add: eval_poly_scalar_eq dkg_shares_own)
  next
    case False
    then show ?thesis
      using Cons by (simp add: eval_poly_scalar_eq)
  qed
qed simp

lemma dkg_inv_new:
  assumes "length f = threshold n" and "i \<in> set (peer_ids n)"
  shows "dkg_inv G n i f (dkg_new G n i f)"
  using assms by (auto simp: dkg_inv_def dkg_new_def bt_wf_def commitment_of_def split: if_splits)

lemma dkg_inv_step:
  assumes inv: "dkg_inv G n i f d" and vs: "vector_space (dg_scale G)"
    and p: "p \<in> set (peer_ids n)" "p \<noteq> i" and i: "i \<in> set (peer_ids n)" and f: "f \<noteq> []"
    and step: "dkg_step G d p msg = Ok (d', r)"
  shows "dkg_inv G n i f d'"
proof (cases msg)
  case (Hash h)
  then have "bt_get (dkg_hash_commitments d) p = None"
    and d': "d' = d\<lparr>dkg_hash_commitments := bt_insert p h (dkg_hash_commitments d)\<rparr>"
    using step by (auto simp: dkg_step_def Let_def split: if_splits)
  then show ?thesis
    using inv by (auto simp: dkg_inv_def map_of_bt_insert)
next
  case (Commitment c)
  define d1 where "d1 = d\<lparr>dkg_commitments := bt_insert p c (dkg_commitments d)\<rparr>"
  have c: "bt_get (dkg_hash_commitments d) p = Some (dg_hash G c)" "length c = threshold n"
    "bt_get (dkg_commitments d) p = None"
    and d': "d' = d1 \<or> (\<exists>ms. dkg_shares d1 (peer_ids n) [] = (Ok (d', ms) :: (dkg_error, _) result))"
    using step inv Commitment by (auto simp: dkg_step_def dkg_inv_def d1_def Let_def split: if_splits)
  have "bt_get (dkg_sk_shares d) p = None"
    using inv c(3) unfolding dkg_inv_def by (metis not_None_eq option.discI)
  then have inv1: "dkg_inv G n i f d1"
    using inv p c unfolding dkg_inv_def d1_def by (auto simp: map_of_bt_insert split: if_splits)
  moreover have "d' = d1\<lparr>dkg_sk_shares := bt_insert i (poly_value f (scalar i)) (dkg_sk_shares d1)\<rparr>"
    if "dkg_shares d1 (peer_ids n) [] = (Ok (d', ms) :: (dkg_error, _) result)" for ms
    using that inv1 f i by (simp add: dkg_shares_eq distinct_peer_ids dkg_inv_def)
  moreover have "dkg_inv G n i f (d1\<lparr>dkg_sk_shares := bt_insert i (poly_value f (scalar i)) (dkg_sk_shares d1)\<rparr>)"
    using inv1 by (auto simp: dkg_inv_def map_of_bt_insert group_value_commitment [OF vs])
  ultimately show ?thesis
    using d' by metis
next
  case (Share s)
  then obtain c where c: "bt_get (dkg_commitments d) p = Some c"
    and sum: "dkg_checksum G i c = (Ok (dg_point G s) :: (dkg_error, _) result)"
    and d': "d' = d\<lparr>dkg_sk_shares := bt_insert p s (dkg_sk_shares d)\<rparr>"
    using step inv by (auto simp: dkg_step_def dkg_inv_def Let_def split: if_splits)
  have "c \<noteq> []"
    using sum by (auto simp: dkg_checksum_def)
  then have "dg_point G s = group_value (dg_scale G) c (scalar i)"
    using sum by (simp add: dkg_checksum_eq)
  then show ?thesis
    using inv c by (auto simp: dkg_inv_def d' map_of_bt_insert)
qed

text \<open>The states a guardian reaches with any messages of the others.\<close>

inductive dkg_reach ::
  "('s::field, 'g::ab_group_add) dkg_group \<Rightarrow> num_peers \<Rightarrow> peer_id \<Rightarrow> 's list \<Rightarrow> ('s, 'g) dkg \<Rightarrow> bool"
  for G :: "('s::field, 'g::ab_group_add) dkg_group" and n :: num_peers and i :: peer_id and f :: "'s list" where
  new: "dkg_reach G n i f (dkg_new G n i f)"
| message: "dkg_reach G n i f d \<Longrightarrow> p \<in> set (peer_ids n) \<Longrightarrow> p \<noteq> i \<Longrightarrow> dkg_step G d p msg = Ok (d', r)
    \<Longrightarrow> dkg_reach G n i f d'"

lemma threshold_pos: "1 \<le> n \<Longrightarrow> length f = threshold n \<Longrightarrow> f \<noteq> []"
  using threshold_bounds(1) [of n] by auto

lemma peer_ids_nonempty: "i \<in> set (peer_ids n) \<Longrightarrow> 1 \<le> n"
  by (cases n) (auto simp: peer_ids_def)

lemma dkg_reach_inv:
  assumes "dkg_reach G n i f d" and "vector_space (dg_scale G)"
    and "length f = threshold n" and "i \<in> set (peer_ids n)"
  shows "dkg_inv G n i f d"
  using assms
proof (induction rule: dkg_reach.induct)
  case new
  then show ?case by (intro dkg_inv_new)
next
  case (message d p msg d' r)
  have "f \<noteq> []"
    using threshold_pos [OF peer_ids_nonempty] message.prems by blast
  then show ?case
    using dkg_inv_step [of G n i f d p msg d' r] message by blast
qed

lemma dkg_public_eq:
  assumes inv: "dkg_inv G n i f d"
  shows "dkg_public d = (Ok (map (\<lambda>k. \<Sum>p\<in>dom (bt_get (dkg_commitments d)).
    the (bt_get (dkg_commitments d) p) ! k) [0..<threshold n]) :: ('e, _) result)"
proof -
  have wf: "bt_wf (dkg_commitments d)" and ne: "dkg_commitments d \<noteq> []"
    and len: "\<forall>c\<in>set (bt_values (dkg_commitments d)). length c = threshold n"
    using inv bt.entries_distinct [of "dkg_commitments d"] by (auto simp: dkg_inv_def bt_values_def)
  let ?g = "\<lambda>k. \<Sum>p\<in>dom (bt_get (dkg_commitments d)). the (bt_get (dkg_commitments d) p) ! k"
  have "rbind (traverse (\<lambda>coefficients. slice_index coefficients k) (bt_values (dkg_commitments d)))
      (\<lambda>cs. expect (reduce (+) cs)) = (Ok (?g k) :: ('e, _) result)" if "k \<in> set [0..<threshold n]" for k
  proof -
    have "traverse (\<lambda>coefficients. slice_index coefficients k) (bt_values (dkg_commitments d))
        = (Ok (map (\<lambda>c. c ! k) (bt_values (dkg_commitments d))) :: ('e, _) result)"
      using len that by (intro traverse_Ok) auto
    moreover have "map (\<lambda>c. c ! k) (bt_values (dkg_commitments d)) \<noteq> []"
      using ne by (simp add: bt_values_def)
    ultimately show ?thesis
      by (simp add: reduce_add sum_list_bt_values [OF wf])
  qed
  note Ok = traverse_Ok [OF this]
  have "dkg_num_peers d = n"
    using inv by (simp add: dkg_inv_def)
  then show ?thesis
    by (simp only: dkg_public_def Ok)
qed

lemma length_peer_ids: "n < 2 ^ 16 \<Longrightarrow> length (peer_ids n) = n"
  by (simp add: peer_ids_def)

text \<open>All shares are in only when the commitments of all peers are.\<close>

lemma dkg_complete:
  assumes inv: "dkg_inv G n i f d" and n: "n < 2 ^ 16" and all: "length (dkg_sk_shares d) = n"
  shows "dom (bt_get (dkg_sk_shares d)) = set (peer_ids n)" and "dom (bt_get (dkg_commitments d)) = set (peer_ids n)"
proof -
  have sub: "dom (bt_get (dkg_sk_shares d)) \<subseteq> dom (bt_get (dkg_commitments d))"
    "dom (bt_get (dkg_commitments d)) \<subseteq> set (peer_ids n)"
    using inv unfolding dkg_inv_def by (blast intro: domI dest: domD)+
  have "card (set (peer_ids n)) = n"
    using distinct_card [OF distinct_peer_ids] length_peer_ids [OF n] by simp
  moreover have "card (dom (bt_get (dkg_sk_shares d))) = n"
    using inv all by (simp add: bt_length dkg_inv_def)
  ultimately show "dom (bt_get (dkg_sk_shares d)) = set (peer_ids n)"
    using card_subset_eq [of "set (peer_ids n)" "dom (bt_get (dkg_sk_shares d))"] sub by auto
  with sub show "dom (bt_get (dkg_commitments d)) = set (peer_ids n)" by auto
qed

text \<open>
  C24: whatever messages the other guardians send, when the key generation of a guardian ends with a
  result, its secret share is the one of its public key share under the public polynomial, which has
  the threshold as its length; and commitments it accepted match the hashes sent before them.
\<close>

theorem dkg_result_consistent:
  assumes reach: "dkg_reach G n i f d" and step: "dkg_step G d p msg = Ok (d', DkgResult pks sks)"
    and p: "p \<in> set (peer_ids n)" "p \<noteq> i" and i: "i \<in> set (peer_ids n)"
    and vs: "vector_space (dg_scale G)" and f: "length f = threshold n" and n: "n < 2 ^ 16"
  shows "eval_poly_group (dg_scale G) pks i = (Ok (dg_point G sks) :: ('e, _) result)
    \<and> length pks = threshold n
    \<and> (\<forall>q c. bt_get (dkg_commitments d') q = Some c \<longrightarrow> bt_get (dkg_hash_commitments d') q = Some (dg_hash G c))"
proof -
  have inv: "dkg_inv G n i f d'"
    using dkg_reach_inv [OF dkg_reach.message [OF reach p step] vs f i] .
  obtain s where "msg = Share s"
    using step by (cases msg) (auto simp: dkg_step_def Let_def split: if_splits)
  then have all: "length (dkg_sk_shares d') = n"
    and pub: "dkg_public d' = (Ok pks :: (dkg_error, _) result)"
    and sks: "sks = sum_list (bt_values (dkg_sk_shares d'))"
    using step inv by (auto simp: dkg_step_def dkg_inv_def np_total_def Let_def split: if_splits)
  note dom = dkg_complete [OF inv n all]
  let ?c = "\<lambda>q. the (bt_get (dkg_commitments d') q)" and ?P = "set (peer_ids n)"
  have pks: "pks = map (\<lambda>k. \<Sum>q\<in>?P. ?c q ! k) [0..<threshold n]"
    using pub by (simp add: dkg_public_eq [OF inv] dom)
  have c: "bt_get (dkg_commitments d') q = Some (?c q)" if "q \<in> ?P" for q
    using that dom(2) by (metis domIff option.collapse)
  have len: "length (?c q) = threshold n" if "q \<in> ?P" for q
    using inv c [OF that] by (auto simp: dkg_inv_def)
  have share: "dg_point G (the (bt_get (dkg_sk_shares d') q)) = group_value (dg_scale G) (?c q) (scalar i)"
    if "q \<in> ?P" for q
    using inv that dom(1) by (auto simp: dkg_inv_def) (metis domD option.sel)
  have "group_value (dg_scale G) pks (scalar i) = (\<Sum>q\<in>?P. group_value (dg_scale G) (?c q) (scalar i))"
    unfolding pks by (rule group_value_sum [OF vs]) (rule len)
  also have "\<dots> = (\<Sum>q\<in>?P. dg_point G (the (bt_get (dkg_sk_shares d') q)))"
    by (simp add: share)
  also have "\<dots> = dg_point G (\<Sum>q\<in>?P. the (bt_get (dkg_sk_shares d') q))"
    by (simp add: dg_point_def vs_simps(6) [OF vs])
  also have "(\<Sum>q\<in>?P. the (bt_get (dkg_sk_shares d') q)) = sks"
    using sum_list_bt_values [of "dkg_sk_shares d'" "\<lambda>s. s"] inv dom(1) by (simp add: sks dkg_inv_def)
  finally have "group_value (dg_scale G) pks (scalar i) = dg_point G sks" .
  moreover have "pks \<noteq> []"
    using threshold_bounds(1) [OF peer_ids_nonempty [OF i]] by (simp add: pks)
  ultimately show ?thesis
    using inv by (simp add: eval_poly_group_eq [OF vs] pks dkg_inv_def)
qed

subsection \<open>Honest guardians\<close>

text \<open>What an honest guardian sends, and what of it reaches a peer.\<close>

definition others :: "num_peers \<Rightarrow> peer_id \<Rightarrow> peer_id list" where
  "others n i = filter (\<lambda>p. p \<noteq> i) (peer_ids n)"

definition honest_out :: "('s::field, 'g) dkg_group \<Rightarrow> num_peers \<Rightarrow> (peer_id \<Rightarrow> 's list) \<Rightarrow> peer_id \<Rightarrow> ('s, 'g) outbox" where
  "honest_out G n fs i =
     [(Everyone, Hash (dg_hash G (commitment_of G (fs i)))), (Everyone, Commitment (commitment_of G (fs i)))]
     @ map (\<lambda>p. (Peer p, Share (poly_value (fs i) (scalar p)))) (others n i)"

definition delivered :: "peer_id \<Rightarrow> ('s, 'g) outbox \<Rightarrow> ('s, 'g) p2p_message list" where
  "delivered p out = map (DkgMessage \<circ> snd) (filter (\<lambda>(r, m). r = Everyone \<or> r = Peer p) out)"

definition table :: "('k \<Rightarrow> 'v) \<Rightarrow> 'k::linorder list \<Rightarrow> ('k, 'v) btree" where
  "table f ks = bt_of_list (map (\<lambda>k. (k, f k)) ks)"

text \<open>The state after the hashes of \<open>A\<close>, the commitments of \<open>B\<close> and the shares of \<open>S\<close>.\<close>

definition honest_state :: "('s::field, 'g) dkg_group \<Rightarrow> num_peers \<Rightarrow> (peer_id \<Rightarrow> 's list) \<Rightarrow> peer_id
    \<Rightarrow> peer_id list \<Rightarrow> peer_id list \<Rightarrow> peer_id list \<Rightarrow> ('s, 'g) dkg" where
  "honest_state G n fs i A B S =
     \<lparr>dkg_num_peers = n, dkg_identity = i, dkg_polynomial = fs i,
      dkg_hash_commitments = table (\<lambda>p. dg_hash G (commitment_of G (fs p))) (i # A),
      dkg_commitments = table (\<lambda>p. commitment_of G (fs p)) (i # B),
      dkg_sk_shares = table (\<lambda>p. poly_value (fs p) (scalar i)) S\<rparr>"

lemma get_table: "distinct ks \<Longrightarrow> bt_get (table f ks) k = (if k \<in> set ks then Some (f k) else None)"
  unfolding table_def by (subst map_of_bt_of_list) (simp_all add: comp_def map_of_map_restrict restrict_map_def)

lemma length_table: "distinct ks \<Longrightarrow> length (table f ks) = length ks"
  by (simp add: table_def bt_length_of_list comp_def)

lemma insert_table: "bt_insert k (f k) (table f ks) = table f (ks @ [k])"
  by (simp add: table_def bt_insert_of_list)

lemma bt_wf_table [simp]: "bt_wf (table f ks)"
  by (simp add: table_def)

text \<open>Popping one message of every peer of a list.\<close>

definition pop :: "peer_id list \<Rightarrow> ('s, 'g) inbox \<Rightarrow> ('s, 'g) inbox" where
  "pop ps inbox = (\<lambda>p. if p \<in> set ps then tl (inbox p) else inbox p)"

lemma pop_simps [simp]:
  "pop [] inbox = inbox"
  "q \<notin> set qs \<Longrightarrow> pop qs (inbox(q := tl (inbox q))) = pop (q # qs) inbox"
  by (auto simp: pop_def)

text \<open>A round in which only the message of the last peer makes the guardian react.\<close>

lemma round_collect:
  assumes L: "distinct L" "L \<noteq> []"
    and msg: "\<And>q. q \<in> set L \<Longrightarrow> \<exists>rest. inbox q = DkgMessage (msg q) # rest"
    and some: "\<And>ps q qs. L = ps @ q # qs \<Longrightarrow> qs \<noteq> [] \<Longrightarrow> dkg_step G (st ps) q (msg q) = Ok (st (ps @ [q]), Messages [])"
    and last: "\<And>ps q. L = ps @ [q] \<Longrightarrow> dkg_step G (st ps) q (msg q) = Ok (d', r)"
  shows "dkg_round G L (st []) inbox out =
    (case r of
       Broadcast m \<Rightarrow> Ok (Inl (d', pop L inbox, out @ [(Everyone, m)]))
     | Messages ms \<Rightarrow> Ok (Inl (d', pop L inbox, out @ map (\<lambda>(p, m). (Peer p, m)) ms))
     | DkgResult pks sks \<Rightarrow> Ok (Inr ((pks, sks), out)))"
proof -
  have "dkg_round G qs (st ps) inbox out =
    (case r of
       Broadcast m \<Rightarrow> Ok (Inl (d', pop qs inbox, out @ [(Everyone, m)]))
     | Messages ms \<Rightarrow> Ok (Inl (d', pop qs inbox, out @ map (\<lambda>(p, m). (Peer p, m)) ms))
     | DkgResult pks sks \<Rightarrow> Ok (Inr ((pks, sks), out)))"
    if "L = ps @ qs" "qs \<noteq> []" "\<And>q. q \<in> set qs \<Longrightarrow> \<exists>rest. inbox q = DkgMessage (msg q) # rest" for ps qs inbox
    using that
  proof (induction qs arbitrary: ps inbox)
    case (Cons q qs)
    then obtain rest where rest: "inbox q = DkgMessage (msg q) # rest" by fastforce
    have q: "q \<notin> set qs"
      using L(1) Cons.prems(1) by simp
    then have pop: "pop qs (inbox(q := rest)) = pop (q # qs) inbox"
      using pop_simps(2) [of q qs inbox] by (simp add: rest)
    show ?case
    proof (cases "qs = []")
      case True
      then show ?thesis
        using last [of ps q] Cons.prems(1) pop by (cases r) (simp_all add: rest)
    next
      case False
      have "dkg_round G qs (st (ps @ [q])) (inbox(q := rest)) out =
        (case r of
           Broadcast m \<Rightarrow> Ok (Inl (d', pop qs (inbox(q := rest)), out @ [(Everyone, m)]))
         | Messages ms \<Rightarrow> Ok (Inl (d', pop qs (inbox(q := rest)), out @ map (\<lambda>(p, m). (Peer p, m)) ms))
         | DkgResult pks sks \<Rightarrow> Ok (Inr ((pks, sks), out)))"
        using Cons.prems False q by (intro Cons.IH) auto
      then show ?thesis
        using some [OF Cons.prems(1) False] pop by (cases r) (simp_all add: rest)
    qed
  qed simp
  from this [of "[]" L inbox] L(2) msg show ?thesis by simp
qed

lemma others_props:
  assumes "i \<in> set (peer_ids n)" and "n < 2 ^ 16"
  shows "distinct (i # others n i)" and "Suc (length (others n i)) = n" and "set (i # others n i) = set (peer_ids n)"
proof -
  show d: "distinct (i # others n i)"
    by (simp add: others_def distinct_peer_ids)
  show eq: "set (i # others n i) = set (peer_ids n)"
    using assms(1) by (auto simp: others_def)
  have "length (i # others n i) = length (peer_ids n)"
    using distinct_card [OF d] distinct_card [OF distinct_peer_ids [of n]] eq by simp
  then show "Suc (length (others n i)) = n"
    using length_peer_ids [OF assms(2)] by simp
qed

definition honest_setup :: "('s::field, 'g::ab_group_add) dkg_group \<Rightarrow> num_peers \<Rightarrow> (peer_id \<Rightarrow> 's list) \<Rightarrow> peer_id \<Rightarrow> bool" where
  "honest_setup G n fs i \<longleftrightarrow> vector_space (dg_scale G) \<and> n < 2 ^ 16 \<and> 2 \<le> n \<and> i \<in> set (peer_ids n)
     \<and> (\<forall>p. length (fs p) = threshold n)"

lemma honest_setup_props:
  assumes "honest_setup G n fs i"
  shows "distinct (i # others n i)" and "Suc (length (others n i)) = n" and "set (i # others n i) = set (peer_ids n)"
    and "fs p \<noteq> []" and "others n i \<noteq> []" and "commitment_of G (fs p) \<noteq> []"
proof -
  have i: "i \<in> set (peer_ids n)" "n < 2 ^ 16" "2 \<le> n" and f: "length (fs p) = threshold n" for p
    using assms by (simp_all add: honest_setup_def)
  show "distinct (i # others n i)" "Suc (length (others n i)) = n" "set (i # others n i) = set (peer_ids n)"
    using others_props [OF i(1,2)] by blast+
  then show "others n i \<noteq> []"
    using i(3) by auto
  show "fs p \<noteq> []"
    by (rule threshold_pos [OF peer_ids_nonempty [OF i(1)] f])
  then show "commitment_of G (fs p) \<noteq> []"
    by (simp add: commitment_of_def)
qed

lemma step_hash:
  assumes h: "honest_setup G n fs i" and L: "others n i = ps @ q # qs"
  shows "dkg_step G (honest_state G n fs i ps [] []) q (Hash (dg_hash G (commitment_of G (fs q))))
    = Ok (honest_state G n fs i (ps @ [q]) [] [],
          if qs = [] then Broadcast (Commitment (commitment_of G (fs i))) else Messages [])"
proof -
  have d: "distinct (i # ps)" "distinct (i # ps @ [q])" "q \<notin> set (i # ps)"
    and len: "length (i # ps @ [q]) = n \<longleftrightarrow> qs = []"
    using honest_setup_props(1,2) [OF h] by (auto simp: L)
  note ins = insert_table [of q "\<lambda>p. dg_hash G (commitment_of G (fs p))" "i # ps", simplified]
  show ?thesis
    using d len by (simp add: dkg_step_def honest_state_def np_total_def dkg_commitment_def get_table ins length_table)
qed

lemma step_commitment:
  assumes h: "honest_setup G n fs i" and L: "others n i = ps @ q # qs"
  shows "dkg_step G (honest_state G n fs i (others n i) ps []) q (Commitment (commitment_of G (fs q)))
    = Ok (honest_state G n fs i (others n i) (ps @ [q]) (if qs = [] then [i] else []),
          Messages (if qs = [] then map (\<lambda>p. (p, Share (poly_value (fs i) (scalar p)))) (others n i) else []))"
proof -
  have d: "distinct (i # ps)" "distinct (i # ps @ [q])" "q \<notin> set (i # ps)" "distinct (i # others n i)"
    "q \<in> set (i # others n i)" and len: "length (i # ps @ [q]) = n \<longleftrightarrow> qs = []"
    using honest_setup_props(1,2) [OF h] by (auto simp: L)
  note ins = insert_table [of q "\<lambda>p. commitment_of G (fs p)" "i # ps", simplified]
    insert_table [of i "\<lambda>p. poly_value (fs p) (scalar i)" "[]", simplified]
  have "threshold n = length (commitment_of G (fs q))"
    using h by (simp add: honest_setup_def commitment_of_def)
  then show ?thesis
    using d len honest_setup_props(4) [OF h] h
    by (simp add: dkg_step_def honest_state_def np_total_def get_table ins length_table dkg_shares_eq
      distinct_peer_ids honest_setup_def) (simp add: others_def)
qed

lemma honest_inv:
  assumes h: "honest_setup G n fs i" and S: "set S \<subseteq> set (peer_ids n)" "distinct S"
  shows "dkg_inv G n i (fs i) (honest_state G n fs i (others n i) (others n i) S)"
proof -
  note props = honest_setup_props [OF h]
  have vs: "vector_space (dg_scale G)" and len: "\<And>p. length (commitment_of G (fs p)) = threshold n"
    using h by (simp_all add: honest_setup_def commitment_of_def)
  show ?thesis
    using props(3) S
    by (auto simp: dkg_inv_def honest_state_def get_table [OF props(1)] get_table [OF S(2)]
      len dom_def group_value_commitment [OF vs] split: if_splits)
qed

text \<open>The polynomial of the federation is the sum of the polynomials of its guardians.\<close>

definition dkg_poly :: "num_peers \<Rightarrow> (peer_id \<Rightarrow> 's::field list) \<Rightarrow> 's list" where
  "dkg_poly n fs = map (\<lambda>k. \<Sum>p\<in>set (peer_ids n). fs p ! k) [0..<threshold n]"

lemma honest_public:
  assumes h: "honest_setup G n fs i" and S: "set S \<subseteq> set (peer_ids n)" "distinct S"
  shows "dkg_public (honest_state G n fs i (others n i) (others n i) S) = Ok (commitment_of G (dkg_poly n fs))"
proof -
  have props: "distinct (i # others n i)" "set (i # others n i) = set (peer_ids n)"
    using honest_setup_props [OF h] by blast+
  have vs: "vector_space (dg_scale G)" and len: "\<And>p. length (fs p) = threshold n"
    using h by (simp_all add: honest_setup_def)
  let ?d = "honest_state G n fs i (others n i) (others n i) S"
  have get: "bt_get (dkg_commitments ?d) p = (if p \<in> set (peer_ids n) then Some (commitment_of G (fs p)) else None)" for p
    unfolding props(2) [symmetric] by (simp add: honest_state_def get_table [OF props(1)])
  then have dom: "dom (bt_get (dkg_commitments ?d)) = set (peer_ids n)"
    by (auto simp: dom_def)
  have "map (\<lambda>k. \<Sum>p\<in>set (peer_ids n). the (bt_get (dkg_commitments ?d) p) ! k) [0..<threshold n]
      = commitment_of G (dkg_poly n fs)"
    unfolding get by (auto simp: commitment_of_def dkg_poly_def len dg_point_def vs_simps(6) [OF vs] intro!: sum.cong)
  then show ?thesis
    by (simp only: dkg_public_eq [OF honest_inv [OF h S]] dom)
qed

lemma sum_table: "distinct ks \<Longrightarrow> sum_list (bt_values (table f ks)) = (\<Sum>k\<in>set ks. f k)"
proof -
  assume d: "distinct ks"
  have dom: "dom (bt_get (table f ks)) = set ks"
    by (auto simp: dom_def get_table [OF d])
  have "sum_list (bt_values (table f ks)) = (\<Sum>k\<in>set ks. the (bt_get (table f ks) k))"
    using sum_list_bt_values [of "table f ks" "\<lambda>v. v"] by (simp add: dom)
  then show ?thesis
    by (simp add: get_table [OF d])
qed

lemma step_share:
  assumes h: "honest_setup G n fs i" and L: "others n i = ps @ q # qs"
  shows "dkg_step G (honest_state G n fs i (others n i) (others n i) (i # ps)) q (Share (poly_value (fs q) (scalar i)))
    = Ok (honest_state G n fs i (others n i) (others n i) (i # ps @ [q]),
          if qs = [] then DkgResult (commitment_of G (dkg_poly n fs)) (poly_value (dkg_poly n fs) (scalar i))
          else Messages [])"
proof -
  note props = honest_setup_props [OF h]
  have d: "distinct (i # ps)" "distinct (i # ps @ [q])" "q \<notin> set (i # ps)" "q \<in> set (i # others n i)"
    and len: "length (i # ps @ [q]) = n \<longleftrightarrow> qs = []"
    using props(1,2) by (auto simp: L)
  have sub: "set (i # ps @ [q]) \<subseteq> set (peer_ids n)"
    unfolding props(3) [symmetric] by (auto simp: L)
  have vs: "vector_space (dg_scale G)" and fl: "\<And>p. length (fs p) = threshold n"
    using h by (simp_all add: honest_setup_def)
  let ?d' = "honest_state G n fs i (others n i) (others n i) (i # ps @ [q])"
  have ins: "honest_state G n fs i (others n i) (others n i) (i # ps)
      \<lparr>dkg_sk_shares := bt_insert q (poly_value (fs q) (scalar i))
        (dkg_sk_shares (honest_state G n fs i (others n i) (others n i) (i # ps)))\<rparr> = ?d'"
    using insert_table [of q "\<lambda>p. poly_value (fs p) (scalar i)" "i # ps"] by (simp add: honest_state_def)
  have "sum_list (bt_values (dkg_sk_shares ?d')) = poly_value (dkg_poly n fs) (scalar i)" if "qs = []"
  proof -
    have "set (i # ps @ [q]) = set (peer_ids n)"
      unfolding props(3) [symmetric] using that by (simp add: L)
    then show ?thesis
      using sum_table [OF d(2), of "\<lambda>p. poly_value (fs p) (scalar i)"]
      by (simp add: honest_state_def dkg_poly_def poly_value_sum fl)
  qed
  moreover have "length (dkg_sk_shares ?d') = n \<longleftrightarrow> qs = []"
    using len by (simp add: honest_state_def length_table [OF d(2)])
  moreover have "bt_get (dkg_sk_shares (honest_state G n fs i (others n i) (others n i) (i # ps))) q = None"
    using d(3) by (simp add: honest_state_def get_table [OF d(1)])
  moreover have "bt_get (dkg_commitments (honest_state G n fs i (others n i) (others n i) (i # ps))) q = Some (commitment_of G (fs q))"
    using d(4) by (simp add: honest_state_def get_table [OF props(1)])
  moreover have "dkg_identity (honest_state G n fs i A B S) = i" "dkg_num_peers (honest_state G n fs i A B S) = n" for A B S
    by (simp_all add: honest_state_def)
  ultimately show ?thesis
    by (simp add: dkg_step_def ins Let_def honest_public [OF h sub d(2)] dkg_checksum_eq [OF props(6)] group_value_commitment [OF vs] np_total_def)
qed

lemma filter_eq_single: "distinct xs \<Longrightarrow> x \<in> set xs \<Longrightarrow> filter (\<lambda>y. y = x) xs = [x]"
proof (induction xs)
  case (Cons a xs)
  then show ?case
    by (cases "a = x") (auto simp: filter_empty_conv)
qed simp

lemma delivered_honest:
  assumes "q \<in> set (peer_ids n)" and "i \<in> set (peer_ids n)" and "q \<noteq> i"
  shows "delivered i (honest_out G n fs q) =
    [DkgMessage (Hash (dg_hash G (commitment_of G (fs q)))), DkgMessage (Commitment (commitment_of G (fs q))),
     DkgMessage (Share (poly_value (fs q) (scalar i)))]"
proof -
  have i: "i \<in> set (others n q)" "distinct (others n q)"
    using assms by (auto simp: others_def distinct_peer_ids)
  have "filter (\<lambda>p. p = i) (others n q) = [i]"
    using i by (simp add: filter_eq_single)
  then show ?thesis
    by (simp add: delivered_def honest_out_def filter_map comp_def)
qed

lemma honest_rounds:
  assumes h: "honest_setup G n fs i"
    and inbox: "\<And>q. q \<in> set (others n i) \<Longrightarrow> inbox q =
      [DkgMessage (Hash (dg_hash G (commitment_of G (fs q)))), DkgMessage (Commitment (commitment_of G (fs q))),
       DkgMessage (Share (poly_value (fs q) (scalar i)))]"
  shows "dkg_loop G (others n i) (honest_state G n fs i [] [] []) inbox out =
    Some (Ok ((commitment_of G (dkg_poly n fs), poly_value (dkg_poly n fs) (scalar i)),
      out @ [(Everyone, Commitment (commitment_of G (fs i)))]
        @ map (\<lambda>p. (Peer p, Share (poly_value (fs i) (scalar p)))) (others n i)))"
proof -
  let ?L = "others n i" and ?c = "commitment_of G (dkg_poly n fs)" and ?s = "poly_value (dkg_poly n fs) (scalar i)"
  let ?in1 = "pop ?L inbox" and ?in2 = "pop ?L (pop ?L inbox)"
  let ?out1 = "out @ [(Everyone, Commitment (commitment_of G (fs i)))]"
  let ?out2 = "?out1 @ map (\<lambda>p. (Peer p, Share (poly_value (fs i) (scalar p)))) ?L"
  have L: "distinct ?L" "?L \<noteq> []"
    using honest_setup_props [OF h] by auto
  have 1: "dkg_round G ?L (honest_state G n fs i [] [] []) inbox out
      = Ok (Inl (honest_state G n fs i ?L [] [], ?in1, ?out1))"
    using round_collect [OF L, where st = "\<lambda>ps. honest_state G n fs i ps [] []" and inbox = inbox and G = G
        and msg = "\<lambda>q. Hash (dg_hash G (commitment_of G (fs q)))" and d' = "honest_state G n fs i ?L [] []"
        and r = "Broadcast (Commitment (commitment_of G (fs i)))" and out = out]
      inbox step_hash [OF h] by simp
  have 2: "dkg_round G ?L (honest_state G n fs i ?L [] []) ?in1 ?out1
      = Ok (Inl (honest_state G n fs i ?L ?L [i], ?in2, ?out2))"
    using round_collect [OF L, where st = "\<lambda>ps. honest_state G n fs i ?L ps []" and inbox = ?in1 and G = G
        and msg = "\<lambda>q. Commitment (commitment_of G (fs q))" and d' = "honest_state G n fs i ?L ?L [i]"
        and r = "Messages (map (\<lambda>p. (p, Share (poly_value (fs i) (scalar p)))) ?L)" and out = ?out1]
      inbox step_commitment [OF h] by (simp add: pop_def comp_def)
  have 3: "dkg_round G ?L (honest_state G n fs i ?L ?L [i]) ?in2 ?out2 = Ok (Inr ((?c, ?s), ?out2))"
    using round_collect [OF L, where st = "\<lambda>ps. honest_state G n fs i ?L ?L (i # ps)" and inbox = ?in2 and G = G
        and msg = "\<lambda>q. Share (poly_value (fs q) (scalar i))" and d' = "honest_state G n fs i ?L ?L (i # ?L)"
        and r = "DkgResult ?c ?s" and out = ?out2]
      inbox step_share [OF h] by (simp add: pop_def)
  show ?thesis
    by (simp add: dkg_loop.simps [of G ?L "honest_state G n fs i [] [] []"] 1
      dkg_loop.simps [of G ?L "honest_state G n fs i ?L [] []"] 2
      dkg_loop.simps [of G ?L "honest_state G n fs i ?L ?L [i]"] 3 [unfolded append_assoc append.simps])
qed

lemma honest_run:
  assumes h: "honest_setup G n fs i"
  shows "run_dkg G n i (fs i) (\<lambda>q. delivered i (honest_out G n fs q))
    = Some (Ok ((commitment_of G (dkg_poly n fs), poly_value (dkg_poly n fs) (scalar i)), honest_out G n fs i))"
proof -
  have i: "i \<in> set (peer_ids n)"
    using h by (simp add: honest_setup_def)
  have start: "dkg_new G n i (fs i) = honest_state G n fs i [] [] []"
    by (simp add: dkg_new_def honest_state_def table_def bt_of_list_def)
  have "delivered i (honest_out G n fs q) =
      [DkgMessage (Hash (dg_hash G (commitment_of G (fs q)))), DkgMessage (Commitment (commitment_of G (fs q))),
       DkgMessage (Share (poly_value (fs q) (scalar i)))]" if "q \<in> set (others n i)" for q
    using that i by (intro delivered_honest) (auto simp: others_def)
  note run = honest_rounds [OF h this, where out = "[(Everyone, Hash (dg_hash G (commitment_of G (fs i))))]"]
  have "initial_message G (honest_state G n fs i [] [] []) = Hash (dg_hash G (commitment_of G (fs i)))"
    by (simp add: initial_message_def dkg_commitment_def honest_state_def)
  with run show ?thesis
    unfolding run_dkg_def start Let_def others_def [symmetric] honest_out_def [of G n fs i] by simp
qed

text \<open>
  C25: when every guardian runs the key generation on what the others send, it ends for each of them
  with the same public polynomial, the commitment to the sum of all polynomials, and with the value of
  that sum at the guardian's own point as its secret share; and what each one sends is what the runs
  of the others received.
\<close>

theorem dkg_honest_run:
  assumes "honest_setup G n fs i"
  shows "run_dkg G n i (fs i) (\<lambda>q. delivered i (honest_out G n fs q))
    = Some (Ok ((commitment_of G (dkg_poly n fs), poly_value (dkg_poly n fs) (scalar i)), honest_out G n fs i))"
  using assms by (rule honest_run)

definition rat_group :: "(rat, rat) dkg_group" where
  "rat_group = \<lparr>dg_scale = (*), dg_generator = 1, dg_hash = (\<lambda>_. [])\<rparr>"

lemma rat_group_ok: "vector_space (dg_scale rat_group)"
  by (simp add: rat_group_def vector_space_def algebra_simps)

lemma rat_honest_setup:
  "i < 4 \<Longrightarrow> honest_setup rat_group 4 (\<lambda>_. [1, 2, 3]) (of_nat i)"
  "honest_setup rat_group 2 (\<lambda>_. [1, 2]) 0"
proof -
  have "peer_ids 4 = [0, 1, 2, 3]" "peer_ids 2 = [0, 1]" "threshold 4 = 3" "threshold 2 = 2"
    by (simp_all add: peer_ids_def upt_rec threshold_eq)
  moreover have "i = 0 \<or> i = 1 \<or> i = 2 \<or> i = 3" if "i < 4"
    using that by auto
  ultimately show "i < 4 \<Longrightarrow> honest_setup rat_group 4 (\<lambda>_. [1, 2, 3]) (of_nat i)"
    "honest_setup rat_group 2 (\<lambda>_. [1, 2]) 0"
    by (auto simp: honest_setup_def rat_group_ok)
qed

theorem dkg_honest_run_witness:
  "run_dkg rat_group 4 2 [1, 2, 3] (\<lambda>q. delivered 2 (honest_out rat_group 4 (\<lambda>_. [1, 2, 3]) q))
    = Some (Ok ((commitment_of rat_group (dkg_poly 4 (\<lambda>_. [1, 2, 3])),
        poly_value (dkg_poly 4 (\<lambda>_. [1, 2, 3])) (scalar 2)), honest_out rat_group 4 (\<lambda>_. [1, 2, 3]) 2))"
  using dkg_honest_run [OF rat_honest_setup(1) [of 2]] by simp

theorem dkg_result_consistent_witness:
  "eval_poly_group (*) [2, 4] 0 = (Ok 6 :: (unit, rat) result)"
proof -
  let ?fs = "\<lambda>_::peer_id. [1, 2] :: rat list"
  let ?st = "honest_state rat_group 2 ?fs 0"
  note h = rat_honest_setup(2)
  have ids: "peer_ids 2 = [0, 1]"
    by (simp add: peer_ids_def upt_rec)
  then have L: "others 2 0 = [] @ 1 # []"
    by (simp add: others_def)
  have "dkg_reach rat_group 2 0 [1, 2] (?st [] [] [])"
    using dkg_reach.new [of rat_group 2 0 "[1, 2]"]
    by (simp add: dkg_new_def honest_state_def table_def bt_of_list_def)
  from dkg_reach.message [OF this _ _ step_hash [OF h L]]
  have "dkg_reach rat_group 2 0 [1, 2] (?st (others 2 0) [] [])"
    by (simp add: ids L)
  from dkg_reach.message [OF this _ _ step_commitment [OF h L]]
  have reach: "dkg_reach rat_group 2 0 [1, 2] (?st (others 2 0) (others 2 0) (0 # []))"
    by (simp add: ids L)
  have poly: "dkg_poly 2 ?fs = [2, 4]"
    by (simp add: dkg_poly_def ids threshold_eq upt_rec)
  have sks: "poly_value [2, 4 :: rat] (scalar 0) = 6"
    by (simp add: poly_value_def scalar_def peer_to_usize_def)
  have "dkg_step rat_group (?st (others 2 0) (others 2 0) (0 # [])) 1 (Share (poly_value [1, 2] (scalar 0)))
      = Ok (?st (others 2 0) (others 2 0) (0 # [] @ [1]), DkgResult [2, 4] 6)"
    using step_share [OF h L] by (simp add: poly sks commitment_of_def dg_point_def rat_group_def)
  from dkg_result_consistent [OF reach this _ _ _ rat_group_ok, where 'e = unit]
  show ?thesis
    by (simp add: ids threshold_eq dg_point_def rat_group_def)
qed

end
