(* ===== verification/Mint_Keys.thy ===== *)
theory Mint_Keys
  imports Mint_Server Dkg
begin

section \<open>Keys of the mint and issuance of notes\<close>

text \<open>
  The generation and validation of the mint's configuration in
  \<open>modules/fedimint-mint-server/src/lib.rs\<close>, \<open>Mint::new\<close>, and the client's side of an
  issuance in \<open>modules/fedimint-mint-client/src/output.rs\<close>: collecting blind signature shares,
  aggregating and unblinding them. Randomness is an argument.

  The lemmas connect the parts: a note that a client assembles from the shares of any threshold of
  guardians, whose keys come from the key generation, is accepted by every guardian.
\<close>

subsection \<open>Key generation\<close>

definition eval_polynomial :: "'s::field list \<Rightarrow> 's \<Rightarrow> ('e, 's) result" where
  "eval_polynomial coefficients x =
     expect (reduce (\<lambda>acc coefficient. acc * x + coefficient) (rev coefficients))"

definition dealer_keygen ::
  "('s::field, 'g1, 'g2, 'gt) curve \<Rightarrow> 's list \<Rightarrow> nat \<Rightarrow> ('e, 'g2 \<times> 'g2 list \<times> 's list) result" where
  "dealer_keygen C poly keys =
     rbind (eval_polynomial poly 0) (\<lambda>secret.
     rbind (traverse (\<lambda>idx. eval_polynomial poly (of_nat (unat (of_nat idx + 1 :: u64)))) [0..<keys]) (\<lambda>sks.
       Ok (g2_scale C secret (g2_generator C), map (\<lambda>sk. g2_scale C sk (g2_generator C)) sks, sks)))"

definition DEFAULT_MAX_NOTES_PER_DENOMINATION :: u16 where
  "DEFAULT_MAX_NOTES_PER_DENOMINATION = 3"

definition mint_gen_denominations :: "amount list option" where
  "mint_gen_denominations = map_option bt_keys (gen_denominations 2 (from_bitcoins 1000000))"

definition gen_fee_consensus :: "bool \<Rightarrow> ('e, fee_consensus) result" where
  "gen_fee_consensus disable_base_fees =
     (if disable_base_fees then Ok mint_fee_zero else expect_ok (mint_fee_new 0))"

text \<open>\<open>polys\<close> are the polynomials that \<open>dealer_keygen\<close> draws, one per denomination.\<close>

definition trusted_dealer_gen ::
  "('s::field, 'g1, 'g2, 'gt) curve \<Rightarrow> amount list \<Rightarrow> (amount \<Rightarrow> 's list) \<Rightarrow> peer_id list \<Rightarrow> bool
    \<Rightarrow> ('e, (peer_id, ('s, 'g2) mint_config) btree) result" where
  "trusted_dealer_gen C denominations polys peers disable_base_fees =
     rbind (traverse (\<lambda>a. map_ok (Pair a) (dealer_keygen C (polys a) (length peers))) denominations) (\<lambda>tbs_keys.
     rbind (gen_fee_consensus disable_base_fees) (\<lambda>fees.
     map_ok bt_of_list (traverse (\<lambda>peer.
       rbind (traverse (\<lambda>key_peer.
           map_ok (\<lambda>ks. (key_peer, tiered_from_iter ks)) (traverse (\<lambda>(a, _, pks, _).
             map_ok (Pair a) (slice_index pks (peer_to_usize key_peer))) tbs_keys)) peers) (\<lambda>pks.
       rbind (traverse (\<lambda>(a, _, _, sks). map_ok (Pair a) (slice_index sks (peer_to_usize peer))) tbs_keys) (\<lambda>sks.
         Ok (peer, \<lparr>mc_tbs_sks = tiered_from_iter sks, mc_peer_tbs_pks = bt_of_list pks,
           mc_fee_consensus = fees, mc_max_notes_per_denomination = DEFAULT_MAX_NOTES_PER_DENOMINATION\<rparr>)))) peers)))"

text \<open>
  \<open>dkg_of a\<close> is the key generation run for the denomination \<open>a\<close>. The body after the call of
  \<open>gen_denominations\<close> is a function of the denominations, so that what is shown of it does not
  depend on the constants of that call.
\<close>

definition distributed_gen_for ::
  "('s::field, 'g1, 'g2::ab_group_add, 'gt) curve \<Rightarrow> amount list \<Rightarrow> (amount \<Rightarrow> ('e, 'g2 list \<times> 's) result) \<Rightarrow> num_peers \<Rightarrow> bool
    \<Rightarrow> ('e, ('s, 'g2) mint_config) result" where
  "distributed_gen_for C denominations dkg_of n disable_base_fees =
     rbind (traverse (\<lambda>a. map_ok (Pair a) (dkg_of a)) denominations) (\<lambda>keys.
     let amount_keys = bt_of_list keys in
     rbind (traverse (\<lambda>peer.
         map_ok (\<lambda>ks. (peer, tiered_from_iter ks)) (traverse (\<lambda>(a, pks, _).
           map_ok (Pair a) (eval_poly_g2 C pks peer)) amount_keys)) (peer_ids n)) (\<lambda>pks.
     rbind (gen_fee_consensus disable_base_fees) (\<lambda>fees.
       Ok \<lparr>mc_tbs_sks = tiered_from_iter (map (\<lambda>(a, _, sks). (a, sks)) amount_keys),
           mc_peer_tbs_pks = bt_of_list pks, mc_fee_consensus = fees,
           mc_max_notes_per_denomination = DEFAULT_MAX_NOTES_PER_DENOMINATION\<rparr>)))"

definition distributed_gen ::
  "('s::field, 'g1, 'g2::ab_group_add, 'gt) curve \<Rightarrow> (amount \<Rightarrow> ('e, 'g2 list \<times> 's) result) \<Rightarrow> num_peers \<Rightarrow> bool
    \<Rightarrow> ('e, ('s, 'g2) mint_config) result" where
  "distributed_gen C dkg_of n disable_base_fees =
     rbind (expect mint_gen_denominations) (\<lambda>denominations.
       distributed_gen_for C denominations dkg_of n disable_base_fees)"

subsection \<open>Configuration\<close>

definition aggregate_keys ::
  "('s::field, 'g1, 'g2::ab_group_add, 'gt) curve \<Rightarrow> (peer_id, 'g2 tiered) btree \<Rightarrow> ('e, (amount, 'g2) btree) result" where
  "aggregate_keys C peer_tbs_pks =
     rbind (new_aggregate_from_tiered_iter (bt_values peer_tbs_pks)) (\<lambda>multi.
       map_ok bt_of_list (traverse (\<lambda>(amt, keys).
         let keys = bt_of_list (take (threshold (length peer_tbs_pks))
               (zip (map of_nat [0..<length keys]) keys))
         in map_ok (Pair amt) (aggregate_public_key_shares C keys)) multi))"

definition validate_config ::
  "('s::field, 'g1, 'g2, 'gt) curve \<Rightarrow> peer_id \<Rightarrow> ('s, 'g2) mint_config \<Rightarrow> (string, unit) result" where
  "validate_config C identity config =
     (let sks = bt_of_list (map (\<lambda>(a, sk). (a, derive_pk_share C sk)) (mc_tbs_sks config))
      in rbind (expect (bt_get (mc_peer_tbs_pks config) identity)) (\<lambda>pks.
         rbind (ensure (sks = pks) ''Mint private key doesn't match pubkey share'') (\<lambda>_.
           ensure (from_msats 1 \<in> set (bt_keys sks)) ''No msat 1 denomination'')))"

record 'g2 mint_client_config =
  mcc_tbs_pks :: "(amount, 'g2) btree"
  mcc_fee_consensus :: fee_consensus
  mcc_peer_tbs_pks :: "(peer_id, 'g2 tiered) btree"
  mcc_max_notes_per_denomination :: u16

definition get_client_config ::
  "('s::field, 'g1, 'g2::ab_group_add, 'gt) curve \<Rightarrow> ('s, 'g2) mint_config \<Rightarrow> ('e, 'g2 mint_client_config) result" where
  "get_client_config C config =
     rbind (aggregate_keys C (mc_peer_tbs_pks config)) (\<lambda>tbs_pks.
       Ok \<lparr>mcc_tbs_pks = tbs_pks, mcc_fee_consensus = mc_fee_consensus config,
           mcc_peer_tbs_pks = mc_peer_tbs_pks config,
           mcc_max_notes_per_denomination = mc_max_notes_per_denomination config\<rparr>)"

definition mint_new ::
  "('s::field, 'g1, 'g2::ab_group_add, 'gt) curve \<Rightarrow> ('s, 'g2) mint_config \<Rightarrow> ('e, ('s, 'g2) mint) result" where
  "mint_new C cfg =
     rbind (rassert (0 < count_tiers (mc_tbs_sks cfg))) (\<lambda>_.
     rbind (rassert (\<forall>pk\<in>set (bt_values (mc_peer_tbs_pks cfg)). structural_eq pk (mc_tbs_sks cfg))) (\<lambda>_.
     let ref_pub_key = tiered_from_iter (map (\<lambda>(a, sk). (a, derive_pk_share C sk)) (mc_tbs_sks cfg)) in
     rbind (expect (map_option fst (List.find (\<lambda>(p, pk). pk = ref_pub_key) (mc_peer_tbs_pks cfg)))) (\<lambda>our_id.
     rbind (expect (bt_get (mc_peer_tbs_pks cfg) our_id)) (\<lambda>ours.
     rbind (rassert (ours = ref_pub_key)) (\<lambda>_.
     rbind (aggregate_keys C (mc_peer_tbs_pks cfg)) (\<lambda>pub_key.
       Ok \<lparr>m_cfg = cfg, m_sec_key = mc_tbs_sks cfg, m_pub_key = pub_key\<rparr>))))))"

subsection \<open>The client\<close>

record 's note_issuance_request =
  nir_nonce :: nonce
  nir_blinding_key :: 's

definition blinded_message :: "('s, 'g1, 'g2, 'gt) curve \<Rightarrow> 's note_issuance_request \<Rightarrow> 'g1" where
  "blinded_message C req = blind_message C (to_message C (nir_nonce req)) (nir_blinding_key req)"

definition finalize ::
  "('s::field, 'g1, 'g2, 'gt) curve \<Rightarrow> 's note_issuance_request \<Rightarrow> 'g1 \<Rightarrow> ('e, 'g1 mint_note) result" where
  "finalize C req blinded_signature =
     map_ok (\<lambda>sig. \<lparr>nt_nonce = nir_nonce req, nt_signature = sig\<rparr>)
       (unblind_signature C (nir_blinding_key req) blinded_signature)"

datatype verify_blind_share_error =
    UnknownPeer peer_id
  | ShareInvalidAmountTier amount
  | InvalidShareSignature

definition verify_blind_share ::
  "('s, 'g1, 'g2, 'gt) curve \<Rightarrow> peer_id \<Rightarrow> 'g1 mint_output_outcome \<Rightarrow> amount \<Rightarrow> 'g1
    \<Rightarrow> (peer_id, 'g2 tiered) btree \<Rightarrow> (verify_blind_share_error, 'g1) result" where
  "verify_blind_share C peer outcome amount blinded peer_tbs_pks =
     (case outcome of
        MintOutputOutcomeDefault _ _ \<Rightarrow> Panic
      | MintOutputOutcomeV0 share \<Rightarrow>
          rbind (ok_or (bt_get peer_tbs_pks peer) (UnknownPeer peer)) (\<lambda>pks.
          rbind (map_err (\<lambda>_. ShareInvalidAmountTier amount) (tier pks amount)) (\<lambda>amount_key.
            if \<not> verify_signature_share C blinded share amount_key then Err InvalidShareSignature
            else Ok share)))"

text \<open>\<open>transition_outcome_ready\<close> up to the assertion: the note the client then stores, or the failed state.\<close>

datatype 'g1 outcome_transition =
    OutcomeFailed
  | OutcomeSucceeded amount "'g1 mint_note"

definition transition_outcome_ready ::
  "('s::field, 'g1::ab_group_add, 'g2, 'gt) curve \<Rightarrow> (amount, 'g2) btree \<Rightarrow> amount \<Rightarrow> 's note_issuance_request
    \<Rightarrow> (peer_id, 'g1) btree \<Rightarrow> ('e, 'g1 outcome_transition) result" where
  "transition_outcome_ready C tbs_pks amount req shares =
     rbind (aggregate_signature_shares C (bt_of_list (map (\<lambda>(peer, share). (of_nat (peer_to_usize peer), share)) shares)))
       (\<lambda>agg.
     rbind (expect_ok (tier tbs_pks amount)) (\<lambda>amount_key.
       if \<not> verify_blinded_signature C (blinded_message C req) agg amount_key then Ok OutcomeFailed
       else rbind (finalize C req agg) (\<lambda>note.
         rbind (rassert (note_verify C note amount_key)) (\<lambda>_. Ok (OutcomeSucceeded amount note)))))"

subsection \<open>Aggregating structurally equal key sets\<close>

lemma tm_push_keys:
  "map_of (tm_push m a v) = (map_of m)(a \<mapsto> or_default [] (map_of m a) @ [v])"
  by (simp add: tm_push_def map_of_bt_insert)

lemma map_of_pushes:
  assumes "distinct (map fst t)"
  shows "map_of (foldl (\<lambda>t (a, v). tm_push t a v) m t) k =
    (case map_of t k of None \<Rightarrow> map_of m k | Some v \<Rightarrow> Some (or_default [] (map_of m k) @ [v]))"
  using assms
proof (induction t arbitrary: m)
  case (Cons p t)
  obtain a v where p: "p = (a, v)" by (cases p)
  have "map_of t a = None"
    using Cons.prems p by (simp add: map_of_eq_None_iff)
  then show ?case
    using Cons by (auto simp: p tm_push_keys split: option.split)
qed simp

lemma bt_wf_pushes: "bt_wf m \<Longrightarrow> bt_wf (foldl (\<lambda>t (a, v). tm_push t a v) m t)"
  by (induction t arbitrary: m) (auto simp: tm_push_def)

lemma pushes_column:
  assumes ks: "sorted_wrt (<) ks" and M: "M = (if b then map (\<lambda>a. (a, vs a)) ks else [])" "\<not> b \<Longrightarrow> \<forall>a. vs a = []"
  shows "foldl (\<lambda>t (a, v). tm_push t a v) M (map (\<lambda>a. (a, f a)) ks) = map (\<lambda>a. (a, vs a @ [f a])) ks"
proof (rule bt_wf_eqI)
  have d: "distinct (map fst (map (\<lambda>a. (a, f a)) ks))"
    using ks by (simp add: comp_def strict_sorted_iff)
  show "map_of (foldl (\<lambda>t (a, v). tm_push t a v) M (map (\<lambda>a. (a, f a)) ks)) = map_of (map (\<lambda>a. (a, vs a @ [f a])) ks)"
    using M by (auto simp: fun_eq_iff map_of_pushes [OF d] map_of_map_keys or_default_def)
  show "bt_wf (foldl (\<lambda>t (a, v). tm_push t a v) M (map (\<lambda>a. (a, f a)) ks))"
    using M ks by (intro bt_wf_pushes) (auto intro: bt_wf_map_keys)
qed (rule bt_wf_map_keys [OF ks])

lemma new_aggregate_eq:
  assumes ks: "sorted_wrt (<) ks" and ps: "ps \<noteq> []"
  shows "new_aggregate_from_tiered_iter (map (\<lambda>p. map (\<lambda>a. (a, f p a)) ks) ps)
    = Ok (map (\<lambda>a. (a, map (\<lambda>p. f p a) ps)) ks)"
proof -
  have fold: "foldl (foldl (\<lambda>t (a, v). tm_push t a v)) [] (map (\<lambda>p. map (\<lambda>a. (a, f p a)) ks) ps)
      = (if ps \<noteq> [] then map (\<lambda>a. (a, map (\<lambda>p. f p a) ps)) ks else [])" for ps
  proof (induction ps rule: rev_induct)
    case (snoc p ps)
    show ?case
      using pushes_column [OF ks, where b = "ps \<noteq> []" and vs = "\<lambda>a. map (\<lambda>p. f p a) ps" and f = "f p"] snoc
      by simp
  qed simp
  let ?t = "map (\<lambda>a. (a, map (\<lambda>p. f p a) ps)) ks"
  have "tm_summary ?t = map (\<lambda>a. (a, length ps)) ks"
    by (simp add: tm_summary_def tiered_from_iter_def comp_def bt_of_list_map_keys [OF ks])
  then have "\<forall>c\<in>set (bt_values (tm_summary ?t)). c = hd (bt_values (tm_summary ?t))"
    by (cases ks) (auto simp: bt_values_def)
  then show ?thesis
    using fold [of ps] ps by (simp add: new_aggregate_from_tiered_iter_def Let_def)
qed

subsection \<open>The configuration of a polynomial per denomination\<close>

definition poly_config ::
  "('s::field, 'g1, 'g2, 'gt) curve \<Rightarrow> num_peers \<Rightarrow> (amount \<Rightarrow> 's list) \<Rightarrow> amount list \<Rightarrow> fee_consensus \<Rightarrow> peer_id \<Rightarrow> ('s, 'g2) mint_config" where
  "poly_config C n F ds fees i =
     \<lparr>mc_tbs_sks = map (\<lambda>a. (a, poly_value (F a) (scalar i))) ds,
      mc_peer_tbs_pks = map (\<lambda>p. (p, map (\<lambda>a. (a, derive_pk_share C (poly_value (F a) (scalar p)))) ds)) (peer_ids n),
      mc_fee_consensus = fees, mc_max_notes_per_denomination = DEFAULT_MAX_NOTES_PER_DENOMINATION\<rparr>"

lemma sorted_peer_ids: "sorted_wrt (<) (peer_ids n)"
proof -
  have "(of_nat x :: u16) < of_nat y" if "x < y" "y < n mod 2 ^ 16" for x y
  proof -
    have "y < 2 ^ 16" using that(2) by (rule less_trans) simp
    then show ?thesis
      using that(1) by (simp add: word_less_nat_alt unat_of_nat)
  qed
  then show ?thesis
    unfolding peer_ids_def sorted_wrt_map
    by (intro sorted_wrt_mono_rel [OF _ sorted_wrt_upt]) auto
qed

lemma scalar_eq: "scalar p = share_scalar (of_nat (peer_to_usize p))"
  by (simp add: scalar_def share_scalar_def)

lemma aggregate_keys_poly:
  fixes C :: "('s::field, 'g1::ab_group_add, 'g2::ab_group_add, 'gt) curve"
  assumes C: "curve_ok C" "scalars_ok TYPE('s)" and ds: "sorted_wrt (<) ds" and n: "1 \<le> n" "n < 2 ^ 16"
    and F: "\<And>a. length (F a) = threshold n"
  shows "aggregate_keys C (mc_peer_tbs_pks (poly_config C n F ds fees i))
    = (Ok (map (\<lambda>a. (a, derive_pk_share C (poly_value (F a) 0))) ds) :: ('e, _) result)"
proof -
  let ?f = "\<lambda>p a. derive_pk_share C (poly_value (F a) (scalar p))"
  have len: "length (peer_ids n) = n"
    using length_peer_ids [OF n(2)] .
  have vals: "bt_values (mc_peer_tbs_pks (poly_config C n F ds fees i)) = map (\<lambda>p. map (\<lambda>a. (a, ?f p a)) ds) (peer_ids n)"
    by (simp add: poly_config_def bt_values_def comp_def)
  have "peer_ids n \<noteq> []"
    using len n(1) by auto
  note multi = new_aggregate_eq [OF ds this, where f = ?f]
  have agg: "aggregate_public_key_shares C (bt_of_list (take (threshold n)
      (zip (map of_nat [0..<length (map (\<lambda>p. ?f p a) (peer_ids n))]) (map (\<lambda>p. ?f p a) (peer_ids n)))))
      = (Ok (derive_pk_share C (poly_value (F a) 0)) :: ('e, _) result)" for a
  proof -
    let ?peers = "map of_nat [0..<threshold n] :: u64 list"
    have t: "threshold n \<le> n" "1 \<le> threshold n" using threshold_bounds [OF n(1)] by simp_all
    have key: "share_scalar (of_nat k) = (scalar (of_nat k) :: 's)" if "k < n" for k
      using that n(2) by (simp add: scalar_eq peer_to_usize_def unat_of_nat)
    have "take (threshold n) (zip (map of_nat [0..<length (map (\<lambda>p. ?f p a) (peer_ids n))]) (map (\<lambda>p. ?f p a) (peer_ids n)))
        = shares_of (g2_scale C) (poly_value (F a)) (g2_generator C) ?peers"
      using t len n(2) by (intro nth_equalityI) (auto simp: shares_of_def peer_ids_def derive_pk_share_def key)
    moreover have "sorted_wrt (<) ?peers"
    proof -
      have "(of_nat x :: u64) < of_nat y" if "x < y" "y < threshold n" for x y
      proof -
        have "y < 2 ^ 64" using that(2) t n(2) by simp
        then show ?thesis using that(1) by (simp add: word_less_nat_alt unat_of_nat)
      qed
      then show ?thesis
        unfolding sorted_wrt_map by (intro sorted_wrt_mono_rel [OF _ sorted_wrt_upt]) auto
    qed
    moreover from this have "bt_wf (shares_of (g2_scale C) (poly_value (F a)) (g2_generator C) ?peers)"
      unfolding shares_of_def by (rule bt_wf_map_keys)
    moreover have "aggregate_public_key_shares C (shares_of (g2_scale C) (poly_value (F a)) (g2_generator C) ?peers)
        = (Ok (g2_scale C (poly_value (F a) 0) (g2_generator C)) :: ('e, _) result)"
      using C calculation(2) t F is_poly_value [of "F a"]
      by (intro aggregate_public_key_shares_of) (auto simp: strict_sorted_iff)
    ultimately show ?thesis
      by (simp add: bt_of_list_wf derive_pk_share_def)
  qed
  have len': "length (mc_peer_tbs_pks (poly_config C n F ds fees i)) = n"
    by (simp add: poly_config_def len)
  have "traverse (\<lambda>(amt, keys). let keys = bt_of_list (take (threshold n) (zip (map of_nat [0..<length keys]) keys))
         in map_ok (Pair amt) (aggregate_public_key_shares C keys)) (map (\<lambda>a. (a, map (\<lambda>p. ?f p a) (peer_ids n))) ds)
      = (Ok (map (\<lambda>a. (a, derive_pk_share C (poly_value (F a) 0))) ds) :: ('e, _) result)"
    using agg by (induction ds) (simp_all add: Let_def)
  then show ?thesis
    unfolding aggregate_keys_def vals multi len' by (simp add: bt_of_list_map_keys [OF ds])
qed

lemma find_Some_set: "List.find P xs = Some x \<Longrightarrow> x \<in> set xs \<and> P x"
  by (auto simp: find_Some_iff in_set_conv_nth)

lemma mint_new_poly:
  fixes C :: "('s::field, 'g1::ab_group_add, 'g2::ab_group_add, 'gt) curve"
  assumes C: "curve_ok C" "scalars_ok TYPE('s)" and ds: "sorted_wrt (<) ds" "ds \<noteq> []" and n: "1 \<le> n" "n < 2 ^ 16"
    and F: "\<And>a. length (F a) = threshold n" and i: "i \<in> set (peer_ids n)"
  shows "mint_new C (poly_config C n F ds fees i) =
    (Ok \<lparr>m_cfg = poly_config C n F ds fees i, m_sec_key = map (\<lambda>a. (a, poly_value (F a) (scalar i))) ds,
        m_pub_key = map (\<lambda>a. (a, derive_pk_share C (poly_value (F a) 0))) ds\<rparr> :: ('e, _) result)"
proof -
  let ?cfg = "poly_config C n F ds fees i"
  let ?pks = "\<lambda>p. map (\<lambda>a. (a, derive_pk_share C (poly_value (F a) (scalar p)))) ds"
  have sks: "mc_tbs_sks ?cfg = map (\<lambda>a. (a, poly_value (F a) (scalar i))) ds"
    and pks: "mc_peer_tbs_pks ?cfg = map (\<lambda>p. (p, ?pks p)) (peer_ids n)"
    by (simp_all add: poly_config_def)
  have ref: "tiered_from_iter (map (\<lambda>(a, sk). (a, derive_pk_share C sk)) (mc_tbs_sks ?cfg)) = ?pks i"
    by (simp add: sks tiered_from_iter_def comp_def bt_of_list_map_keys [OF ds(1)])
  have "\<exists>p. List.find (\<lambda>(p, pk). pk = ?pks i) (mc_peer_tbs_pks ?cfg) = Some (p, ?pks i) \<and> p \<in> set (peer_ids n)"
  proof (cases "List.find (\<lambda>(p, pk). pk = ?pks i) (mc_peer_tbs_pks ?cfg)")
    case None
    then show ?thesis
      using i by (auto simp: find_None_iff pks)
  next
    case (Some x)
    from find_Some_set [OF this] have "x \<in> set (mc_peer_tbs_pks ?cfg)" "snd x = ?pks i"
      by (auto simp: case_prod_beta)
    then show ?thesis
      using Some by (cases x) (auto simp: pks)
  qed
  then obtain p where p: "List.find (\<lambda>(p, pk). pk = ?pks i) (mc_peer_tbs_pks ?cfg) = Some (p, ?pks i)"
    "p \<in> set (peer_ids n)" by blast
  then have "(p, ?pks i) \<in> set (mc_peer_tbs_pks ?cfg)"
    by (auto dest: find_Some_set)
  then have get: "bt_get (mc_peer_tbs_pks ?cfg) p = Some (?pks i)"
    using p(2) by (auto simp: pks map_of_map_keys)
  have "\<forall>pk\<in>set (bt_values (mc_peer_tbs_pks ?cfg)). structural_eq pk (mc_tbs_sks ?cfg)"
    by (auto simp: pks sks bt_values_def structural_eq_def bt_keys_def comp_def)
  moreover have "0 < count_tiers (mc_tbs_sks ?cfg)"
    using ds(2) by (simp add: sks count_tiers_def)
  ultimately show ?thesis
    unfolding mint_new_def ref Let_def p(1)
    using get by (simp add: aggregate_keys_poly [OF C ds(1) n F] sks)
qed

lemma distributed_gen_for_poly:
  fixes C :: "('s::field, 'g1::ab_group_add, 'g2::ab_group_add, 'gt) curve"
  assumes C: "curve_ok C" and ds: "sorted_wrt (<) ds" and n: "1 \<le> n"
    and F: "\<And>a. length (F a) = threshold n"
    and dkg: "\<And>a. dkg_of a = (Ok (map (derive_pk_share C) (F a), poly_value (F a) (scalar i)) :: ('e, _) result)"
    and fees: "gen_fee_consensus b = (Ok fees :: ('e, _) result)"
  shows "distributed_gen_for C ds dkg_of n b = Ok (poly_config C n F ds fees i)"
proof -
  let ?G = "g2_group C (\<lambda>_. [])"
  have vs: "vector_space (dg_scale ?G)"
    using C by (simp add: curve_ok_def g2_group_def)
  have ne: "F a \<noteq> []" for a
    using threshold_pos [OF n F] .
  have eval: "eval_poly_g2 C (map (derive_pk_share C) (F a)) p = (Ok (derive_pk_share C (poly_value (F a) (scalar p))) :: ('e, _) result)" for a p
    using group_value_commitment [OF vs, of "F a" "scalar p"] C ne [of a]
    by (simp add: eval_poly_g2_def eval_poly_group_eq curve_ok_def commitment_of_def dg_point_def [abs_def]
      g2_group_def derive_pk_share_def [abs_def])
  have "traverse (\<lambda>a. map_ok (Pair a) (dkg_of a)) ds
      = Ok (map (\<lambda>a. (a, map (derive_pk_share C) (F a), poly_value (F a) (scalar i))) ds)"
    by (intro traverse_Ok) (simp add: dkg)
  moreover have "traverse (\<lambda>peer. map_ok (\<lambda>ks. (peer, tiered_from_iter ks)) (traverse (\<lambda>(a, pks, _).
      map_ok (Pair a) (eval_poly_g2 C pks peer)) (map (\<lambda>a. (a, map (derive_pk_share C) (F a), poly_value (F a) (scalar i))) ds))) (peer_ids n)
      = (Ok (map (\<lambda>p. (p, map (\<lambda>a. (a, derive_pk_share C (poly_value (F a) (scalar p)))) ds)) (peer_ids n)) :: ('e, _) result)"
  proof (rule traverse_Ok)
    fix p
    have "traverse (\<lambda>(a, pks, _). map_ok (Pair a) (eval_poly_g2 C pks p))
        (map (\<lambda>a. (a, map (derive_pk_share C) (F a), poly_value (F a) (scalar i))) ds)
        = (Ok (map (\<lambda>a. (a, derive_pk_share C (poly_value (F a) (scalar p)))) ds) :: ('e, _) result)"
      by (induction ds) (simp_all add: eval)
    then show "map_ok (\<lambda>ks. (p, tiered_from_iter ks)) (traverse (\<lambda>(a, pks, _). map_ok (Pair a) (eval_poly_g2 C pks p))
        (map (\<lambda>a. (a, map (derive_pk_share C) (F a), poly_value (F a) (scalar i))) ds))
        = (Ok (p, map (\<lambda>a. (a, derive_pk_share C (poly_value (F a) (scalar p)))) ds) :: ('e, _) result)"
      by (simp add: tiered_from_iter_def bt_of_list_map_keys [OF ds])
  qed
  ultimately show ?thesis
    unfolding distributed_gen_for_def fees
    by (simp add: Let_def bt_of_list_map_keys [OF ds] bt_of_list_map_keys [OF sorted_peer_ids] tiered_from_iter_def
      comp_def poly_config_def)
qed

lemma dealer_keygen_eq:
  assumes "poly \<noteq> []" and "n < 2 ^ 16"
  shows "dealer_keygen C poly n = (Ok (derive_pk_share C (poly_value poly 0),
      map (\<lambda>p. derive_pk_share C (poly_value poly (scalar p))) (peer_ids n),
      map (\<lambda>p. poly_value poly (scalar p)) (peer_ids n)) :: ('e, _) result)"
proof -
  have eval: "eval_polynomial poly x = (Ok (poly_value poly x) :: ('e, _) result)" for x
    using eval_poly_scalar_eq [OF assms(1), of x] by (simp add: eval_polynomial_def eval_poly_scalar_def)
  have pt: "of_nat (unat (of_nat k + 1 :: u64)) = scalar (of_nat k)" if "k < n" for k
    using that assms(2) by (simp add: scalar_def peer_to_usize_def unat_of_nat)
  have "traverse (\<lambda>idx. eval_polynomial poly (of_nat (unat (of_nat idx + 1 :: u64)))) [0..<n]
      = (Ok (map (\<lambda>k. poly_value poly (scalar (of_nat k))) [0..<n]) :: ('e, _) result)"
    by (intro traverse_Ok) (auto simp only: eval pt set_upt atLeastLessThan_iff)
  then show ?thesis
    using assms(2) by (simp add: dealer_keygen_def eval derive_pk_share_def peer_ids_def comp_def)
qed

lemma peer_ids_nth: "p \<in> set (peer_ids n) \<Longrightarrow> n < 2 ^ 16 \<Longrightarrow> peer_to_usize p < n \<and> peer_ids n ! peer_to_usize p = p"
  by (auto simp: peer_ids_def peer_to_usize_def unat_of_nat)

lemma trusted_dealer_gen_poly:
  fixes C :: "('s::field, 'g1, 'g2, 'gt) curve"
  assumes ds: "sorted_wrt (<) ds" and n: "1 \<le> n" "n < 2 ^ 16"
    and F: "\<And>a. length (F a) = threshold n" and fees: "gen_fee_consensus b = (Ok fees :: ('e, _) result)"
  shows "trusted_dealer_gen C ds F (peer_ids n) b
    = (Ok (map (\<lambda>i. (i, poly_config C n F ds fees i)) (peer_ids n)) :: ('e, _) result)"
proof -
  let ?keys = "map (\<lambda>a. (a, derive_pk_share C (poly_value (F a) 0),
      map (\<lambda>p. derive_pk_share C (poly_value (F a) (scalar p))) (peer_ids n),
      map (\<lambda>p. poly_value (F a) (scalar p)) (peer_ids n))) ds"
  have ne: "F a \<noteq> []" for a
    using threshold_pos [OF n(1) F] .
  have 1: "traverse (\<lambda>a. map_ok (Pair a) (dealer_keygen C (F a) (length (peer_ids n)))) ds = (Ok ?keys :: ('e, _) result)"
    by (intro traverse_Ok) (simp add: dealer_keygen_eq [OF ne n(2)] length_peer_ids [OF n(2)])
  have 2: "traverse (\<lambda>(a, _, pks, _). map_ok (Pair a) (slice_index pks (peer_to_usize p))) ?keys
      = (Ok (map (\<lambda>a. (a, derive_pk_share C (poly_value (F a) (scalar p)))) ds) :: ('e, _) result)"
    if "p \<in> set (peer_ids n)" for p
    using peer_ids_nth [OF that n(2)] length_peer_ids [OF n(2)] by (induction ds) simp_all
  have 3: "traverse (\<lambda>(a, _, _, sks). map_ok (Pair a) (slice_index sks (peer_to_usize p))) ?keys
      = (Ok (map (\<lambda>a. (a, poly_value (F a) (scalar p))) ds) :: ('e, _) result)"
    if "p \<in> set (peer_ids n)" for p
    using peer_ids_nth [OF that n(2)] length_peer_ids [OF n(2)] by (induction ds) simp_all
  have 4: "traverse (\<lambda>q. map_ok (\<lambda>ks. (q, tiered_from_iter ks))
      (traverse (\<lambda>(a, _, pks, _). map_ok (Pair a) (slice_index pks (peer_to_usize q))) ?keys)) (peer_ids n)
      = (Ok (map (\<lambda>q. (q, map (\<lambda>a. (a, derive_pk_share C (poly_value (F a) (scalar q)))) ds)) (peer_ids n)) :: ('e, _) result)"
    by (intro traverse_Ok) (simp add: 2 tiered_from_iter_def bt_of_list_map_keys [OF ds])
  show ?thesis
    unfolding trusted_dealer_gen_def 1 fees
    by (simp add: 4, subst traverse_Ok [where g = "\<lambda>i. (i, poly_config C n F ds fees i)"])
      (simp_all add: 3 bt_of_list_map_keys [OF ds] bt_of_list_map_keys [OF sorted_peer_ids] tiered_from_iter_def
        poly_config_def)
qed

lemma gen_fee_consensus_ok: "\<exists>fees. gen_fee_consensus b = (Ok fees :: ('e, _) result) \<and> mint_fee_ok fees"
proof (cases b)
  case False
  have "mint_fee_new 0 = Ok \<lparr>fc_base = from_msats 100, fc_ppm = 0\<rparr>"
    by (simp add: mint_fee_new_def)
  then show ?thesis
    using False by (auto simp: gen_fee_consensus_def mint_fee_ok_def)
qed (simp add: gen_fee_consensus_def mint_fee_ok_def)

text \<open>The key generation of one denomination, as the configuration calls it.\<close>

definition honest_dkg ::
  "('s::field, 'g1, 'g2::ab_group_add, 'gt) curve \<Rightarrow> ('g2 list \<Rightarrow> bytes) \<Rightarrow> num_peers \<Rightarrow> (peer_id \<Rightarrow> 's list) \<Rightarrow> peer_id
    \<Rightarrow> (dkg_error, 'g2 list \<times> 's) result" where
  "honest_dkg C hash n fs i =
     (case run_dkg_g2 C hash n i (fs i) (\<lambda>q. delivered i (honest_out (g2_group C hash) n fs q)) of
        Some (Ok (r, out)) \<Rightarrow> Ok r
      | Some (Err e) \<Rightarrow> Err e
      | _ \<Rightarrow> Panic)"

lemma honest_dkg_eq:
  assumes "honest_setup (g2_group C hash) n fs i"
  shows "honest_dkg C hash n fs i = Ok (map (derive_pk_share C) (dkg_poly n fs), poly_value (dkg_poly n fs) (scalar i))"
  using honest_run [OF assms]
  by (simp add: honest_dkg_def run_dkg_g2_def commitment_of_def g2_group_def dg_point_def [abs_def] derive_pk_share_def [abs_def])

subsection \<open>Issuance\<close>

lemma verify_input_poly:
  fixes C :: "('s::field, 'g1::ab_group_add, 'g2::ab_group_add, 'gt) curve"
  assumes "curve_ok C" and "a \<in> set ds" and "m_pub_key M = map (\<lambda>a. (a, derive_pk_share C (poly_value (F a) 0))) ds"
  shows "mint_verify_input C M (MintInputV0 a \<lparr>nt_nonce = nc, nt_signature = g1_scale C (poly_value (F a) 0) (to_message C nc)\<rparr>) = Ok ()"
  using assms verify_scaled(1) [OF assms(1)]
  by (simp add: mint_verify_input_def note_verify_def map_of_map_keys derive_pk_share_def)

lemma of_nat_peer_less: "p < q \<Longrightarrow> (of_nat (peer_to_usize p) :: u64) < of_nat (peer_to_usize q)"
proof -
  assume "p < q"
  moreover have small: "unat x < 2 ^ 64" for x :: peer_id
    using unsigned_less [of x, where 'a = nat] by simp
  ultimately show ?thesis
    unfolding peer_to_usize_def word_less_nat_alt [where 'a = 64] unat_of_nat_u64 [OF small]
    by (simp only: word_less_nat_alt)
qed

lemma of_nat_peer_sorted:
  assumes "sorted_wrt (<) S"
  shows "sorted_wrt (<) (map (\<lambda>p. of_nat (peer_to_usize p) :: u64) S)"
  unfolding sorted_wrt_map by (rule sorted_wrt_mono_rel [OF _ assms]) (rule of_nat_peer_less)

text \<open>The client assembles the note from the shares of a threshold of peers.\<close>

lemma client_assembles:
  fixes C :: "('s::field, 'g1::ab_group_add, 'g2::ab_group_add, 'gt) curve"
  assumes C: "curve_ok C" "scalars_ok TYPE('s)" and S: "sorted_wrt (<) S" "length S = length (F a)" "S \<noteq> []"
    and a: "a \<in> set ds" and r: "nir_blinding_key req \<noteq> 0"
  shows "transition_outcome_ready C (map (\<lambda>a. (a, derive_pk_share C (poly_value (F a) 0))) ds) a req
      (map (\<lambda>p. (p, sign_message C (blinded_message C req) (poly_value (F a) (scalar p)))) S)
    = (Ok (OutcomeSucceeded a \<lparr>nt_nonce = nir_nonce req,
        nt_signature = g1_scale C (poly_value (F a) 0) (to_message C (nir_nonce req))\<rparr>) :: ('e, _) result)"
proof -
  let ?peers = "map (\<lambda>p. of_nat (peer_to_usize p) :: u64) S" and ?m = "blinded_message C req" and ?f = "poly_value (F a)"
  have sorted: "sorted_wrt (<) ?peers"
    by (rule of_nat_peer_sorted [OF S(1)])
  have "bt_of_list (map (\<lambda>(peer, share). (of_nat (peer_to_usize peer), share))
      (map (\<lambda>p. (p, sign_message C ?m (?f (scalar p)))) S)) = shares_of (g1_scale C) ?f ?m ?peers"
    using bt_of_list_wf [OF bt_wf_map_keys [OF sorted, of "\<lambda>p. g1_scale C (?f (share_scalar p)) ?m"]]
    by (simp add: shares_of_def comp_def sign_message_def scalar_eq)
  moreover have "aggregate_signature_shares C (shares_of (g1_scale C) ?f ?m ?peers)
      = (Ok (g1_scale C (?f 0) ?m) :: ('e, _) result)"
    using C sorted S is_poly_value [of "F a"] by (intro aggregate_signature_shares_of) (auto simp: strict_sorted_iff)
  moreover have "tier (map (\<lambda>a. (a, derive_pk_share C (poly_value (F a) 0))) ds) a = Ok (derive_pk_share C (?f 0))"
    using a by (simp add: tier_def map_of_map_keys)
  moreover have "verify_blinded_signature C ?m (g1_scale C (?f 0) ?m) (derive_pk_share C (?f 0))"
    using verify_scaled(2) [OF C(1)] by (simp add: derive_pk_share_def)
  moreover have "finalize C req (g1_scale C (?f 0) ?m) = (Ok \<lparr>nt_nonce = nir_nonce req,
      nt_signature = g1_scale C (?f 0) (to_message C (nir_nonce req))\<rparr> :: ('e, _) result)"
    using unblind_sign [OF C(1) r] by (simp add: finalize_def blinded_message_def)
  ultimately show ?thesis
    using verify_scaled(1) [OF C(1)]
    by (simp add: transition_outcome_ready_def note_verify_def derive_pk_share_def)
qed

lemma output_stores_share:
  assumes "mint_process_output C h M db (MintOutputV0 a bn) q = Ok (db', amts)"
    and "bt_get (m_sec_key M) a = Some sk"
  shows "mint_output_status db' q = Some (MintOutputOutcomeV0 (sign_message C bn sk))"
  using assms by (auto simp: mint_process_output_def mint_output_status_def map_of_bt_insert)

text \<open>A federation whose guardians ran the key generation honestly for every denomination.\<close>

definition honest_federation ::
  "('s::field, 'g1::ab_group_add, 'g2::ab_group_add, 'gt) curve \<Rightarrow> ('g2 list \<Rightarrow> bytes) \<Rightarrow> num_peers \<Rightarrow> amount list
    \<Rightarrow> (amount \<Rightarrow> peer_id \<Rightarrow> 's list) \<Rightarrow> bool" where
  "honest_federation C hash n ds fs \<longleftrightarrow> curve_ok C \<and> scalars_ok TYPE('s) \<and> sorted_wrt (<) ds \<and> ds \<noteq> []
     \<and> 2 \<le> n \<and> n < 2 ^ 16 \<and> (\<forall>a. \<forall>i\<in>set (peer_ids n). honest_setup (g2_group C hash) n (fs a) i)"

definition guardian_config ::
  "('s::field, 'g1, 'g2::ab_group_add, 'gt) curve \<Rightarrow> ('g2 list \<Rightarrow> bytes) \<Rightarrow> num_peers \<Rightarrow> amount list
    \<Rightarrow> (amount \<Rightarrow> peer_id \<Rightarrow> 's list) \<Rightarrow> bool \<Rightarrow> peer_id \<Rightarrow> (dkg_error, ('s, 'g2) mint_config) result" where
  "guardian_config C hash n ds fs b i = distributed_gen_for C ds (\<lambda>a. honest_dkg C hash n (fs a) i) n b"

lemma federation_keys:
  fixes C :: "('s::field, 'g1::ab_group_add, 'g2::ab_group_add, 'gt) curve"
  assumes h: "honest_federation C hash n ds fs" and fees: "gen_fee_consensus b = (Ok fees :: (dkg_error, _) result)"
    and i: "i \<in> set (peer_ids n)"
  defines "F \<equiv> \<lambda>a. dkg_poly n (fs a)"
  shows "guardian_config C hash n ds fs b i = Ok (poly_config C n F ds fees i)"
    and "mint_new C (poly_config C n F ds fees i) =
      (Ok \<lparr>m_cfg = poly_config C n F ds fees i, m_sec_key = map (\<lambda>a. (a, poly_value (F a) (scalar i))) ds,
        m_pub_key = map (\<lambda>a. (a, derive_pk_share C (poly_value (F a) 0))) ds\<rparr> :: ('e, _) result)"
    and "get_client_config C (poly_config C n F ds fees i) =
      (Ok \<lparr>mcc_tbs_pks = map (\<lambda>a. (a, derive_pk_share C (poly_value (F a) 0))) ds, mcc_fee_consensus = fees,
        mcc_peer_tbs_pks = mc_peer_tbs_pks (poly_config C n F ds fees 0),
        mcc_max_notes_per_denomination = DEFAULT_MAX_NOTES_PER_DENOMINATION\<rparr> :: ('e, _) result)"
proof -
  have C: "curve_ok C" "scalars_ok TYPE('s)" and ds: "sorted_wrt (<) ds" "ds \<noteq> []" and n: "1 \<le> n" "n < 2 ^ 16"
    and dkg: "\<And>a. honest_setup (g2_group C hash) n (fs a) i"
    using h i by (auto simp: honest_federation_def)
  have F: "length (F a) = threshold n" for a
    by (simp add: F_def dkg_poly_def)
  show "guardian_config C hash n ds fs b i = Ok (poly_config C n F ds fees i)"
    unfolding guardian_config_def using C(1) ds(1) n(1) F _ fees
    by (rule distributed_gen_for_poly) (simp add: honest_dkg_eq [OF dkg] F_def)
  show "mint_new C (poly_config C n F ds fees i) =
      (Ok \<lparr>m_cfg = poly_config C n F ds fees i, m_sec_key = map (\<lambda>a. (a, poly_value (F a) (scalar i))) ds,
        m_pub_key = map (\<lambda>a. (a, derive_pk_share C (poly_value (F a) 0))) ds\<rparr> :: ('e, _) result)"
    by (rule mint_new_poly [OF C ds n F i])
  show "get_client_config C (poly_config C n F ds fees i) =
      (Ok \<lparr>mcc_tbs_pks = map (\<lambda>a. (a, derive_pk_share C (poly_value (F a) 0))) ds, mcc_fee_consensus = fees,
        mcc_peer_tbs_pks = mc_peer_tbs_pks (poly_config C n F ds fees 0),
        mcc_max_notes_per_denomination = DEFAULT_MAX_NOTES_PER_DENOMINATION\<rparr> :: ('e, _) result)"
    unfolding get_client_config_def aggregate_keys_poly [OF C ds(1) n F] by (simp add: poly_config_def)
qed

lemma validate_poly_config:
  assumes "sorted_wrt (<) ds" and "1 \<in> set ds" and "i \<in> set (peer_ids n)"
  shows "validate_config C i (poly_config C n F ds fees i) = Ok ()"
  using assms by (simp add: validate_config_def poly_config_def map_of_map_keys bt_of_list_map_keys comp_def
    bt_keys_def from_msats_def image_image)

text \<open>
  The denominations of the code satisfy what the properties below ask of \<open>ds\<close>, so these hold of
  \<open>distributed_gen\<close> itself.
\<close>

lemma mint_gen_denominations_ok:
  obtains ds where "mint_gen_denominations = Some ds" "sorted_wrt (<) ds" "1 \<in> set ds"
    "\<And>C dkg_of n b. distributed_gen C dkg_of n b = distributed_gen_for C ds dkg_of n b"
proof -
  have "2 \<le> unat (2 :: u64)" "unat (from_bitcoins 1000000) * unat (2 :: u64) < 2 ^ 64"
    by (simp_all add: from_bitcoins_def from_sats_def from_msats_def SATS_PER_BITCOIN_def)
  then obtain t where t: "gen_denominations 2 (from_bitcoins 1000000) = Some t" "bt_wf t"
    "\<forall>a. a \<in> set (bt_keys t) \<longleftrightarrow> a \<le> from_bitcoins 1000000 \<and> (\<exists>k. unat a = unat (2 :: u64) ^ k)"
    using gen_denominations_tiers [of 2 "from_bitcoins 1000000"] by auto
  have one: "1 \<in> set (bt_keys t)"
    using t(3) exI [of "\<lambda>k. unat (1 :: u64) = unat (2 :: u64) ^ k" 0]
    by (simp add: from_bitcoins_def from_sats_def from_msats_def SATS_PER_BITCOIN_def)
  have gen: "mint_gen_denominations = Some (bt_keys t)"
    by (simp add: mint_gen_denominations_def t(1))
  show thesis
    using t(2) one by (intro that [OF gen]) (simp_all add: distributed_gen_def gen bt_wf_def bt_keys_def)
qed

text \<open>
  C26: the key generation of an honest federation ends, and every guardian's configuration is valid:
  it passes the validation, the mint starts from it without a panic, and all guardians hand out the
  same client configuration.
\<close>

theorem generated_config_valid:
  assumes h: "honest_federation C hash n ds fs" and one: "1 \<in> set ds"
  shows "\<exists>cc. \<forall>i\<in>set (peer_ids n). \<exists>cfg M. guardian_config C hash n ds fs b i = Ok cfg
    \<and> validate_config C i cfg = Ok () \<and> mint_new C cfg = (Ok M :: ('e, _) result)
    \<and> get_client_config C cfg = (Ok cc :: ('e, _) result) \<and> mint_fee_ok (mc_fee_consensus cfg)"
proof -
  obtain fees where fees: "gen_fee_consensus b = (Ok fees :: (dkg_error, _) result)" "mint_fee_ok fees"
    using gen_fee_consensus_ok by blast
  have ds: "sorted_wrt (<) ds"
    using h by (simp add: honest_federation_def)
  have "mint_fee_ok (mc_fee_consensus (poly_config C n (\<lambda>a. dkg_poly n (fs a)) ds fees i))" for i
    using fees(2) by (simp add: poly_config_def)
  then show ?thesis
    using federation_keys(1) [OF h fees(1)] federation_keys(2,3) [OF h fees(1), where 'e = 'e] validate_poly_config [OF ds one] by (intro exI) blast
qed

text \<open>
  C23: the whole life of a note in an honest federation. When any threshold of the guardians has
  processed an issuance, the outcomes they report verify as signature shares under the client's
  configuration, the client's transition succeeds, and the note it adds is accepted by every guardian
  under the nonce the client chose.
\<close>

theorem issued_notes_accepted:
  fixes C :: "('s::field, 'g1::{ab_group_add, linorder}, 'g2::ab_group_add, 'gt) curve"
  assumes h: "honest_federation C hash n ds fs"
    and cfg: "\<And>i. i \<in> set (peer_ids n) \<Longrightarrow> guardian_config C hash n ds fs b i = Ok (cfg i)"
    and M: "\<And>i. i \<in> set (peer_ids n) \<Longrightarrow> mint_new C (cfg i) = (Ok (M i) :: (unit, _) result)"
    and cc: "get_client_config C (cfg 0) = (Ok cc :: (unit, _) result)"
    and S: "sorted_wrt (<) S" "set S \<subseteq> set (peer_ids n)" "length S = threshold n"
    and a: "a \<in> set ds" and r: "nir_blinding_key req \<noteq> 0"
    and out: "\<And>p. p \<in> set S \<Longrightarrow>
      mint_process_output C hsh (M p) (db p) (MintOutputV0 a (blinded_message C req)) q = Ok (db' p, amts p)"
  shows "\<exists>share note. (\<forall>p\<in>set S. \<exists>outcome. mint_output_status (db' p) q = Some outcome
        \<and> verify_blind_share C p outcome a (blinded_message C req) (mcc_peer_tbs_pks cc) = Ok (share p))
    \<and> transition_outcome_ready C (mcc_tbs_pks cc) a req (map (\<lambda>p. (p, share p)) S)
        = (Ok (OutcomeSucceeded a note) :: ('e, _) result)
    \<and> nt_nonce note = nir_nonce req
    \<and> (\<forall>i\<in>set (peer_ids n). mint_verify_input C (M i) (MintInputV0 a note) = Ok ())"
proof -
  define F where "F a = dkg_poly n (fs a)" for a
  obtain fees where fees: "gen_fee_consensus b = (Ok fees :: (dkg_error, _) result)"
    using gen_fee_consensus_ok by blast
  have C: "curve_ok C" "scalars_ok TYPE('s)" and n: "1 \<le> n" "n < 2 ^ 16"
    using h by (auto simp: honest_federation_def)
  have F: "length (F a) = threshold n" for a
    by (simp add: F_def dkg_poly_def)
  note keys = federation_keys [OF h fees, folded F_def]
  have cfg': "cfg i = poly_config C n F ds fees i" if "i \<in> set (peer_ids n)" for i
    using cfg [OF that] keys(1) [OF that] by simp
  have M_eq: "M i = \<lparr>m_cfg = cfg i, m_sec_key = map (\<lambda>a. (a, poly_value (F a) (scalar i))) ds,
      m_pub_key = map (\<lambda>a. (a, derive_pk_share C (poly_value (F a) 0))) ds\<rparr>" if "i \<in> set (peer_ids n)" for i
    using M [OF that] keys(2) [OF that, where 'e = unit] by (simp add: cfg' [OF that])
  have M': "m_sec_key (M i) = map (\<lambda>a. (a, poly_value (F a) (scalar i))) ds"
    "m_pub_key (M i) = map (\<lambda>a. (a, derive_pk_share C (poly_value (F a) 0))) ds" if "i \<in> set (peer_ids n)" for i
    by (simp_all add: M_eq [OF that])
  have zero: "0 \<in> set (peer_ids n)"
    using n by (auto simp: peer_ids_def intro!: image_eqI [of _ _ 0])
  have cc': "mcc_tbs_pks cc = map (\<lambda>a. (a, derive_pk_share C (poly_value (F a) 0))) ds"
    "mcc_peer_tbs_pks cc = mc_peer_tbs_pks (poly_config C n F ds fees 0)"
    using cc keys(3) [OF zero, where 'e = unit] by (auto simp: cfg' [OF zero])
  let ?share = "\<lambda>p. sign_message C (blinded_message C req) (poly_value (F a) (scalar p))"
  let ?note = "\<lparr>nt_nonce = nir_nonce req, nt_signature = g1_scale C (poly_value (F a) 0) (to_message C (nir_nonce req))\<rparr>"
  have shares: "mint_output_status (db' p) q = Some (MintOutputOutcomeV0 (?share p))
      \<and> verify_blind_share C p (MintOutputOutcomeV0 (?share p)) a (blinded_message C req) (mcc_peer_tbs_pks cc) = Ok (?share p)"
    if p: "p \<in> set S" for p
  proof
    have peer: "p \<in> set (peer_ids n)" using p S(2) by blast
    show "mint_output_status (db' p) q = Some (MintOutputOutcomeV0 (?share p))"
      by (rule output_stores_share [OF out [OF p]]) (simp add: M' [OF peer] map_of_map_keys a)
    show "verify_blind_share C p (MintOutputOutcomeV0 (?share p)) a (blinded_message C req) (mcc_peer_tbs_pks cc) = Ok (?share p)"
      using a peer verify_scaled(3) [OF C(1)]
      by (simp add: verify_blind_share_def tier_def map_of_map_keys cc' poly_config_def)
  qed
  have "S \<noteq> []"
    using S(3) threshold_bounds(1) [OF n(1)] by auto
  then have "transition_outcome_ready C (mcc_tbs_pks cc) a req (map (\<lambda>p. (p, ?share p)) S)
      = (Ok (OutcomeSucceeded a ?note) :: ('e, _) result)"
    using client_assembles [OF C S(1) _ _ a r, of F, where 'e = 'e] S(3) F by (simp add: cc')
  moreover have "mint_verify_input C (M i) (MintInputV0 a ?note) = Ok ()" if "i \<in> set (peer_ids n)" for i
    using verify_input_poly [OF C(1) a M'(2) [OF that]] .
  ultimately show ?thesis
    using shares by (intro exI [of _ ?share] exI [of _ ?note]) auto
qed

lemma rat_federation: "honest_federation rat_curve (\<lambda>_. []) 4 [1, 8] (\<lambda>a p. [1, 2, 3])"
proof -
  have ids: "peer_ids 4 = [0, 1, 2, 3]"
    by (simp add: peer_ids_def upt_rec)
  have "vector_space (g2_scale rat_curve)"
    using rat_curve_ok by (simp add: curve_ok_def)
  then have "honest_setup (g2_group rat_curve (\<lambda>_. [])) 4 (\<lambda>p. [1, 2, 3]) i" if "i \<in> set (peer_ids 4)" for i
    using that by (simp add: honest_setup_def g2_group_def threshold_eq)
  then show ?thesis
    by (simp add: honest_federation_def rat_curve_ok rat_scalars_ok)
qed

theorem generated_config_valid_witness:
  "\<exists>cfg M. guardian_config rat_curve (\<lambda>_. []) 4 [1, 8] (\<lambda>a p. [1, 2, 3]) True 2 = Ok cfg
    \<and> validate_config rat_curve 2 cfg = Ok () \<and> mint_new rat_curve cfg = (Ok M :: (unit, _) result)"
proof -
  have "(2 :: peer_id) \<in> set (peer_ids 4)"
    by (simp add: peer_ids_def upt_rec)
  then show ?thesis
    using generated_config_valid [OF rat_federation, of True, where 'e = unit] by auto
qed

theorem issued_notes_accepted_witness:
  "\<exists>M share note. (\<forall>i\<in>set (peer_ids 4). \<exists>cfg. guardian_config rat_curve (\<lambda>_. []) 4 [1, 8] (\<lambda>a p. [1, 2, 3]) True i = Ok cfg
      \<and> mint_new rat_curve cfg = (Ok (M i) :: (unit, _) result))
    \<and> transition_outcome_ready rat_curve (m_pub_key (M 0)) 8 \<lparr>nir_nonce = [2], nir_blinding_key = 5\<rparr>
        (map (\<lambda>p. (p, share p)) [0, 2, 3]) = (Ok (OutcomeSucceeded 8 note) :: (unit, _) result)
    \<and> (\<forall>i\<in>set (peer_ids 4). mint_verify_input rat_curve (M i) (MintInputV0 8 note) = Ok ())"
proof -
  let ?fs = "\<lambda>(a::amount) (p::peer_id). [1, 2, 3] :: rat list" and ?req = "\<lparr>nir_nonce = [2], nir_blinding_key = 5\<rparr> :: rat note_issuance_request"
  have fees: "gen_fee_consensus True = (Ok mint_fee_zero :: (dkg_error, _) result)"
    by (simp add: gen_fee_consensus_def)
  note keys = federation_keys [OF rat_federation fees]
  define cfg where "cfg = poly_config rat_curve 4 (\<lambda>a. dkg_poly 4 (?fs a)) [1, 8] mint_fee_zero"
  define M where "M i = \<lparr>m_cfg = cfg i, m_sec_key = map (\<lambda>a. (a, poly_value (dkg_poly 4 (?fs a)) (scalar i))) [1, 8],
    m_pub_key = map (\<lambda>a. (a, derive_pk_share rat_curve (poly_value (dkg_poly 4 (?fs a)) 0))) [1, 8]\<rparr>" for i
  define cc where "cc = \<lparr>mcc_tbs_pks = m_pub_key (M 0), mcc_fee_consensus = mint_fee_zero,
        mcc_peer_tbs_pks = mc_peer_tbs_pks (cfg 0), mcc_max_notes_per_denomination = DEFAULT_MAX_NOTES_PER_DENOMINATION\<rparr>"
  have ids: "peer_ids 4 = [0, 1, 2, 3]"
    by (simp add: peer_ids_def upt_rec)
  have 1: "guardian_config rat_curve (\<lambda>_. []) 4 [1, 8] ?fs True i = Ok (cfg i)"
    and 2: "mint_new rat_curve (cfg i) = (Ok (M i) :: (unit, _) result)" if "i \<in> set (peer_ids 4)" for i
    using keys(1) [OF that] keys(2) [OF that, where 'e = unit] by (simp_all add: cfg_def M_def)
  have 3: "get_client_config rat_curve (cfg 0) = (Ok cc :: (unit, _) result)"
    using keys(3) [of 0, where 'e = unit] by (simp add: ids cfg_def cc_def M_def)
  have "\<exists>db' amts. mint_process_output rat_curve (\<lambda>b. b) (M p) mint_db_empty (MintOutputV0 8 (blinded_message rat_curve ?req)) ([7], 0)
      = Ok (db', amts)" for p
    by (simp add: mint_process_output_def mint_db_empty_def insert_new_entry_def insert_entry_def M_def cfg_def poly_config_def
      mint_fee_def mint_fee_msats_def mint_fee_zero_def checked_add_def saturating_mul_def
      get_recovery_count_def find_by_prefix_sorted_descending_def)
  then obtain db' amts where 4: "mint_process_output rat_curve (\<lambda>b. b) (M p) mint_db_empty
      (MintOutputV0 8 (blinded_message rat_curve ?req)) ([7], 0) = Ok (db' p, amts p)" for p
    by metis
  have "\<exists>share note. transition_outcome_ready rat_curve (mcc_tbs_pks cc) 8 ?req (map (\<lambda>p. (p, share p)) [0, 2, 3])
        = (Ok (OutcomeSucceeded 8 note) :: (unit, _) result)
    \<and> (\<forall>i\<in>set (peer_ids 4). mint_verify_input rat_curve (M i) (MintInputV0 8 note) = Ok ())"
    using issued_notes_accepted [OF rat_federation 1 2 3, where S = "[0, 2, 3]" and a = 8 and req = ?req
        and hsh = "\<lambda>b. b" and db = "\<lambda>_. mint_db_empty" and q = "([7], 0)" and db' = db' and amts = amts and 'e = unit] 4
    by (simp add: ids threshold_eq) blast
  then show ?thesis
    using 1 2 by (intro exI [of _ M]) (auto simp: cc_def)
qed

end
