(* ===== verification/Tpe.thy ===== *)
theory Tpe
  imports Tbs "HOL-Library.Word"
begin

section \<open>Threshold preimage encryption\<close>

text \<open>
  The crate \<open>crypto/tpe/src/lib.rs\<close>: a preimage is encrypted to the aggregate public key of
  the federation, together with a signature that ties the ciphertext to a commitment, and a
  threshold of decryption key shares opens it. The curve is that of \<open>Tbs\<close>, with the two
  groups in the other roles. The last lemmas show that shares of the secret polynomial combine to
  the key that was used to encrypt, and that no other key passes \<open>verify_agg_dk\<close>.
\<close>

unbundle bit_operations_syntax

subsection \<open>The scheme\<close>

record ('g1, 'g2) cipher_text =
  ct_encrypted_preimage :: bytes
  ct_pk :: 'g1
  ct_signature :: 'g2

definition tpe_derive_pk_share :: "('s, 'g1, 'g2, 'gt) curve \<Rightarrow> 's \<Rightarrow> 'g1" where
  "tpe_derive_pk_share C sk = g1_scale C sk (g1_generator C)"

definition derive_ephemeral_sk :: "('s, 'g1, 'g2, 'gt) curve \<Rightarrow> bytes \<Rightarrow> 's" where
  "derive_ephemeral_sk C encryption_seed = scalar_random C encryption_seed"

definition derive_agg_dk :: "('s, 'g1, 'g2, 'gt) curve \<Rightarrow> 'g1 \<Rightarrow> bytes \<Rightarrow> 'g1" where
  "derive_agg_dk C agg_pk encryption_seed = g1_scale C (derive_ephemeral_sk C encryption_seed) agg_pk"

text \<open>Both arguments of the exclusive or are arrays of 32 bytes.\<close>

definition xor_with_hash :: "('s, 'g1, 'g2, 'gt) curve \<Rightarrow> bytes \<Rightarrow> 'g1 \<Rightarrow> bytes" where
  "xor_with_hash C bytes agg_dk =
     (let hash = sha256 C (g1_to_compressed C agg_dk)
      in map (\<lambda>i. bytes ! i XOR hash ! i) [0..<32])"

definition TPE_TAG :: bytes where
  "TPE_TAG = [70, 69, 68, 73, 77, 73, 78, 84, 95, 84, 80, 69, 95, 66, 76, 83, 49, 50, 95, 51, 56, 49,
     95, 77, 69, 83, 83, 65, 71, 69]"

definition hash_to_message :: "('s, 'g1, 'g2, 'gt) curve \<Rightarrow> bytes \<Rightarrow> 'g1 \<Rightarrow> bytes \<Rightarrow> 'g2" where
  "hash_to_message C encrypted_point ephemeral_pk commitment =
     g2_random C (sha256 C (TPE_TAG @ encrypted_point @ g1_to_compressed C ephemeral_pk @ commitment))"

definition encrypt_preimage ::
  "('s, 'g1, 'g2, 'gt) curve \<Rightarrow> 'g1 \<Rightarrow> bytes \<Rightarrow> bytes \<Rightarrow> bytes \<Rightarrow> ('g1, 'g2) cipher_text" where
  "encrypt_preimage C agg_pk encryption_seed preimage commitment =
     (let agg_dk = derive_agg_dk C agg_pk encryption_seed;
          encrypted_preimage = xor_with_hash C preimage agg_dk;
          ephemeral_sk = derive_ephemeral_sk C encryption_seed;
          ephemeral_pk = g1_scale C ephemeral_sk (g1_generator C);
          ephemeral_signature = g2_scale C ephemeral_sk (hash_to_message C encrypted_preimage ephemeral_pk commitment)
      in \<lparr>ct_encrypted_preimage = encrypted_preimage, ct_pk = ephemeral_pk, ct_signature = ephemeral_signature\<rparr>)"

definition verify_ciphertext ::
  "('s, 'g1, 'g2, 'gt) curve \<Rightarrow> ('g1, 'g2) cipher_text \<Rightarrow> bytes \<Rightarrow> bool" where
  "verify_ciphertext C ct commitment \<longleftrightarrow>
     (let message = hash_to_message C (ct_encrypted_preimage ct) (ct_pk ct) commitment
      in pairing C (g1_generator C) (ct_signature ct) = pairing C (ct_pk ct) message)"

definition tpe_decrypt_preimage ::
  "('s, 'g1, 'g2, 'gt) curve \<Rightarrow> ('g1, 'g2) cipher_text \<Rightarrow> 'g1 \<Rightarrow> bytes" where
  "tpe_decrypt_preimage C ct agg_dk = xor_with_hash C (ct_encrypted_preimage ct) agg_dk"

definition verify_agg_dk ::
  "('s, 'g1, 'g2, 'gt) curve \<Rightarrow> 'g1 \<Rightarrow> 'g1 \<Rightarrow> ('g1, 'g2) cipher_text \<Rightarrow> bytes \<Rightarrow> ('e, bool) result" where
  "verify_agg_dk C agg_pk agg_dk ct commitment =
     (let message = hash_to_message C (ct_encrypted_preimage ct) (ct_pk ct) commitment
      in rbind (rassert (pairing C (g1_generator C) (ct_signature ct) = pairing C (ct_pk ct) message)) (\<lambda>_.
           Ok (pairing C agg_dk message = pairing C agg_pk (ct_signature ct))))"

definition create_dk_share :: "('s, 'g1, 'g2, 'gt) curve \<Rightarrow> 's \<Rightarrow> ('g1, 'g2) cipher_text \<Rightarrow> 'g1" where
  "create_dk_share C sks ct = g1_scale C sks (ct_pk ct)"

definition verify_dk_share ::
  "('s, 'g1, 'g2, 'gt) curve \<Rightarrow> 'g1 \<Rightarrow> 'g1 \<Rightarrow> ('g1, 'g2) cipher_text \<Rightarrow> bytes \<Rightarrow> ('e, bool) result" where
  "verify_dk_share C pks dks ct commitment =
     (let message = hash_to_message C (ct_encrypted_preimage ct) (ct_pk ct) commitment
      in rbind (rassert (pairing C (g1_generator C) (ct_signature ct) = pairing C (ct_pk ct) message)) (\<lambda>_.
           Ok (pairing C dks message = pairing C pks (ct_signature ct))))"

definition tpe_lagrange_multipliers :: "'s::field list \<Rightarrow> ('e, 's list) result" where
  "tpe_lagrange_multipliers scalars =
     traverse (\<lambda>i.
       rbind (traverse (\<lambda>j. rbind (expect (invert (j - i))) (\<lambda>v. Ok (j * v))) (filter (\<lambda>j. j \<noteq> i) scalars))
         (\<lambda>factors. Ok (foldl (*) 1 factors))) scalars"

definition aggregate_dk_shares ::
  "('s::field, 'g1::ab_group_add, 'g2, 'gt) curve \<Rightarrow> (u64, 'g1) btree \<Rightarrow> ('e, 'g1) result" where
  "aggregate_dk_shares C shares =
     rbind (tpe_lagrange_multipliers (map share_scalar (bt_keys shares))) (\<lambda>ms.
       expect (reduce (+) (map (\<lambda>(m, share). g1_scale C m share) (zip ms (bt_values shares)))))"

subsection \<open>What the code relies on\<close>

text \<open>
  The pairing is bilinear, so that scaling keeps equal pairings equal, and
  not degenerate: two points of the first group that pair alike with a message are equal, since
  messages are random points other than zero.
\<close>

definition pairing_ok :: "('s, 'g1, 'g2, 'gt) curve \<Rightarrow> bool" where
  "pairing_ok C \<longleftrightarrow> (\<forall>s a b a' b'. pairing C a b = pairing C a' b' \<longrightarrow>
       pairing C a (g2_scale C s b) = pairing C a' (g2_scale C s b'))
     \<and> (\<forall>a b seed. pairing C a (g2_random C seed) = pairing C b (g2_random C seed) \<longrightarrow> a = b)"

subsection \<open>Decryption\<close>

lemma xor_with_hash_twice:
  assumes "length bytes = 32"
  shows "xor_with_hash C (xor_with_hash C bytes dk) dk = bytes"
  using assms by (auto simp: xor_with_hash_def Let_def xor.assoc intro!: nth_equalityI)

lemma decrypt_encrypt:
  assumes "length preimage = 32"
  shows "tpe_decrypt_preimage C (encrypt_preimage C agg_pk seed preimage cm) (derive_agg_dk C agg_pk seed) = preimage"
  using xor_with_hash_twice [OF assms] by (simp add: tpe_decrypt_preimage_def encrypt_preimage_def Let_def)

lemma verify_ciphertext_encrypt:
  "curve_ok C \<Longrightarrow> verify_ciphertext C (encrypt_preimage C agg_pk seed preimage cm) cm"
  by (simp add: verify_ciphertext_def encrypt_preimage_def Let_def curve_ok_def)

lemma verify_agg_dk_eq:
  "verify_agg_dk C agg_pk dk ct cm =
    (if verify_ciphertext C ct cm
     then Ok (pairing C dk (hash_to_message C (ct_encrypted_preimage ct) (ct_pk ct) cm) = pairing C agg_pk (ct_signature ct))
     else Panic)"
  by (simp add: verify_agg_dk_def verify_ciphertext_def rassert_def Let_def)

lemma verify_dk_share_eq:
  "verify_dk_share C pks dks ct cm = verify_agg_dk C pks dks ct cm"
  by (simp add: verify_agg_dk_def verify_dk_share_def)

lemma g1_scale_scale: "curve_ok C \<Longrightarrow> g1_scale C a (g1_scale C b x) = g1_scale C (a * b) x"
  by (simp add: curve_ok_def vector_space.vector_space_assms(3))

lemma g2_scale_scale: "curve_ok C \<Longrightarrow> g2_scale C a (g2_scale C b x) = g2_scale C (a * b) x"
  by (simp add: curve_ok_def vector_space.vector_space_assms(3))

text \<open>A share made with a secret key passes the check against its public key.\<close>

lemma create_dk_share_verifies:
  assumes C: "curve_ok C" "pairing_ok C" and ct: "verify_ciphertext C ct cm"
  shows "verify_dk_share C (tpe_derive_pk_share C sk) (create_dk_share C sk ct) ct cm = Ok True"
proof -
  have p: "pairing C (g1_scale C s a) b = pairing C a (g2_scale C s b)" for s a b
    using C(1) by (simp add: curve_ok_def)
  let ?m = "hash_to_message C (ct_encrypted_preimage ct) (ct_pk ct) cm"
  have "pairing C (ct_pk ct) ?m = pairing C (g1_generator C) (ct_signature ct)"
    using ct by (simp add: verify_ciphertext_def Let_def)
  then have "pairing C (ct_pk ct) (g2_scale C sk ?m) = pairing C (g1_generator C) (g2_scale C sk (ct_signature ct))"
    using C(2) unfolding pairing_ok_def by blast
  then show ?thesis
    using ct by (simp add: verify_dk_share_eq verify_agg_dk_eq create_dk_share_def tpe_derive_pk_share_def p)
qed

text \<open>Exactly one aggregate key passes: the point that the secret key of the federation gives.\<close>

lemma verify_agg_dk_iff:
  assumes C: "curve_ok C" "pairing_ok C" and ct: "verify_ciphertext C ct cm"
  shows "verify_agg_dk C (tpe_derive_pk_share C sk) dk ct cm = Ok (dk = create_dk_share C sk ct)"
proof -
  let ?m = "hash_to_message C (ct_encrypted_preimage ct) (ct_pk ct) cm"
  have "pairing C (create_dk_share C sk ct) ?m = pairing C (tpe_derive_pk_share C sk) (ct_signature ct)"
    using create_dk_share_verifies [OF C ct, of sk] ct by (simp add: verify_dk_share_eq verify_agg_dk_eq)
  moreover have "pairing C dk ?m = pairing C (create_dk_share C sk ct) ?m \<longleftrightarrow> dk = create_dk_share C sk ct"
    using C(2) unfolding pairing_ok_def hash_to_message_def by blast
  ultimately show ?thesis
    using ct by (simp add: verify_agg_dk_eq)
qed

lemma encrypt_key:
  assumes "curve_ok C"
  shows "create_dk_share C sk (encrypt_preimage C (tpe_derive_pk_share C sk) seed preimage cm)
    = derive_agg_dk C (tpe_derive_pk_share C sk) seed"
  by (simp add: create_dk_share_def encrypt_preimage_def derive_agg_dk_def tpe_derive_pk_share_def
    g1_scale_scale [OF assms] mult.commute Let_def)

subsection \<open>Aggregation\<close>

lemma foldl_mult: "foldl (*) a xs = a * prod_list xs" for a :: "'a::monoid_mult"
  by (induction xs arbitrary: a) (simp_all add: mult.assoc)

lemma tpe_lagrange_multipliers_eq:
  assumes "distinct xs"
  shows "tpe_lagrange_multipliers xs = (Ok (map (lagrange_basis (set xs)) xs) :: ('e, 'a::field list) result)"
  unfolding tpe_lagrange_multipliers_def
proof (rule traverse_Ok)
  fix i assume "i \<in> set xs"
  let ?js = "filter (\<lambda>j. j \<noteq> i) xs"
  have "traverse (\<lambda>j. rbind (expect (invert (j - i))) (\<lambda>v. Ok (j * v))) ?js
      = (Ok (map (\<lambda>j. j * inverse (j - i)) ?js) :: ('e, 'a list) result)"
    by (intro traverse_Ok) (auto simp: invert_def)
  then show "rbind (traverse (\<lambda>j. rbind (expect (invert (j - i))) (\<lambda>v. Ok (j * v))) ?js)
      (\<lambda>factors. Ok (foldl (*) 1 factors)) = (Ok (lagrange_basis (set xs) i) :: ('e, 'a) result)"
    by (simp add: foldl_mult lagrange_basis_prod_list [OF assms])
qed

lemma aggregate_dk_shares_of:
  fixes C :: "('s::field, 'g1::ab_group_add, 'g2::ab_group_add, 'gt) curve"
  assumes C: "curve_ok C" and inj: "scalars_ok TYPE('s)"
    and peers: "distinct peers" "peers \<noteq> []" and f: "is_poly (length peers) f"
  shows "aggregate_dk_shares C (shares_of (g1_scale C) f g peers) = (Ok (g1_scale C (f 0) g) :: ('e, 'g1) result)"
proof -
  let ?xs = "map share_scalar peers :: 's list"
  have keys: "map share_scalar (bt_keys (shares_of (g1_scale C) f g peers)) = ?xs"
    and vals: "bt_values (shares_of (g1_scale C) f g peers) = map (\<lambda>x. g1_scale C (f x) g) ?xs"
    by (simp_all add: shares_of_def bt_keys_def bt_values_def comp_def)
  have d: "distinct ?xs"
    by (rule share_scalar_distinct [OF inj peers(1)])
  have "reduce (+) (map (\<lambda>(m, share). g1_scale C m share)
      (zip (map (lagrange_basis (set ?xs)) ?xs) (map (\<lambda>x. g1_scale C (f x) g) ?xs))) = Some (g1_scale C (f 0) g)"
    using combine_shares [OF _ d, of "g1_scale C" f g] f peers(2) C
    by (subst reduce_add) (auto simp: curve_ok_def)
  then show ?thesis
    unfolding aggregate_dk_shares_def keys vals tpe_lagrange_multipliers_eq [OF d] by simp
qed

text \<open>
  C29: a preimage of 32 bytes encrypted to the aggregate public key decrypts. The decryption key
  shares of any peers that are at least as many as the coefficients of the secret polynomial
  verify and aggregate, without a panic, to the one key that \<open>verify_agg_dk\<close> accepts, and that
  key recovers the preimage.
\<close>

theorem threshold_decryption:
  fixes C :: "('s::field, 'g1::ab_group_add, 'g2::ab_group_add, 'gt) curve"
  assumes C: "curve_ok C" "pairing_ok C" and inj: "scalars_ok TYPE('s)"
    and peers: "distinct peers" "peers \<noteq> []" and f: "is_poly (length peers) f"
    and preimage: "length preimage = 32"
    and ct: "ct = encrypt_preimage C (tpe_derive_pk_share C (f 0)) seed preimage cm"
  shows "verify_ciphertext C ct cm
    \<and> (\<forall>p. verify_dk_share C (tpe_derive_pk_share C (f (share_scalar p)))
          (create_dk_share C (f (share_scalar p)) ct) ct cm = (Ok True :: ('e, bool) result))
    \<and> (\<exists>dk. aggregate_dk_shares C (map (\<lambda>p. (p, create_dk_share C (f (share_scalar p)) ct)) peers)
            = (Ok dk :: ('e, 'g1) result)
          \<and> tpe_decrypt_preimage C ct dk = preimage
          \<and> (\<forall>dk'. verify_agg_dk C (tpe_derive_pk_share C (f 0)) dk' ct cm = (Ok (dk' = dk) :: ('e, bool) result)))"
proof (intro conjI allI)
  show v: "verify_ciphertext C ct cm"
    unfolding ct by (rule verify_ciphertext_encrypt [OF C(1)])
  show "verify_dk_share C (tpe_derive_pk_share C (f (share_scalar p)))
      (create_dk_share C (f (share_scalar p)) ct) ct cm = (Ok True :: ('e, bool) result)" for p
    by (rule create_dk_share_verifies [OF C v])
  have dk: "create_dk_share C (f 0) ct = derive_agg_dk C (tpe_derive_pk_share C (f 0)) seed"
    unfolding ct by (rule encrypt_key [OF C(1)])
  have "aggregate_dk_shares C (map (\<lambda>p. (p, create_dk_share C (f (share_scalar p)) ct)) peers)
      = (Ok (create_dk_share C (f 0) ct) :: ('e, 'g1) result)"
    using aggregate_dk_shares_of [OF C(1) inj peers f, of "ct_pk ct"] by (simp add: shares_of_def create_dk_share_def)
  moreover have "tpe_decrypt_preimage C ct (create_dk_share C (f 0) ct) = preimage"
    unfolding dk unfolding ct by (rule decrypt_encrypt [OF preimage])
  ultimately show "\<exists>dk. aggregate_dk_shares C (map (\<lambda>p. (p, create_dk_share C (f (share_scalar p)) ct)) peers)
          = (Ok dk :: ('e, 'g1) result)
        \<and> tpe_decrypt_preimage C ct dk = preimage
        \<and> (\<forall>dk'. verify_agg_dk C (tpe_derive_pk_share C (f 0)) dk' ct cm = (Ok (dk' = dk) :: ('e, bool) result))"
    using verify_agg_dk_iff [OF C v, of "f 0"] by blast
qed

lemma rat_pairing_ok: "pairing_ok rat_curve"
  by (auto simp: pairing_ok_def rat_curve_def)

theorem threshold_decryption_witness:
  "let ct = encrypt_preimage rat_curve (tpe_derive_pk_share rat_curve 5) [1] (replicate 32 9) [4]
   in verify_ciphertext rat_curve ct [4]
    \<and> (\<exists>dk. aggregate_dk_shares rat_curve
            (map (\<lambda>p. (p, create_dk_share rat_curve (5 + 2 * share_scalar p) ct)) [0, 2]) = (Ok dk :: (unit, rat) result)
          \<and> tpe_decrypt_preimage rat_curve ct dk = replicate 32 9)"
proof -
  have poly: "is_poly (length [0 :: u64, 2]) (\<lambda>x :: rat. 5 + 2 * x)"
    unfolding is_poly_def by (rule exI [of _ "\<lambda>k. if k = 0 then 5 else 2"]) (simp add: numeral_2_eq_2)
  show ?thesis
    using threshold_decryption [OF rat_curve_ok rat_pairing_ok rat_scalars_ok _ _ poly, of "replicate 32 9" _ "[1]" "[4]",
      where 'e = unit]
    by (simp add: Let_def) blast
qed

end
