(* ===== verification/Votes.thy ===== *)
theory Votes
  imports Btree Peers
begin

section \<open>Votes of the peers\<close>

text \<open>
  The modules agree on a number, such as a block count or a time, by keeping the latest vote of
  each peer and reading off an order statistic of the votes: the greatest value that enough peers
  have reached. The lemmas characterise the value that is read off and show that it never
  decreases while peers only replace their votes by greater ones.
\<close>

text \<open>\<open>slice::get\<close>.\<close>

definition slice_get :: "'a list \<Rightarrow> nat \<Rightarrow> 'a option" where
  "slice_get xs i = (if i < length xs then Some (xs ! i) else None)"

definition unwrap_or :: "'a \<Rightarrow> 'a option \<Rightarrow> 'a" where
  "unwrap_or d x = (case x of None \<Rightarrow> d | Some v \<Rightarrow> v)"

lemma unwrap_or_simps [simp]: "unwrap_or d None = d" "unwrap_or d (Some v) = v"
  by (simp_all add: unwrap_or_def)

lemma le_nth_descending:
  fixes c :: "'a::linorder"
  assumes "sorted_wrt (\<ge>) ys" and "k < length ys"
  shows "c \<le> ys ! k \<longleftrightarrow> k < length (filter (\<lambda>v. c \<le> v) ys)"
  using assms
proof (induction ys arbitrary: k)
  case (Cons y ys)
  have none: "filter (\<lambda>v. c \<le> v) ys = []" if "\<not> c \<le> y"
    using Cons.prems(1) that by (auto simp: filter_empty_conv)
  show ?case
  proof (cases k)
    case 0
    then show ?thesis using none by auto
  next
    case (Suc j)
    moreover have "ys ! j \<le> y" if "j < length ys"
      using Cons.prems(1) that by simp
    ultimately show ?thesis
      using Cons none by auto
  qed
qed simp

lemma sorted_wrt_rev_sort: "sorted_wrt (\<ge>) (rev (sort xs))"
  by (simp add: sorted_wrt_rev)

lemma length_filter_rev_sort: "length (filter P (rev (sort xs))) = length (filter P xs)"
  by (simp add: filter_sort rev_filter [symmetric] sort_key_simps)

text \<open>The value at position \<open>t - 1\<close> of the descending votes is the greatest that \<open>t\<close> votes reach.\<close>

lemma le_order_statistic:
  fixes c :: "'w::len word"
  assumes "1 \<le> t"
  shows "c \<le> unwrap_or 0 (slice_get (rev (sort xs)) (t - 1)) \<longleftrightarrow> c = 0 \<or> t \<le> length (filter (\<lambda>v. c \<le> v) xs)"
proof (cases "t - 1 < length xs")
  case True
  have "c \<le> rev (sort xs) ! (t - 1) \<longleftrightarrow> t - 1 < length (filter (\<lambda>v. c \<le> v) (rev (sort xs)))"
    using le_nth_descending [OF sorted_wrt_rev_sort, of "t - 1" xs c] True by simp
  then show ?thesis
    using True assms by (auto simp: slice_get_def length_filter_rev_sort)
next
  case False
  then have "length (filter (\<lambda>v. c \<le> v) xs) < t"
    using length_filter_le [of "\<lambda>v. c \<le> v" xs] assms by linarith
  then show ?thesis
    using False by (auto simp: slice_get_def)
qed

text \<open>Which peers have reached a value.\<close>

definition voters :: "(peer_id, 'v::linorder) btree \<Rightarrow> 'v \<Rightarrow> peer_id set" where
  "voters votes c = {p. \<exists>v. bt_get votes p = Some v \<and> c \<le> v}"

lemma finite_voters [simp]: "finite (voters votes c)"
  by (rule finite_subset [of _ "dom (bt_get votes)"]) (auto simp: voters_def finite_dom_map_of)

lemma length_filter_votes:
  assumes "bt_wf votes"
  shows "length (filter (\<lambda>v. c \<le> v) (bt_values votes)) = card (voters votes c)"
proof -
  have d: "distinct (map fst votes)"
    by (rule bt.entries_distinct [OF assms])
  have "voters votes c = set (map fst (filter (\<lambda>e. c \<le> snd e) votes))"
    using d by (force simp: voters_def)
  moreover have "distinct (map fst (filter (\<lambda>e. c \<le> snd e) votes))"
    using d by (rule distinct_map_filter)
  ultimately have "card (voters votes c) = length (filter (\<lambda>e. c \<le> snd e) votes)"
    using distinct_card by fastforce
  then show ?thesis
    by (simp add: bt_values_def filter_map comp_def)
qed

text \<open>Votes that only grow.\<close>

definition votes_le :: "(peer_id, 'v::linorder) btree \<Rightarrow> (peer_id, 'v) btree \<Rightarrow> bool" where
  "votes_le votes votes' \<longleftrightarrow>
     (\<forall>p v. bt_get votes p = Some v \<longrightarrow> (\<exists>v'. bt_get votes' p = Some v' \<and> v \<le> v'))"

lemma votes_le_refl [simp]: "votes_le votes votes"
  by (simp add: votes_le_def)

lemma votes_le_trans: "votes_le a b \<Longrightarrow> votes_le b c \<Longrightarrow> votes_le a c"
  unfolding votes_le_def by (meson order_trans)

lemma votes_le_insert:
  "unwrap_or 0 (bt_get votes p) < v \<Longrightarrow> votes_le votes (bt_insert p v votes)" for v :: "'w::len word"
  by (auto simp: votes_le_def map_of_bt_insert less_imp_le)

lemma voters_mono: "votes_le votes votes' \<Longrightarrow> voters votes c \<subseteq> voters votes' c"
  unfolding votes_le_def voters_def by (blast intro: order_trans)

lemma order_statistic_mono:
  fixes votes :: "(peer_id, 'w::len word) btree"
  assumes "1 \<le> t" and "bt_wf votes" and "bt_wf votes'" and "votes_le votes votes'"
  shows "unwrap_or 0 (slice_get (rev (sort (bt_values votes))) (t - 1))
    \<le> unwrap_or 0 (slice_get (rev (sort (bt_values votes'))) (t - 1))"
proof -
  let ?c = "unwrap_or 0 (slice_get (rev (sort (bt_values votes))) (t - 1))"
  have "?c = 0 \<or> t \<le> card (voters votes ?c)"
    using le_order_statistic [OF assms(1), of ?c "bt_values votes"] by (simp add: length_filter_votes assms(2))
  moreover have "card (voters votes ?c) \<le> card (voters votes' ?c)"
    by (intro card_mono voters_mono assms(4)) simp
  ultimately show ?thesis
    using le_order_statistic [OF assms(1), of ?c "bt_values votes'"]
    by (auto simp: length_filter_votes assms(3))
qed

end
