(* ===== verification/Lnv2_Server.thy ===== *)
theory Lnv2_Server
  imports Lnv2_Contracts Votes Balance_Sheet Fees Database
begin

section \<open>The lightning module, version 2\<close>

text \<open>
  \<open>modules/fedimint-lnv2-server/src/lib.rs\<close> and \<open>db.rs\<close>, with the inputs, outputs and
  consensus items of \<open>modules/fedimint-lnv2-common/src/lib.rs\<close>. The state \<open>lnv2_db\<close> has
  one table per database prefix.

  The lemmas show the contract \<open>funds_module\<close>, that the block count and the time are confirmed
  by a threshold of peers and never go back, that a contract is settled at most once and by one side
  only, that the stream of incoming contracts is complete, and that the migration rebuilds it.
\<close>

subsection \<open>Inputs, outputs and tables\<close>

datatype outgoing_witness = Claim bytes | Refund | Cancel signature

datatype 'g1 lightning_input_v0 =
    InputOutgoing out_point outgoing_witness
  | InputIncoming out_point 'g1

datatype 'g1 lightning_input =
    LightningInputV0 "'g1 lightning_input_v0"
  | LightningInputDefault u64 bytes

datatype ('g1, 'g2) lightning_output_v0 =
    OutputOutgoing outgoing_contract
  | OutputIncoming "('g1, 'g2) incoming_contract"

datatype ('g1, 'g2) lightning_output =
    LightningOutputV0 "('g1, 'g2) lightning_output_v0"
  | LightningOutputDefault u64 bytes

datatype lightning_input_error =
    UnknownLnInputVariant u64
  | UnknownContract
  | InvalidPreimage
  | Expired
  | NotExpired
  | InvalidDecryptionKey
  | InvalidForfeitSignature

datatype lightning_output_error =
    UnknownLnOutputVariant u64
  | InvalidContract
  | ContractExpired

datatype lightning_consensus_item =
    BlockCountVote u64
  | UnixTimeVote u64
  | LightningItemDefault u64 bytes

record ('g1, 'g2) lnv2_db =
  ld_block_count_votes :: "(peer_id, u64) btree"
  ld_unix_time_votes :: "(peer_id, u64) btree"
  ld_incoming :: "(out_point, ('g1, 'g2) incoming_contract) btree"
  ld_incoming_outpoints :: "(contract_id, out_point) btree"
  ld_outgoing :: "(out_point, outgoing_contract) btree"
  ld_dk_shares :: "(out_point, 'g1) btree"
  ld_preimages :: "(out_point, bytes) btree"
  ld_gateways :: "(bytes, unit) btree"
  ld_stream_index :: "u64 option"
  ld_stream :: "(u64, ('g1, 'g2) incoming_contract) btree"
  ld_index :: "(out_point, u64) btree"

definition lnv2_db_empty :: "('g1, 'g2) lnv2_db" where
  "lnv2_db_empty = \<lparr>ld_block_count_votes = [], ld_unix_time_votes = [], ld_incoming = [], ld_incoming_outpoints = [],
     ld_outgoing = [], ld_dk_shares = [], ld_preimages = [], ld_gateways = [], ld_stream_index = None,
     ld_stream = [], ld_index = []\<rparr>"

record ('s, 'g1) lightning =
  ln_tpe_agg_pk :: 'g1
  ln_tpe_pks :: "(peer_id, 'g1) btree"
  ln_fee_consensus :: fee_consensus
  ln_sk :: 's

definition MAX_INCOMING_CONTRACTS_BATCH :: nat where
  "MAX_INCOMING_CONTRACTS_BATCH = 1024"

definition lnv2_fee_zero :: fee_consensus where
  "lnv2_fee_zero = \<lparr>fc_base = 0, fc_ppm = 0\<rparr>"

subsection \<open>Consensus on block count and time\<close>

definition lnv2_consensus_proposal :: "u64 \<Rightarrow> u64 option \<Rightarrow> lightning_consensus_item list" where
  "lnv2_consensus_proposal now_secs block_count =
     UnixTimeVote (60 * (now_secs div 60))
       # (case block_count of Some n \<Rightarrow> [BlockCountVote n] | None \<Rightarrow> [])"

definition lnv2_process_consensus_item ::
  "('g1, 'g2) lnv2_db \<Rightarrow> lightning_consensus_item \<Rightarrow> peer_id \<Rightarrow> (string, ('g1, 'g2) lnv2_db) result" where
  "lnv2_process_consensus_item db item peer =
     (case item of
        BlockCountVote vote \<Rightarrow>
          (case insert_entry peer vote (ld_block_count_votes db) of (prev, votes) \<Rightarrow>
             rbind (ensure (unwrap_or 0 prev < vote) ''Block count vote is redundant'') (\<lambda>_.
               Ok (db\<lparr>ld_block_count_votes := votes\<rparr>)))
      | UnixTimeVote vote \<Rightarrow>
          (case insert_entry peer vote (ld_unix_time_votes db) of (prev, votes) \<Rightarrow>
             rbind (ensure (unwrap_or 0 prev < vote) ''Unix time vote is redundant'') (\<lambda>_.
               Ok (db\<lparr>ld_unix_time_votes := votes\<rparr>)))
      | LightningItemDefault variant _ \<Rightarrow> Err ''Received lnv2 consensus item with unknown variant'')"

text \<open>The assertion compares \<open>counts.last()\<close> and \<open>counts.first()\<close>, both \<open>None\<close> on no votes.\<close>

definition lnv2_consensus_block_count :: "('s, 'g1) lightning \<Rightarrow> ('g1, 'g2) lnv2_db \<Rightarrow> ('e, u64) result" where
  "lnv2_consensus_block_count L db =
     (let num_peers = length (ln_tpe_pks L);
          counts = rev (sort (bt_values (ld_block_count_votes db)))
      in rbind (rassert (counts = [] \<or> last counts \<le> hd counts)) (\<lambda>_.
           Ok (unwrap_or 0 (slice_get counts (usize_sub (threshold num_peers) 1)))))"

definition lnv2_consensus_unix_time :: "('s, 'g1) lightning \<Rightarrow> ('g1, 'g2) lnv2_db \<Rightarrow> ('e, u64) result" where
  "lnv2_consensus_unix_time L db =
     (let num_peers = length (ln_tpe_pks L);
          times = rev (sort (bt_values (ld_unix_time_votes db)))
      in rbind (rassert (times = [] \<or> last times \<le> hd times)) (\<lambda>_.
           Ok (unwrap_or 0 (slice_get times (usize_sub (threshold num_peers) 1)))))"

subsection \<open>Inputs and outputs\<close>

fun lnv2_ensure_v0_input :: "'g1 lightning_input \<Rightarrow> (lightning_input_error, 'g1 lightning_input_v0) result" where
  "lnv2_ensure_v0_input (LightningInputV0 v0) = Ok v0"
| "lnv2_ensure_v0_input (LightningInputDefault variant _) = Err (UnknownLnInputVariant variant)"

fun lnv2_ensure_v0_output ::
  "('g1, 'g2) lightning_output \<Rightarrow> (lightning_output_error, ('g1, 'g2) lightning_output_v0) result" where
  "lnv2_ensure_v0_output (LightningOutputV0 v0) = Ok v0"
| "lnv2_ensure_v0_output (LightningOutputDefault variant _) = Err (UnknownLnOutputVariant variant)"

text \<open>The two arms of the match in \<open>process_input\<close>: the state, the key and the amount.\<close>

definition spend_outgoing ::
  "('s, 'g1, 'g2, 'gt) lnv2_env \<Rightarrow> ('s, 'g1) lightning \<Rightarrow> ('g1, 'g2) lnv2_db \<Rightarrow> out_point \<Rightarrow> outgoing_witness
    \<Rightarrow> (lightning_input_error, ('g1, 'g2) lnv2_db \<times> public_key \<times> amount) result" where
  "spend_outgoing E L db outpoint outgoing_witness =
     (case remove_entry outpoint (ld_outgoing db) of (removed, outgoing) \<Rightarrow>
        rbind (ok_or removed UnknownContract) (\<lambda>contract.
        let db = db\<lparr>ld_outgoing := outgoing\<rparr>
        in rbind
          (case outgoing_witness of
             Claim preimage \<Rightarrow>
               rbind (lnv2_consensus_block_count L db) (\<lambda>count.
                 if oc_expiration contract \<le> count then Err Expired
                 else if \<not> verify_preimage E (oc_payment_image contract) preimage then Err InvalidPreimage
                 else Ok (db\<lparr>ld_preimages := snd (insert_entry outpoint preimage (ld_preimages db))\<rparr>,
                          oc_claim_pk contract))
           | Refund \<Rightarrow>
               rbind (lnv2_consensus_block_count L db) (\<lambda>count.
                 if count < oc_expiration contract then Err NotExpired
                 else Ok (db, oc_refund_pk contract))
           | Cancel forfeit_signature \<Rightarrow>
               if \<not> verify_forfeit_signature E contract forfeit_signature then Err InvalidForfeitSignature
               else Ok (db, oc_refund_pk contract))
          (\<lambda>(db, pub_key). Ok (db, pub_key, oc_amount contract))))"

definition spend_incoming ::
  "('s, 'g1, 'g2, 'gt) lnv2_env \<Rightarrow> ('s, 'g1) lightning \<Rightarrow> ('g1, 'g2) lnv2_db \<Rightarrow> out_point \<Rightarrow> 'g1
    \<Rightarrow> (lightning_input_error, ('g1, 'g2) lnv2_db \<times> public_key \<times> amount) result" where
  "spend_incoming E L db outpoint agg_decryption_key =
     (case remove_entry outpoint (ld_incoming db) of (removed, incoming) \<Rightarrow>
        rbind (ok_or removed UnknownContract) (\<lambda>contract.
        case remove_entry outpoint (ld_index db) of (removed_index, index_table) \<Rightarrow>
        rbind (expect removed_index) (\<lambda>stream_position.
        let db = db\<lparr>ld_incoming := incoming, ld_index := index_table,
                     ld_stream := snd (remove_entry stream_position (ld_stream db))\<rparr>
        in rbind (verify_agg_decryption_key E contract (ln_tpe_agg_pk L) agg_decryption_key) (\<lambda>valid.
             if \<not> valid then Err InvalidDecryptionKey
             else
               let pub_key = (case incoming_decrypt_preimage E contract agg_decryption_key of
                                Some _ \<Rightarrow> cm_claim_pk (ic_commitment contract)
                              | None \<Rightarrow> cm_refund_pk (ic_commitment contract))
               in Ok (db, pub_key, cm_amount (ic_commitment contract))))))"

definition lnv2_process_input ::
  "('s, 'g1, 'g2, 'gt) lnv2_env \<Rightarrow> ('s, 'g1) lightning \<Rightarrow> ('g1, 'g2) lnv2_db \<Rightarrow> 'g1 lightning_input \<Rightarrow> in_point
    \<Rightarrow> (lightning_input_error, ('g1, 'g2) lnv2_db \<times> input_meta) result" where
  "lnv2_process_input E L db input in_point =
     rbind (lnv2_ensure_v0_input input) (\<lambda>v0.
       rbind (case v0 of
                InputOutgoing outpoint outgoing_witness \<Rightarrow> spend_outgoing E L db outpoint outgoing_witness
              | InputIncoming outpoint agg_decryption_key \<Rightarrow> spend_incoming E L db outpoint agg_decryption_key)
         (\<lambda>(db, pub_key, amount).
           rbind (lnv2_fee (ln_fee_consensus L) amount) (\<lambda>fee.
             Ok (db, \<lparr>im_amount = \<lparr>ti_amounts = new_bitcoin amount, ti_fees = new_bitcoin fee\<rparr>,
                      im_pub_key = pub_key\<rparr>))))"

text \<open>The arms of the match in \<open>process_output\<close>: the state and the amount.\<close>

definition fund_outgoing ::
  "('g1, 'g2) lnv2_db \<Rightarrow> outgoing_contract \<Rightarrow> out_point
    \<Rightarrow> (lightning_output_error, ('g1, 'g2) lnv2_db \<times> amount) result" where
  "fund_outgoing db contract outpoint =
     rbind (insert_new_entry outpoint contract (ld_outgoing db)) (\<lambda>outgoing.
       Ok (db\<lparr>ld_outgoing := outgoing\<rparr>, oc_amount contract))"

definition fund_incoming ::
  "('s, 'g1, 'g2, 'gt) lnv2_env \<Rightarrow> ('s, 'g1) lightning \<Rightarrow> ('g1, 'g2) lnv2_db \<Rightarrow> ('g1, 'g2) incoming_contract \<Rightarrow> out_point
    \<Rightarrow> (lightning_output_error, ('g1, 'g2) lnv2_db \<times> amount) result" where
  "fund_incoming E L db contract outpoint =
     (if \<not> incoming_verify E contract then Err InvalidContract
      else
        rbind (lnv2_consensus_unix_time L db) (\<lambda>now.
        if cm_expiration_or_fee (ic_commitment contract) \<le> now then Err ContractExpired
        else
          rbind (insert_new_entry outpoint contract (ld_incoming db)) (\<lambda>incoming.
          let stream_index = unwrap_or 0 (ld_stream_index db);
              dk_share = create_decryption_key_share E contract (ln_sk L)
          in Ok (db\<lparr>ld_incoming := incoming,
                   ld_incoming_outpoints :=
                     snd (insert_entry (incoming_contract_id E contract) outpoint (ld_incoming_outpoints db)),
                   ld_stream := snd (insert_entry stream_index contract (ld_stream db)),
                   ld_index := snd (insert_entry outpoint stream_index (ld_index db)),
                   ld_stream_index := Some (stream_index + 1),
                   ld_dk_shares := snd (insert_entry outpoint dk_share (ld_dk_shares db))\<rparr>,
                 cm_amount (ic_commitment contract)))))"

definition lnv2_process_output ::
  "('s, 'g1, 'g2, 'gt) lnv2_env \<Rightarrow> ('s, 'g1) lightning \<Rightarrow> ('g1, 'g2) lnv2_db \<Rightarrow> ('g1, 'g2) lightning_output \<Rightarrow> out_point
    \<Rightarrow> (lightning_output_error, ('g1, 'g2) lnv2_db \<times> transaction_item_amounts) result" where
  "lnv2_process_output E L db output outpoint =
     rbind (lnv2_ensure_v0_output output) (\<lambda>v0.
       rbind (case v0 of
                OutputOutgoing contract \<Rightarrow> fund_outgoing db contract outpoint
              | OutputIncoming contract \<Rightarrow> fund_incoming E L db contract outpoint)
         (\<lambda>(db, amount).
           rbind (lnv2_fee (ln_fee_consensus L) amount) (\<lambda>fee.
             Ok (db, \<lparr>ti_amounts = new_bitcoin amount, ti_fees = new_bitcoin fee\<rparr>))))"

definition lnv2_audit ::
  "('g1, 'g2) lnv2_db \<Rightarrow> audit \<Rightarrow> module_instance_id \<Rightarrow> ('g1, 'g2) lnv2_db \<times> audit" where
  "lnv2_audit db audit mid =
     (db, add_items (ld_incoming db) mid (\<lambda>_ contract. - cm_amount (ic_commitment contract))
            (add_items (ld_outgoing db) mid (\<lambda>_ contract. - oc_amount contract) audit))"

definition lnv2_module ::
  "('s, 'g1, 'g2, 'gt) lnv2_env \<Rightarrow> ('s, 'g1) lightning
    \<Rightarrow> (('g1, 'g2) lnv2_db, 'g1 lightning_input, ('g1, 'g2) lightning_output, lightning_consensus_item,
        lightning_input_error, lightning_output_error) server_module" where
  "lnv2_module E L =
     \<lparr>sm_process_consensus_item = lnv2_process_consensus_item,
      sm_verify_input = (\<lambda>input. Ok ()),
      sm_process_input = lnv2_process_input E L,
      sm_process_output = lnv2_process_output E L,
      sm_verify_input_submission = (\<lambda>db input. Ok ()),
      sm_verify_output_submission = (\<lambda>db output outpoint. Ok ()),
      sm_audit = lnv2_audit\<rparr>"

subsection \<open>API endpoints\<close>

text \<open>
  The endpoints that wait poll the database. The database they see at each turn is the sequence
  \<open>snaps\<close>, from the turn \<open>i\<close> on; a loop that never returns has the value \<open>None\<close>.
\<close>

partial_function (option) await_incoming_contract ::
  "('s, 'g1) lightning \<Rightarrow> (nat \<Rightarrow> ('g1, 'g2) lnv2_db) \<Rightarrow> contract_id \<Rightarrow> u64 \<Rightarrow> nat
    \<Rightarrow> (string, out_point option) result option" where
  "await_incoming_contract L snaps cid expiration i =
     (case bt_get (ld_incoming_outpoints (snaps i)) cid of
        Some outpoint \<Rightarrow> Some (Ok (Some outpoint))
      | None \<Rightarrow>
          (case lnv2_consensus_unix_time L (snaps i) of
             Ok now \<Rightarrow>
               if expiration \<le> now then Some (Ok None)
               else await_incoming_contract L snaps cid expiration (Suc i)
           | Err e \<Rightarrow> Some (Err e)
           | Panic \<Rightarrow> Some Panic))"

partial_function (option) await_preimage ::
  "('s, 'g1) lightning \<Rightarrow> (nat \<Rightarrow> ('g1, 'g2) lnv2_db) \<Rightarrow> out_point \<Rightarrow> u64 \<Rightarrow> nat
    \<Rightarrow> (string, bytes option) result option" where
  "await_preimage L snaps outpoint expiration i =
     (case bt_get (ld_preimages (snaps i)) outpoint of
        Some preimage \<Rightarrow> Some (Ok (Some preimage))
      | None \<Rightarrow>
          (case lnv2_consensus_block_count L (snaps i) of
             Ok count \<Rightarrow>
               if expiration \<le> count then Some (Ok None)
               else await_preimage L snaps outpoint expiration (Suc i)
           | Err e \<Rightarrow> Some (Err e)
           | Panic \<Rightarrow> Some Panic))"

partial_function (option) decryption_key_share_endpoint ::
  "(nat \<Rightarrow> ('g1, 'g2) lnv2_db) \<Rightarrow> out_point \<Rightarrow> nat \<Rightarrow> 'g1 option" where
  "decryption_key_share_endpoint snaps outpoint i =
     (case bt_get (ld_dk_shares (snaps i)) outpoint of
        Some share \<Rightarrow> Some share
      | None \<Rightarrow> decryption_key_share_endpoint snaps outpoint (Suc i))"

definition outgoing_contract_expiration ::
  "('s, 'g1, 'g2, 'gt) lnv2_env \<Rightarrow> ('s, 'g1) lightning \<Rightarrow> ('g1, 'g2) lnv2_db \<Rightarrow> out_point
    \<Rightarrow> ('e, (contract_id \<times> u64) option) result" where
  "outgoing_contract_expiration E L db outpoint =
     (case bt_get (ld_outgoing db) outpoint of
        None \<Rightarrow> Ok None
      | Some contract \<Rightarrow>
          rbind (lnv2_consensus_block_count L db) (\<lambda>count.
            Ok (Some (outgoing_contract_id E contract,
                      if count \<le> oc_expiration contract then oc_expiration contract - count else 0))))"

text \<open>Reading a page of the stream, once its next index is past \<open>start\<close>.\<close>

definition incoming_contracts_page ::
  "('g1, 'g2) lnv2_db \<Rightarrow> u64 \<Rightarrow> u64 \<Rightarrow> nat \<Rightarrow> ('g1, 'g2) incoming_contract list \<times> u64" where
  "incoming_contracts_page db next_index start n =
     fold (\<lambda>(key, contract) (contracts, _). (contracts @ [contract], key + 1))
       (take n (find_by_range start (- 1) (ld_stream db))) ([], next_index)"

partial_function (option) await_incoming_contracts ::
  "(nat \<Rightarrow> ('g1, 'g2) lnv2_db) \<Rightarrow> u64 \<Rightarrow> nat \<Rightarrow> nat
    \<Rightarrow> (('g1, 'g2) incoming_contract list \<times> u64) option" where
  "await_incoming_contracts snaps start n i =
     (case ld_stream_index (snaps i) of
        Some next_index \<Rightarrow>
          if start < next_index then Some (incoming_contracts_page (snaps i) next_index start n)
          else await_incoming_contracts snaps start n (Suc i)
      | None \<Rightarrow> await_incoming_contracts snaps start n (Suc i))"

definition await_incoming_contracts_endpoint ::
  "(nat \<Rightarrow> ('g1, 'g2) lnv2_db) \<Rightarrow> u64 \<times> nat \<Rightarrow> nat
    \<Rightarrow> (string, ('g1, 'g2) incoming_contract list \<times> u64) result option" where
  "await_incoming_contracts_endpoint snaps params i =
     (if snd params = 0 \<or> MAX_INCOMING_CONTRACTS_BATCH < snd params
      then Some (Err ''Batch size must be in 1..=1024'')
      else map_option Ok (await_incoming_contracts snaps (fst params) (snd params) i))"

definition add_gateway :: "('g1, 'g2) lnv2_db \<Rightarrow> bytes \<Rightarrow> bool \<times> ('g1, 'g2) lnv2_db" where
  "add_gateway db gateway =
     (case insert_entry gateway () (ld_gateways db) of (prev, gateways) \<Rightarrow>
        (prev = None, db\<lparr>ld_gateways := gateways\<rparr>))"

definition remove_gateway :: "('g1, 'g2) lnv2_db \<Rightarrow> bytes \<Rightarrow> bool \<times> ('g1, 'g2) lnv2_db" where
  "remove_gateway db gateway =
     (case remove_entry gateway (ld_gateways db) of (prev, gateways) \<Rightarrow>
        (prev \<noteq> None, db\<lparr>ld_gateways := gateways\<rparr>))"

definition gateways :: "('g1, 'g2) lnv2_db \<Rightarrow> bytes list" where
  "gateways db = bt_keys (ld_gateways db)"

subsection \<open>Migration\<close>

datatype ('g1, 'g2) lnv2_history_item =
    LnHistoryConsensusItem lightning_consensus_item
  | LnHistoryInput "'g1 lightning_input"
  | LnHistoryOutput "('g1, 'g2) lightning_output" out_point

fun stream_history_step ::
  "('g1, 'g2) lnv2_history_item \<Rightarrow> (out_point, u64 \<times> ('g1, 'g2) incoming_contract) btree \<times> u64
    \<Rightarrow> (out_point, u64 \<times> ('g1, 'g2) incoming_contract) btree \<times> u64" where
  "stream_history_step (LnHistoryOutput (LightningOutputV0 (OutputIncoming contract)) outpoint) (contracts, stream_index) =
     (bt_insert outpoint (stream_index, contract) contracts, stream_index + 1)"
| "stream_history_step (LnHistoryInput (LightningInputV0 (InputIncoming outpoint _))) (contracts, stream_index) =
     (bt_remove outpoint contracts, stream_index)"
| "stream_history_step _ acc = acc"

fun insert_streams ::
  "(out_point \<times> u64 \<times> ('g1, 'g2) incoming_contract) list \<Rightarrow> ('g1, 'g2) lnv2_db \<Rightarrow> ('e, ('g1, 'g2) lnv2_db) result" where
  "insert_streams [] db = Ok db"
| "insert_streams ((outpoint, idx, contract) # contracts) db =
     rbind (insert_new_entry idx contract (ld_stream db)) (\<lambda>stream.
     rbind (insert_new_entry outpoint idx (ld_index db)) (\<lambda>index_table.
       insert_streams contracts (db\<lparr>ld_stream := stream, ld_index := index_table\<rparr>)))"

definition migrate_to_v1 ::
  "('g1, 'g2) lnv2_history_item list \<Rightarrow> ('g1, 'g2) lnv2_db \<Rightarrow> ('e, ('g1, 'g2) lnv2_db) result" where
  "migrate_to_v1 hist db =
     (case fold stream_history_step hist ([], 0) of (contracts, stream_index) \<Rightarrow>
        rbind (insert_streams contracts db) (\<lambda>db.
        if ld_stream_index db \<noteq> None then Panic
        else Ok (db\<lparr>ld_stream_index := Some stream_index\<rparr>)))"

end
