(* ===== verification/Lnv2_Laws.thy ===== *)
theory Lnv2_Laws
  imports Lnv2_Server
begin

section \<open>What the lightning module guarantees\<close>

text \<open>
  The laws of \<open>Lnv2_Server\<close>: the contract \<open>funds_module\<close>, the votes, the settlement of
  contracts, the stream of incoming contracts and its migration.
\<close>

subsection \<open>Block count and time\<close>

lemma descending_assert: "sort xs = [] \<or> hd (sort xs) \<le> last (sort xs)" for xs :: "'a::linorder list"
proof (cases "sort xs")
  case (Cons y ys)
  then have "sorted (y # ys)"
    by (metis sorted_sort)
  then show ?thesis
    by (simp add: Cons)
qed simp

definition block_count :: "('s, 'g1) lightning \<Rightarrow> ('g1, 'g2) lnv2_db \<Rightarrow> u64" where
  "block_count L db = unwrap_or 0 (slice_get (rev (sort (bt_values (ld_block_count_votes db))))
     (threshold (length (ln_tpe_pks L)) - 1))"

definition unix_time :: "('s, 'g1) lightning \<Rightarrow> ('g1, 'g2) lnv2_db \<Rightarrow> u64" where
  "unix_time L db = unwrap_or 0 (slice_get (rev (sort (bt_values (ld_unix_time_votes db))))
     (threshold (length (ln_tpe_pks L)) - 1))"

lemma consensus_values:
  assumes "ln_tpe_pks L \<noteq> []"
  shows "lnv2_consensus_block_count L db = Ok (block_count L db)"
    and "lnv2_consensus_unix_time L db = Ok (unix_time L db)"
  using threshold_bounds(1) [of "length (ln_tpe_pks L)"] assms
    descending_assert [of "bt_values (ld_block_count_votes db)"] descending_assert [of "bt_values (ld_unix_time_votes db)"]
  by (simp_all add: hd_rev last_rev lnv2_consensus_block_count_def lnv2_consensus_unix_time_def block_count_def unix_time_def Let_def
    Suc_le_eq)

subsection \<open>The contract\<close>

text \<open>Whether a witness settles an outgoing contract, and in whose favour.\<close>

fun witness_ok ::
  "('s, 'g1, 'g2, 'gt) lnv2_env \<Rightarrow> outgoing_contract \<Rightarrow> u64 \<Rightarrow> outgoing_witness \<Rightarrow> bool" where
  "witness_ok E c count (Claim preimage) \<longleftrightarrow> count < oc_expiration c \<and> verify_preimage E (oc_payment_image c) preimage"
| "witness_ok E c count Refund \<longleftrightarrow> oc_expiration c \<le> count"
| "witness_ok E c count (Cancel sig) \<longleftrightarrow> verify_forfeit_signature E c sig"

fun witness_key :: "outgoing_contract \<Rightarrow> outgoing_witness \<Rightarrow> public_key" where
  "witness_key c (Claim _) = oc_claim_pk c"
| "witness_key c Refund = oc_refund_pk c"
| "witness_key c (Cancel _) = oc_refund_pk c"

fun witness_preimages :: "out_point \<Rightarrow> outgoing_witness \<Rightarrow> (out_point, bytes) btree \<Rightarrow> (out_point, bytes) btree" where
  "witness_preimages q (Claim preimage) t = bt_insert q preimage t"
| "witness_preimages q _ t = t"

lemma block_count_upd [simp]:
  "block_count L (db\<lparr>ld_outgoing := x\<rparr>) = block_count L db"
  "block_count L (db\<lparr>ld_preimages := y\<rparr>) = block_count L db"
  by (simp_all add: block_count_def)

lemma spend_outgoing_eq:
  assumes "ln_tpe_pks L \<noteq> []"
  shows "spend_outgoing E L db q w = Ok (db', pk, a) \<longleftrightarrow>
    (\<exists>c. bt_get (ld_outgoing db) q = Some c \<and> witness_ok E c (block_count L db) w \<and> pk = witness_key c w \<and> a = oc_amount c
      \<and> db' = db\<lparr>ld_outgoing := bt_remove q (ld_outgoing db), ld_preimages := witness_preimages q w (ld_preimages db)\<rparr>)"
  by (cases w; cases "bt_get (ld_outgoing db) q")
    (auto simp: spend_outgoing_def remove_entry_def insert_entry_def Let_def consensus_values [OF assms] not_less not_le
      split: if_splits)

lemma spend_outgoing_no_panic:
  assumes "ln_tpe_pks L \<noteq> []"
  shows "spend_outgoing E L db q w \<noteq> Panic"
  by (cases w) (auto simp: spend_outgoing_def remove_entry_def Let_def consensus_values [OF assms] rbind_eq_Panic)

text \<open>Which key an incoming contract pays to, given the aggregate decryption key.\<close>

definition incoming_key ::
  "('s, 'g1, 'g2, 'gt) lnv2_env \<Rightarrow> ('g1, 'g2) incoming_contract \<Rightarrow> 'g1 \<Rightarrow> public_key" where
  "incoming_key E c dk = (if incoming_decrypt_preimage E c dk \<noteq> None then cm_claim_pk (ic_commitment c)
     else cm_refund_pk (ic_commitment c))"

lemma spend_incoming_eq:
  "spend_incoming E L db q dk = Ok (db', pk, a) \<longleftrightarrow>
    (\<exists>c i. bt_get (ld_incoming db) q = Some c \<and> bt_get (ld_index db) q = Some i
      \<and> verify_agg_decryption_key E c (ln_tpe_agg_pk L) dk = (Ok True :: (lightning_input_error, bool) result)
      \<and> pk = incoming_key E c dk \<and> a = cm_amount (ic_commitment c)
      \<and> db' = db\<lparr>ld_incoming := bt_remove q (ld_incoming db), ld_index := bt_remove q (ld_index db),
          ld_stream := bt_remove i (ld_stream db)\<rparr>)"
proof (cases "bt_get (ld_incoming db) q"; cases "bt_get (ld_index db) q")
  fix c i assume "bt_get (ld_incoming db) q = Some c" "bt_get (ld_index db) q = Some i"
  then show ?thesis
    by (cases "verify_agg_decryption_key E c (ln_tpe_agg_pk L) dk :: (lightning_input_error, bool) result")
      (auto simp: spend_incoming_def remove_entry_def Let_def incoming_key_def split: option.split)
qed (simp_all add: spend_incoming_def remove_entry_def)

lemma fund_incoming_eq:
  assumes "ln_tpe_pks L \<noteq> []"
  shows "fund_incoming E L db c q = Ok (db', a) \<longleftrightarrow>
    incoming_verify E c \<and> unix_time L db < cm_expiration_or_fee (ic_commitment c)
    \<and> bt_get (ld_incoming db) q = None \<and> a = cm_amount (ic_commitment c)
    \<and> db' = db\<lparr>ld_incoming := bt_insert q c (ld_incoming db),
        ld_incoming_outpoints := bt_insert (incoming_contract_id E c) q (ld_incoming_outpoints db),
        ld_stream := bt_insert (unwrap_or 0 (ld_stream_index db)) c (ld_stream db),
        ld_index := bt_insert q (unwrap_or 0 (ld_stream_index db)) (ld_index db),
        ld_stream_index := Some (unwrap_or 0 (ld_stream_index db) + 1),
        ld_dk_shares := bt_insert q (create_decryption_key_share E c (ln_sk L)) (ld_dk_shares db)\<rparr>"
  by (auto simp: fund_incoming_def insert_entry_def Let_def consensus_values [OF assms] split: if_splits)

lemma fund_outgoing_eq:
  "fund_outgoing db c q = Ok (db', a) \<longleftrightarrow>
    bt_get (ld_outgoing db) q = None \<and> a = oc_amount c \<and> db' = db\<lparr>ld_outgoing := bt_insert q c (ld_outgoing db)\<rparr>"
  by (auto simp: fund_outgoing_def)

text \<open>The invariant: every incoming contract was verified and has a place in the stream.\<close>

definition lnv2_fee_ok :: "fee_consensus \<Rightarrow> bool" where
  "lnv2_fee_ok f \<longleftrightarrow> f = lnv2_fee_zero \<or> (\<exists>p. lnv2_fee_new p = Ok f)"

definition lnv2_wf :: "('s, 'g1, 'g2, 'gt) lnv2_env \<Rightarrow> ('g1, 'g2) lnv2_db \<Rightarrow> bool" where
  "lnv2_wf E db \<longleftrightarrow> bt_wf (ld_block_count_votes db) \<and> bt_wf (ld_unix_time_votes db) \<and> bt_wf (ld_incoming db)
     \<and> bt_wf (ld_outgoing db) \<and> bt_wf (ld_preimages db) \<and> bt_wf (ld_stream db) \<and> bt_wf (ld_index db)
     \<and> dom (bt_get (ld_index db)) = dom (bt_get (ld_incoming db))
     \<and> (\<forall>q c. bt_get (ld_incoming db) q = Some c \<longrightarrow> incoming_verify E c)"

definition lightning_ok :: "('s, 'g1) lightning \<Rightarrow> bool" where
  "lightning_ok L \<longleftrightarrow> ln_tpe_pks L \<noteq> [] \<and> lnv2_fee_ok (ln_fee_consensus L)"

definition lnv2_good :: "('s, 'g1, 'g2, 'gt) lnv2_env \<Rightarrow> ('s, 'g1) lightning \<Rightarrow> ('g1, 'g2) lnv2_db \<Rightarrow> bool" where
  "lnv2_good E L db \<longleftrightarrow> lnv2_wf E db \<and> lightning_ok L"

text \<open>Contracts are liabilities.\<close>

abbreviation outgoing_value :: "out_point \<Rightarrow> outgoing_contract \<Rightarrow> int" where
  "outgoing_value q c \<equiv> int (unat (oc_amount c))"

abbreviation incoming_value :: "out_point \<Rightarrow> ('g1, 'g2) incoming_contract \<Rightarrow> int" where
  "incoming_value q c \<equiv> int (unat (cm_amount (ic_commitment c)))"

definition lnv2_balance :: "('g1, 'g2) lnv2_db \<Rightarrow> int" where
  "lnv2_balance db = - bt.total outgoing_value (ld_outgoing db) - bt.total incoming_value (ld_incoming db)"

definition lnv2_outs :: "('g1, 'g2) lnv2_db \<Rightarrow> out_point set" where
  "lnv2_outs db = dom (bt_get (ld_outgoing db)) \<union> dom (bt_get (ld_incoming db))"

lemma lnv2_fee_ok_fee:
  assumes "lnv2_fee_ok f"
  shows "\<exists>x. lnv2_fee f a = (Ok x :: ('e, amount) result)"
  using assms unfolding lnv2_fee_ok_def
proof (elim disjE exE)
  assume "f = lnv2_fee_zero"
  then show ?thesis
    by (simp add: lnv2_fee_zero_def lnv2_fee_def lnv2_fee_msats_def checked_add_def saturating_mul_def)
next
  fix p assume "lnv2_fee_new p = Ok f"
  then show ?thesis using lnv2.fee_value [of p f a] by blast
qed

lemma lnv2_fee_no_panic: "lnv2_fee_ok f \<Longrightarrow> lnv2_fee f a \<noteq> (Panic :: ('e, amount) result)"
  using lnv2_fee_ok_fee [of f a, where 'e = 'e] by auto

lemma lnv2_input_cases:
  assumes "lnv2_process_input E L db input p = Ok (db', m)"
  obtains q w pk a fee where "input = LightningInputV0 (InputOutgoing q w)" "spend_outgoing E L db q w = Ok (db', pk, a)"
      "m = \<lparr>im_amount = \<lparr>ti_amounts = new_bitcoin a, ti_fees = new_bitcoin fee\<rparr>, im_pub_key = pk\<rparr>"
  | q dk pk a fee where "input = LightningInputV0 (InputIncoming q dk)" "spend_incoming E L db q dk = Ok (db', pk, a)"
      "m = \<lparr>im_amount = \<lparr>ti_amounts = new_bitcoin a, ti_fees = new_bitcoin fee\<rparr>, im_pub_key = pk\<rparr>"
  using assms by (cases input) (auto simp: lnv2_process_input_def split: lightning_input_v0.splits)

lemma lnv2_output_cases:
  assumes "lnv2_process_output E L db ot q = Ok (db', x)"
  obtains c a fee where "ot = LightningOutputV0 (OutputOutgoing c)" "fund_outgoing db c q = Ok (db', a)"
      "x = \<lparr>ti_amounts = new_bitcoin a, ti_fees = new_bitcoin fee\<rparr>"
  | c a fee where "ot = LightningOutputV0 (OutputIncoming c)" "fund_incoming E L db c q = Ok (db', a)"
      "x = \<lparr>ti_amounts = new_bitcoin a, ti_fees = new_bitcoin fee\<rparr>"
  using assms by (cases ot) (auto simp: lnv2_process_output_def split: lightning_output_v0.splits)

lemma lnv2_input_keeps:
  assumes good: "lnv2_good E L db" and ok: "lnv2_process_input E L db input p = Ok (db', m)"
  shows "lnv2_good E L db' \<and> item_wf (im_amount m) \<and> lnv2_outs db' \<subseteq> lnv2_outs db
    \<and> lnv2_balance db' = lnv2_balance db + bitcoin_of (ti_amounts (im_amount m))"
proof -
  have wf: "lnv2_wf E db" and L: "lightning_ok L" "ln_tpe_pks L \<noteq> []"
    using good by (simp_all add: lnv2_good_def lightning_ok_def)
  from ok show ?thesis
  proof (cases rule: lnv2_input_cases)
    case (1 q w pk a fee)
    then obtain c where c: "bt_get (ld_outgoing db) q = Some c" "a = oc_amount c"
      "db' = db\<lparr>ld_outgoing := bt_remove q (ld_outgoing db), ld_preimages := witness_preimages q w (ld_preimages db)\<rparr>"
      by (auto simp: spend_outgoing_eq [OF L(2)])
    have "lnv2_wf E db'"
      using wf by (cases w) (simp_all add: lnv2_wf_def c(3))
    moreover have "lnv2_balance db' = lnv2_balance db + int (unat a)"
      using wf bt.total_remove [of "ld_outgoing db" q c outgoing_value] c by (simp add: lnv2_balance_def lnv2_wf_def)
    moreover have "lnv2_outs db' \<subseteq> lnv2_outs db"
      by (auto simp: lnv2_outs_def c(3) map_of_bt_remove split: if_splits)
    ultimately show ?thesis
      using L(1) by (simp add: lnv2_good_def 1(3))
  next
    case (2 q dk pk a fee)
    then obtain c i where c: "bt_get (ld_incoming db) q = Some c" "a = cm_amount (ic_commitment c)"
      "db' = db\<lparr>ld_incoming := bt_remove q (ld_incoming db), ld_index := bt_remove q (ld_index db),
          ld_stream := bt_remove i (ld_stream db)\<rparr>"
      by (auto simp: spend_incoming_eq)
    have "lnv2_wf E db'"
      using wf by (simp add: lnv2_wf_def c(3) dom_bt_remove) (simp add: map_of_bt_remove)
    moreover have "lnv2_balance db' = lnv2_balance db + int (unat a)"
      using wf bt.total_remove [of "ld_incoming db" q c incoming_value] c by (simp add: lnv2_balance_def lnv2_wf_def)
    moreover have "lnv2_outs db' \<subseteq> lnv2_outs db"
      by (auto simp: lnv2_outs_def c(3) map_of_bt_remove split: if_splits)
    ultimately show ?thesis
      using L(1) by (simp add: lnv2_good_def 2(3))
  qed
qed

lemma lnv2_output_keeps:
  assumes good: "lnv2_good E L db" and ok: "lnv2_process_output E L db ot q = Ok (db', x)"
  shows "lnv2_good E L db' \<and> item_wf x \<and> lnv2_outs db' \<subseteq> insert q (lnv2_outs db)
    \<and> lnv2_balance db' = lnv2_balance db - bitcoin_of (ti_amounts x)"
proof -
  have wf: "lnv2_wf E db" and L: "lightning_ok L" "ln_tpe_pks L \<noteq> []"
    using good by (simp_all add: lnv2_good_def lightning_ok_def)
  from ok show ?thesis
  proof (cases rule: lnv2_output_cases)
    case (1 c a fee)
    note c = 1(2) [unfolded fund_outgoing_eq]
    have "lnv2_wf E db'"
      using wf by (simp add: lnv2_wf_def c)
    moreover have "lnv2_balance db' = lnv2_balance db - int (unat a)"
      using wf c by (simp add: lnv2_balance_def lnv2_wf_def bt.total_insert_new)
    moreover have "lnv2_outs db' \<subseteq> insert q (lnv2_outs db)"
      using c by (auto simp: lnv2_outs_def map_of_bt_insert split: if_splits)
    ultimately show ?thesis
      using L(1) by (simp add: lnv2_good_def 1(3))
  next
    case (2 c a fee)
    note c = 2(2) [unfolded fund_incoming_eq [OF L(2)]]
    have "lnv2_wf E db'"
      using wf c by (simp add: lnv2_wf_def dom_bt_insert) (simp add: map_of_bt_insert)
    moreover have "lnv2_balance db' = lnv2_balance db - int (unat a)"
      using wf c by (simp add: lnv2_balance_def lnv2_wf_def bt.total_insert_new)
    moreover have "lnv2_outs db' \<subseteq> insert q (lnv2_outs db)"
      using c by (auto simp: lnv2_outs_def map_of_bt_insert split: if_splits)
    ultimately show ?thesis
      using L(1) by (simp add: lnv2_good_def 2(3))
  qed
qed

lemma verify_agg_decryption_key_no_panic:
  "incoming_verify E c \<Longrightarrow> verify_agg_decryption_key E c pk dk \<noteq> (Panic :: ('e, bool) result)"
  by (simp add: verify_agg_decryption_key_def incoming_verify_def verify_agg_dk_eq)

interpretation lnv2_funds: funds_module "lnv2_process_input E L" "lnv2_process_output E L"
  lnv2_balance lnv2_outs "lnv2_good E L" "\<lambda>_. 0" "\<lambda>_. True" "\<lambda>_. True"
  for E :: "('s, 'g1, 'g2, 'gt) lnv2_env" and L
proof
  fix db input p
  assume good: "lnv2_good E L db"
  then have L: "ln_tpe_pks L \<noteq> []" "lnv2_fee_ok (ln_fee_consensus L)" and wf: "lnv2_wf E db"
    by (simp_all add: lnv2_good_def lightning_ok_def)
  have "spend_incoming E L db q dk \<noteq> Panic" for q dk
  proof (cases "bt_get (ld_incoming db) q")
    case (Some c)
    moreover from this obtain i where "bt_get (ld_index db) q = Some i"
      using wf by (force simp: lnv2_wf_def)
    moreover have "incoming_verify E c"
      using wf Some unfolding lnv2_wf_def by blast
    ultimately show ?thesis
      by (simp add: spend_incoming_def remove_entry_def rbind_eq_Panic Let_def verify_agg_decryption_key_no_panic)
  qed (simp add: spend_incoming_def remove_entry_def)
  then show "lnv2_process_input E L db input p \<noteq> Panic"
    by (cases input) (auto simp: lnv2_process_input_def rbind_eq_Panic spend_outgoing_no_panic [OF L(1)]
      lnv2_fee_no_panic [OF L(2)] split: lightning_input_v0.split)
next
  fix db ot q
  assume good: "lnv2_good E L db" and q: "q \<notin> lnv2_outs db"
  then have L: "ln_tpe_pks L \<noteq> []" "lnv2_fee_ok (ln_fee_consensus L)"
    by (simp_all add: lnv2_good_def lightning_ok_def)
  have "bt_get (ld_outgoing db) q = None" "bt_get (ld_incoming db) q = None"
    using q by (cases q; auto simp: lnv2_outs_def)+
  then show "lnv2_process_output E L db ot q \<noteq> Panic"
    by (cases ot) (auto simp: lnv2_process_output_def rbind_eq_Panic fund_outgoing_def fund_incoming_def
      consensus_values [OF L(1)] lnv2_fee_no_panic [OF L(2)] Let_def split: lightning_output_v0.split)
qed (auto dest: lnv2_input_keeps lnv2_output_keeps)

text \<open>
  C30: the consensus block count is confirmed by a threshold of the peers, and any threshold of the
  peers can raise it: a count is reached exactly when it is 0 or at least a threshold of the peers
  have voted for it or more. The computation does not panic.
\<close>

theorem block_count_confirmed:
  assumes "ln_tpe_pks L \<noteq> []" and "bt_wf (ld_block_count_votes db)"
  shows "\<exists>n. lnv2_consensus_block_count L db = (Ok n :: ('e, u64) result)
    \<and> (\<forall>c. c \<le> n \<longleftrightarrow> c = 0 \<or> threshold (length (ln_tpe_pks L)) \<le> card (voters (ld_block_count_votes db) c))"
proof -
  have "1 \<le> threshold (length (ln_tpe_pks L))"
    using assms(1) by (intro threshold_bounds(1)) (simp add: Suc_le_eq)
  then have "c \<le> block_count L db
      \<longleftrightarrow> c = 0 \<or> threshold (length (ln_tpe_pks L)) \<le> card (voters (ld_block_count_votes db) c)" for c
    unfolding block_count_def by (simp only: le_order_statistic length_filter_votes [OF assms(2)])
  then show ?thesis
    by (simp add: consensus_values [OF assms(1)])
qed

text \<open>A small instance: four guardians and the curve of the rationals.\<close>

definition sample_lnv2_env :: "(rat, rat, rat, rat) lnv2_env" where
  "sample_lnv2_env = \<lparr>le_curve = rat_curve, le_benc = (\<lambda>n. [ucast n]), le_verify_schnorr = (\<lambda>_ _ _. True),
     le_sk_public_key = (\<lambda>_. None)\<rparr>"

definition sample_lightning :: "(rat, rat) lightning" where
  "sample_lightning = \<lparr>ln_tpe_agg_pk = 1, ln_tpe_pks = [(0, 1), (1, 1), (2, 1), (3, 1)],
     ln_fee_consensus = lnv2_fee_zero, ln_sk = 1\<rparr>"

definition sample_votes :: "(rat, rat) lnv2_db" where
  "sample_votes = lnv2_db_empty\<lparr>ld_block_count_votes := [(0, 7), (1, 9), (3, 8)]\<rparr>"

lemma sample_good: "lnv2_good sample_lnv2_env sample_lightning lnv2_db_empty"
  by (simp add: lnv2_good_def lightning_ok_def lnv2_wf_def lnv2_db_empty_def sample_lightning_def lnv2_fee_ok_def)

theorem block_count_confirmed_witness:
  "\<exists>n. lnv2_consensus_block_count sample_lightning sample_votes = (Ok n :: (unit, u64) result)
    \<and> (\<forall>c. c \<le> n \<longleftrightarrow> c = 0 \<or> threshold (length (ln_tpe_pks sample_lightning))
          \<le> card (voters (ld_block_count_votes sample_votes) c))"
proof (rule block_count_confirmed)
  show "ln_tpe_pks sample_lightning \<noteq> []"
    by (simp add: sample_lightning_def)
  show "bt_wf (ld_block_count_votes sample_votes)"
    by (simp add: sample_votes_def bt_wf_def)
qed

subsection \<open>Runs of the module\<close>

datatype ('g1, 'g2) lnv2_event =
    EvItem lightning_consensus_item peer_id
  | EvInput "'g1 lightning_input" in_point
  | EvOutput "('g1, 'g2) lightning_output" out_point

text \<open>Consensus applies the operations one after the other; what fails leaves no trace.\<close>

inductive lnv2_step ::
  "('s, 'g1, 'g2, 'gt) lnv2_env \<Rightarrow> ('s, 'g1) lightning \<Rightarrow> ('g1, 'g2) lnv2_db \<Rightarrow> ('g1, 'g2) lnv2_event
    \<Rightarrow> ('g1, 'g2) lnv2_db \<Rightarrow> bool" for E L where
  step_item: "lnv2_process_consensus_item db item peer = Ok db' \<Longrightarrow> lnv2_step E L db (EvItem item peer) db'"
| step_input: "lnv2_process_input E L db input p = Ok (db', m) \<Longrightarrow> lnv2_step E L db (EvInput input p) db'"
| step_output: "lnv2_process_output E L db ot q = Ok (db', x) \<Longrightarrow> lnv2_step E L db (EvOutput ot q) db'"

inductive_simps lnv2_step_simps:
  "lnv2_step E L db (EvItem item peer) db'"
  "lnv2_step E L db (EvInput input p) db'"
  "lnv2_step E L db (EvOutput ot q) db'"

inductive lnv2_run ::
  "('s, 'g1, 'g2, 'gt) lnv2_env \<Rightarrow> ('s, 'g1) lightning \<Rightarrow> ('g1, 'g2) lnv2_db \<Rightarrow> ('g1, 'g2) lnv2_event list
    \<Rightarrow> ('g1, 'g2) lnv2_db \<Rightarrow> bool" for E L where
  run_Nil: "lnv2_run E L db [] db"
| run_Cons: "lnv2_step E L db ev db1 \<Longrightarrow> lnv2_run E L db1 evs db' \<Longrightarrow> lnv2_run E L db (ev # evs) db'"

inductive_simps lnv2_run_simps [simp]:
  "lnv2_run E L db [] db'"
  "lnv2_run E L db (ev # evs) db'"

text \<open>Which contract an event settles, and which it funds.\<close>

fun settles :: "out_point \<Rightarrow> ('g1, 'g2) lnv2_event \<Rightarrow> bool" where
  "settles q (EvInput (LightningInputV0 (InputOutgoing q' _)) _) \<longleftrightarrow> q = q'"
| "settles q _ \<longleftrightarrow> False"

fun settles_incoming :: "out_point \<Rightarrow> ('g1, 'g2) lnv2_event \<Rightarrow> bool" where
  "settles_incoming q (EvInput (LightningInputV0 (InputIncoming q' _)) _) \<longleftrightarrow> q = q'"
| "settles_incoming q _ \<longleftrightarrow> False"

fun funds :: "out_point \<Rightarrow> ('g1, 'g2) lnv2_event \<Rightarrow> bool" where
  "funds q (EvOutput (LightningOutputV0 (OutputOutgoing _)) q') \<longleftrightarrow> q = q'"
| "funds q _ \<longleftrightarrow> False"

fun funds_incoming :: "out_point \<Rightarrow> ('g1, 'g2) lnv2_event \<Rightarrow> bool" where
  "funds_incoming q (EvOutput (LightningOutputV0 (OutputIncoming _)) q') \<longleftrightarrow> q = q'"
| "funds_incoming q _ \<longleftrightarrow> False"

definition present :: "'k \<Rightarrow> ('k, 'v) btree \<Rightarrow> nat" where
  "present q t = (if bt_get t q = None then 0 else 1)"

lemma present_insert: "present q (bt_insert k v t) = (if q = k then 1 else present q t)" for k :: "'k::linorder"
  by (simp add: present_def map_of_bt_insert)

lemma present_remove: "present q (bt_remove k t) = (if q = k then 0 else present q t)"
  by (simp add: present_def map_of_bt_remove)

lemma present_eq: "bt_get t q = Some v \<Longrightarrow> present q t = 1" "bt_get t q = None \<Longrightarrow> present q t = 0"
  by (simp_all add: present_def)

lemma length_filter_Cons: "length (filter P (x # xs)) = of_bool (P x) + length (filter P xs)"
  by simp

lemma process_item_cases:
  assumes "lnv2_process_consensus_item db item peer = Ok db'"
  obtains v where "item = BlockCountVote v" "unwrap_or 0 (bt_get (ld_block_count_votes db) peer) < v"
      "db' = db\<lparr>ld_block_count_votes := bt_insert peer v (ld_block_count_votes db)\<rparr>"
  | v where "item = UnixTimeVote v" "unwrap_or 0 (bt_get (ld_unix_time_votes db) peer) < v"
      "db' = db\<lparr>ld_unix_time_votes := bt_insert peer v (ld_unix_time_votes db)\<rparr>"
  using assms by (cases item) (auto simp: lnv2_process_consensus_item_def insert_entry_def)

lemma lnv2_step_good:
  assumes "lnv2_good E L db" and "lnv2_step E L db ev db'"
  shows "lnv2_good E L db'"
  using assms(2,1)
proof cases
  case (step_item item peer)
  from step_item(2) show ?thesis
    using assms(1) by (cases rule: process_item_cases) (simp_all add: lnv2_good_def lnv2_wf_def)
qed (use lnv2_input_keeps lnv2_output_keeps in blast)+

lemma lnv2_run_good: "lnv2_run E L db evs db' \<Longrightarrow> lnv2_good E L db \<Longrightarrow> lnv2_good E L db'"
  by (induction rule: lnv2_run.induct) (auto dest: lnv2_step_good)

lemma lnv2_step_counts:
  assumes "lnv2_good E L db" and "lnv2_step E L db ev db'"
  shows "of_bool (settles q ev) + present q (ld_outgoing db') = present q (ld_outgoing db) + of_bool (funds q ev)
    \<and> of_bool (settles_incoming q ev) + present q (ld_incoming db') = present q (ld_incoming db) + of_bool (funds_incoming q ev)
    \<and> votes_le (ld_block_count_votes db) (ld_block_count_votes db')
    \<and> votes_le (ld_unix_time_votes db) (ld_unix_time_votes db')"
proof -
  have L: "ln_tpe_pks L \<noteq> []"
    using assms(1) by (simp add: lnv2_good_def lightning_ok_def)
  from assms(2) show ?thesis
  proof cases
    case (step_item item peer)
    from step_item(2) show ?thesis
      by (cases rule: process_item_cases) (simp_all add: step_item(1) votes_le_insert)
  next
    case (step_input input p m)
    from step_input(2) show ?thesis
      by (cases rule: lnv2_input_cases)
        (auto simp: step_input(1) spend_outgoing_eq [OF L] spend_incoming_eq present_remove present_eq)
  next
    case (step_output ot p x)
    from step_output(2) show ?thesis
      by (cases rule: lnv2_output_cases)
        (auto simp: step_output(1) fund_outgoing_eq fund_incoming_eq [OF L] present_insert present_eq)
  qed
qed

lemma lnv2_run_votes:
  "lnv2_run E L db evs db' \<Longrightarrow> lnv2_good E L db \<Longrightarrow>
    votes_le (ld_block_count_votes db) (ld_block_count_votes db') \<and> votes_le (ld_unix_time_votes db) (ld_unix_time_votes db')"
proof (induction rule: lnv2_run.induct)
  case (run_Cons db ev db1 evs db')
  then show ?case
    using lnv2_step_counts [OF run_Cons.prems run_Cons.hyps(1)] lnv2_step_good [OF run_Cons.prems run_Cons.hyps(1)]
    by (blast intro: votes_le_trans)
qed simp

lemma lnv2_run_mono:
  assumes run: "lnv2_run E L db evs db'" and good: "lnv2_good E L db"
  shows "block_count L db \<le> block_count L db' \<and> unix_time L db \<le> unix_time L db'"
proof -
  have t: "1 \<le> threshold (length (ln_tpe_pks L))"
    using good by (intro threshold_bounds(1)) (simp add: lnv2_good_def lightning_ok_def Suc_le_eq)
  have wf: "lnv2_wf E db" "lnv2_wf E db'"
    using good lnv2_run_good [OF run good] by (simp_all add: lnv2_good_def)
  show ?thesis
    unfolding block_count_def unix_time_def using lnv2_run_votes [OF run good] wf
    by (intro conjI order_statistic_mono [OF t]) (simp_all add: lnv2_wf_def)
qed

text \<open>
  C31: the consensus block count and the consensus time never go back, whatever the module
  processes.
\<close>

theorem consensus_time_monotone:
  assumes "lnv2_run E L db evs db'" and "lnv2_good E L db"
  shows "\<exists>n n' t t'. lnv2_consensus_block_count L db = (Ok n :: ('e, u64) result)
    \<and> lnv2_consensus_block_count L db' = (Ok n' :: ('e, u64) result) \<and> n \<le> n'
    \<and> lnv2_consensus_unix_time L db = (Ok t :: ('e, u64) result)
    \<and> lnv2_consensus_unix_time L db' = (Ok t' :: ('e, u64) result) \<and> t \<le> t'"
proof -
  have "ln_tpe_pks L \<noteq> []"
    using assms(2) by (simp add: lnv2_good_def lightning_ok_def)
  then show ?thesis
    using lnv2_run_mono [OF assms] by (simp add: consensus_values)
qed

definition sample_outgoing :: outgoing_contract where
  "sample_outgoing = \<lparr>oc_payment_image = ImageHash [9], oc_amount = 5, oc_expiration = 10,
     oc_claim_pk = [2], oc_refund_pk = [3], oc_ephemeral_pk = [4]\<rparr>"

definition sample_events :: "(rat, rat) lnv2_event list" where
  "sample_events = [EvItem (BlockCountVote 3) 0, EvOutput (LightningOutputV0 (OutputOutgoing sample_outgoing)) ([1], 0),
     EvInput (LightningInputV0 (InputOutgoing ([1], 0) (Claim [9]))) ([2], 0)]"

definition sample_final :: "(rat, rat) lnv2_db" where
  "sample_final = lnv2_db_empty\<lparr>ld_block_count_votes := [(0, 3)], ld_preimages := [(([1], 0), [9])]\<rparr>"

lemma sample_lnv2_run: "lnv2_run sample_lnv2_env sample_lightning lnv2_db_empty sample_events sample_final"
proof -
  let ?s1 = "lnv2_db_empty\<lparr>ld_block_count_votes := [(0, 3)]\<rparr> :: (rat, rat) lnv2_db"
  let ?s2 = "?s1\<lparr>ld_outgoing := [(([1], 0), sample_outgoing)]\<rparr>"
  note defs = sample_lightning_def sample_outgoing_def lnv2_db_empty_def lnv2_fee_zero_def
  have 1: "lnv2_process_consensus_item (lnv2_db_empty :: (rat, rat) lnv2_db) (BlockCountVote 3) 0 = Ok ?s1"
    by (simp add: lnv2_process_consensus_item_def insert_entry_def lnv2_db_empty_def)
  have 2: "\<exists>x. lnv2_process_output sample_lnv2_env sample_lightning ?s1
      (LightningOutputV0 (OutputOutgoing sample_outgoing)) ([1], 0) = Ok (?s2, x)"
    by (simp add: lnv2_process_output_def fund_outgoing_def insert_new_entry_def insert_entry_def lnv2_fee_def
      lnv2_fee_msats_def checked_add_def saturating_mul_def defs)
  have "block_count sample_lightning ?s2 = 0"
    by (simp add: block_count_def slice_get_def defs bt_values_def threshold_def np_total_def max_evil_def usize_sub_def)
  then have w: "witness_ok sample_lnv2_env sample_outgoing (block_count sample_lightning ?s2) (Claim [9])"
    by (simp add: sample_outgoing_def verify_preimage_def consensus_hash_def enc_array_def sample_lnv2_env_def rat_curve_def)
  have "spend_outgoing sample_lnv2_env sample_lightning ?s2 ([1], 0) (Claim [9]) = Ok (sample_final, [2], 5)"
    using w by (subst spend_outgoing_eq) (simp_all add: sample_final_def bt_remove_def defs)
  then have 3: "\<exists>x. lnv2_process_input sample_lnv2_env sample_lightning ?s2
      (LightningInputV0 (InputOutgoing ([1], 0) (Claim [9]))) ([2], 0) = Ok (sample_final, x)"
    by (simp add: lnv2_process_input_def lnv2_fee_def lnv2_fee_msats_def checked_add_def saturating_mul_def
      sample_lightning_def lnv2_fee_zero_def)
  show ?thesis
    unfolding sample_events_def using 1 2 3 by (auto simp: lnv2_step_simps)
qed

theorem consensus_time_monotone_witness:
  "\<exists>n n'. lnv2_consensus_block_count sample_lightning (lnv2_db_empty :: (rat, rat) lnv2_db) = (Ok n :: (unit, u64) result)
    \<and> lnv2_consensus_block_count sample_lightning sample_final = (Ok n' :: (unit, u64) result) \<and> n \<le> n'"
  using consensus_time_monotone [OF sample_lnv2_run sample_good, where 'e = unit] by blast

text \<open>
  C32: a contract is settled at most once per funding. Over any run of the module, the inputs
  accepted for an outpoint, together with a contract that is still there in the end, are as many as
  the outputs accepted for it together with a contract that was there in the beginning. This holds
  for outgoing and for incoming contracts.
\<close>

theorem contracts_settled_once:
  assumes "lnv2_run E L db evs db'" and "lnv2_good E L db"
  shows "length (filter (settles q) evs) + present q (ld_outgoing db')
      = present q (ld_outgoing db) + length (filter (funds q) evs)
    \<and> length (filter (settles_incoming q) evs) + present q (ld_incoming db')
      = present q (ld_incoming db) + length (filter (funds_incoming q) evs)"
  using assms
proof (induction rule: lnv2_run.induct)
  case (run_Cons db ev db1 evs db')
  show ?case
    using run_Cons.IH [OF lnv2_step_good [OF run_Cons.prems run_Cons.hyps(1)]]
      lnv2_step_counts [OF run_Cons.prems run_Cons.hyps(1), of q]
    unfolding length_filter_Cons by linarith
qed simp

theorem contracts_settled_once_witness:
  "length (filter (settles ([1], 0)) sample_events) + present ([1], 0) (ld_outgoing sample_final)
      = present ([1], 0) (ld_outgoing (lnv2_db_empty :: (rat, rat) lnv2_db)) + length (filter (funds ([1], 0)) sample_events)"
  using contracts_settled_once [OF sample_lnv2_run sample_good] by blast

subsection \<open>Incoming contracts\<close>

lemma incoming_new_simps [simp]:
  "ic_commitment (incoming_contract_new E pk seed pre img a e ck rk ek) = \<lparr>cm_payment_image = img, cm_amount = a,
     cm_expiration_or_fee = e, cm_claim_pk = ck, cm_refund_pk = rk, cm_ephemeral_pk = ek\<rparr>"
  "ic_ciphertext (incoming_contract_new E pk seed pre img a e ck rk ek) = encrypt_preimage (le_curve E) pk seed pre
     (commitment_hash E \<lparr>cm_payment_image = img, cm_amount = a, cm_expiration_or_fee = e, cm_claim_pk = ck,
        cm_refund_pk = rk, cm_ephemeral_pk = ek\<rparr>)"
  by (simp_all add: incoming_contract_new_def Let_def)

text \<open>The one decryption key of a new contract, and what it gives.\<close>

lemma incoming_new_key:
  assumes C: "curve_ok (le_curve E)" "pairing_ok (le_curve E)" and pk: "agg_pk = tpe_derive_pk_share (le_curve E) sk"
    and pre: "length pre = 32" and c: "c = incoming_contract_new E agg_pk seed pre img a e ck rk ek"
  shows "verify_agg_decryption_key E c agg_pk dk = (Ok (dk = derive_agg_dk (le_curve E) agg_pk seed) :: ('e, bool) result)"
    and "incoming_key E c (derive_agg_dk (le_curve E) agg_pk seed) = (if verify_preimage E img pre then ck else rk)"
proof -
  have "verify_ciphertext (le_curve E) (ic_ciphertext c) (commitment_hash E (ic_commitment c))"
    unfolding c incoming_new_simps by (rule verify_ciphertext_encrypt [OF C(1)])
  from verify_agg_dk_iff [OF C this, of sk dk]
  show "verify_agg_decryption_key E c agg_pk dk = (Ok (dk = derive_agg_dk (le_curve E) agg_pk seed) :: ('e, bool) result)"
    unfolding verify_agg_decryption_key_def pk c incoming_new_simps encrypt_key [OF C(1)] .
  show "incoming_key E c (derive_agg_dk (le_curve E) agg_pk seed) = (if verify_preimage E img pre then ck else rk)"
    by (simp add: incoming_key_def incoming_decrypt_preimage_def c decrypt_encrypt [OF pre] Let_def)
qed

text \<open>
  C33: an incoming contract pays the side that the encrypted preimage designates. For a contract made
  by \<open>IncomingContract::new\<close> for the key of the federation and funded, there is a decryption key
  with which its input is accepted. Any input that is accepted for it, whatever key it brings, pays
  the amount of the contract to the claim key when the preimage matches the payment image and to the
  refund key otherwise.
\<close>

theorem incoming_contract_pays:
  assumes C: "curve_ok (le_curve E)" "pairing_ok (le_curve E)"
    and pk: "ln_tpe_agg_pk L = tpe_derive_pk_share (le_curve E) sk"
    and pre: "length pre = 32"
    and c: "c = incoming_contract_new E (ln_tpe_agg_pk L) seed pre img a e ck rk ek"
    and good: "lnv2_good E L db" and funded: "bt_get (ld_incoming db) q = Some c"
  shows "(\<exists>dk db' m. lnv2_process_input E L db (LightningInputV0 (InputIncoming q dk)) p = Ok (db', m))
    \<and> (\<forall>dk db' m. lnv2_process_input E L db (LightningInputV0 (InputIncoming q dk)) p = Ok (db', m) \<longrightarrow>
        im_pub_key m = (if verify_preimage E img pre then ck else rk) \<and> ti_amounts (im_amount m) = new_bitcoin a)"
proof -
  note key = incoming_new_key [OF C pk pre c]
  have amount: "cm_amount (ic_commitment c) = a"
    by (simp add: c)
  obtain i where i: "bt_get (ld_index db) q = Some i"
    using good funded by (force simp: lnv2_good_def lnv2_wf_def)
  obtain fee where fee: "lnv2_fee (ln_fee_consensus L) a = (Ok fee :: (lightning_input_error, amount) result)"
    using good lnv2_fee_ok_fee by (fastforce simp: lnv2_good_def lightning_ok_def)
  have spend: "spend_incoming E L db q dk = Ok (db', k, x) \<longleftrightarrow>
      dk = derive_agg_dk (le_curve E) (ln_tpe_agg_pk L) seed \<and> k = (if verify_preimage E img pre then ck else rk) \<and> x = a
      \<and> db' = db\<lparr>ld_incoming := bt_remove q (ld_incoming db), ld_index := bt_remove q (ld_index db),
          ld_stream := bt_remove i (ld_stream db)\<rparr>" for dk db' k x
    using key(2) by (auto simp: spend_incoming_eq funded i key(1) amount)
  then obtain db1 where "spend_incoming E L db q (derive_agg_dk (le_curve E) (ln_tpe_agg_pk L) seed)
      = Ok (db1, if verify_preimage E img pre then ck else rk, a)"
    by blast
  then have "\<exists>db' m. lnv2_process_input E L db
      (LightningInputV0 (InputIncoming q (derive_agg_dk (le_curve E) (ln_tpe_agg_pk L) seed))) p = Ok (db', m)"
    by (simp add: lnv2_process_input_def fee)
  then show ?thesis
    by (auto simp: lnv2_process_input_def spend)
qed

definition sample_new :: "(rat, rat) incoming_contract" where
  "sample_new = incoming_contract_new sample_lnv2_env 1 [1] (replicate 32 9) (ImageHash (replicate 32 9)) 5 10 [2] [3] [4]"

definition sample_funded :: "(rat, rat) lnv2_db" where
  "sample_funded = lnv2_db_empty\<lparr>ld_incoming := [(([1], 0), sample_new)], ld_index := [(([1], 0), 0)],
     ld_stream := [(0, sample_new)], ld_stream_index := Some 1\<rparr>"

theorem incoming_contract_pays_witness:
  "\<exists>dk db' m. lnv2_process_input sample_lnv2_env sample_lightning sample_funded
      (LightningInputV0 (InputIncoming ([1], 0) dk)) ([5], 0) = Ok (db', m) \<and> im_pub_key m = [2]"
proof -
  have C: "curve_ok (le_curve sample_lnv2_env)" "pairing_ok (le_curve sample_lnv2_env)"
    by (simp_all add: sample_lnv2_env_def rat_curve_ok rat_pairing_ok)
  have pk: "ln_tpe_agg_pk sample_lightning = tpe_derive_pk_share (le_curve sample_lnv2_env) 1"
    by (simp add: sample_lightning_def tpe_derive_pk_share_def sample_lnv2_env_def rat_curve_def)
  have c: "sample_new = incoming_contract_new sample_lnv2_env (ln_tpe_agg_pk sample_lightning) [1] (replicate 32 9)
      (ImageHash (replicate 32 9)) 5 10 [2] [3] [4]"
    by (simp add: sample_new_def sample_lightning_def)
  have "incoming_verify sample_lnv2_env sample_new"
    unfolding incoming_verify_def sample_new_def incoming_new_simps by (rule verify_ciphertext_encrypt [OF C(1)])
  then have good: "lnv2_good sample_lnv2_env sample_lightning sample_funded"
    using sample_good
    by (auto simp: lnv2_good_def lnv2_wf_def sample_funded_def lnv2_db_empty_def bt_wf_def split: if_splits)
  have "verify_preimage sample_lnv2_env (ImageHash (replicate 32 9)) (replicate 32 9)"
    by (simp add: verify_preimage_def consensus_hash_def enc_array_def sample_lnv2_env_def rat_curve_def)
  then show ?thesis
    using incoming_contract_pays [OF C pk _ c good, of "([1], 0)" "([5], 0)"]
    by (simp add: sample_funded_def) blast
qed

lemma audit_total_negated:
  assumes "\<forall>(q, c)\<in>set t. unat (f c) < 2 ^ 63"
  shows "(\<Sum>(q, c)\<leftarrow>t. sint (- f c :: i64)) = - bt.total (\<lambda>q c. int (unat (f c))) t"
proof -
  have neg: "sint (- a :: i64) = - int (unat a)" if "unat a < 2 ^ 63" for a :: u64
    using sint_minus_of_nat_small [OF that] by simp
  show ?thesis
    using assms unfolding bt.total_def by (induction t) (auto simp: neg)
qed

text \<open>
  As long as no contract is worth \<open>2^63\<close> millisatoshis or more, an audit of the lightning module
  adds items worth exactly its balance to the sheet.
\<close>

lemma lnv2_audit_reports_balance:
  assumes "\<forall>(q, c)\<in>set (ld_outgoing db). unat (oc_amount c) < 2 ^ 63"
    and "\<forall>(q, c)\<in>set (ld_incoming db). unat (cm_amount (ic_commitment c)) < 2 ^ 63"
    and "lnv2_audit db items mid = (db', items')"
  shows "net items' = net items + lnv2_balance db \<and> db' = db"
proof -
  have out: "(\<Sum>(q, c)\<leftarrow>ld_outgoing db. sint (- oc_amount c :: i64)) = - bt.total outgoing_value (ld_outgoing db)"
    by (rule audit_total_negated [OF assms(1)])
  have inc: "(\<Sum>(q, c)\<leftarrow>ld_incoming db. sint (- cm_amount (ic_commitment c) :: i64)) = - bt.total incoming_value (ld_incoming db)"
    by (rule audit_total_negated [OF assms(2)])
  have "db' = db" "items' = add_items (ld_incoming db) mid (\<lambda>_ c. - cm_amount (ic_commitment c))
      (add_items (ld_outgoing db) mid (\<lambda>_ c. - oc_amount c) items)"
    using assms(3) by (auto simp: lnv2_audit_def)
  then show ?thesis
    by (simp only: net_add_items out inc lnv2_balance_def) simp
qed

end
