(* ===== verification/Lnv2_Waiting.thy ===== *)
theory Lnv2_Waiting
  imports Lnv2_Laws
begin

section \<open>Waiting on the lightning module\<close>

text \<open>
  The endpoint of \<open>Lnv2_Server\<close> that polls for a preimage returns once there is an answer, and
  its answer \<open>None\<close> is final.
\<close>

subsection \<open>Waiting for a preimage\<close>

text \<open>A database that processes events while an endpoint polls it.\<close>

definition evolves ::
  "('s, 'g1, 'g2, 'gt) lnv2_env \<Rightarrow> ('s, 'g1) lightning \<Rightarrow> (nat \<Rightarrow> ('g1, 'g2) lnv2_db) \<Rightarrow> (nat \<Rightarrow> ('g1, 'g2) lnv2_event list) \<Rightarrow> bool" where
  "evolves E L snaps evs \<longleftrightarrow> lnv2_good E L (snaps 0) \<and> (\<forall>i. lnv2_run E L (snaps i) (evs i) (snaps (Suc i)))"

lemma evolves_good: "evolves E L snaps evs \<Longrightarrow> lnv2_good E L (snaps i)"
  unfolding evolves_def by (induction i) (auto intro: lnv2_run_good)

lemma lightning_of_good: "lnv2_good E L db \<Longrightarrow> ln_tpe_pks L \<noteq> []"
  by (simp add: lnv2_good_def lightning_ok_def)

text \<open>Once the contract at \<open>q\<close> has expired unclaimed, its preimage stays unknown.\<close>

definition expired_unclaimed :: "('s, 'g1) lightning \<Rightarrow> out_point \<Rightarrow> u64 \<Rightarrow> ('g1, 'g2) lnv2_db \<Rightarrow> bool" where
  "expired_unclaimed L q expiration db \<longleftrightarrow> bt_get (ld_preimages db) q = None \<and> expiration \<le> block_count L db
     \<and> (\<forall>c. bt_get (ld_outgoing db) q = Some c \<longrightarrow> oc_expiration c = expiration)"

lemma expired_unclaimed_step:
  assumes good: "lnv2_good E L db" and step: "lnv2_step E L db ev db'" and ev: "\<not> funds q ev"
    and exp: "expired_unclaimed L q expiration db"
  shows "expired_unclaimed L q expiration db'"
proof -
  note L = lightning_of_good [OF good]
  have "lnv2_run E L db [ev] db'"
    using step by simp
  then have "block_count L db \<le> block_count L db'"
    using lnv2_run_mono good by blast
  then have count: "expiration \<le> block_count L db'"
    using exp by (auto simp: expired_unclaimed_def)
  from step show ?thesis
  proof cases
    case (step_item item peer)
    from step_item(2) show ?thesis
      using exp count by (cases rule: process_item_cases) (simp_all add: expired_unclaimed_def)
  next
    case (step_input input p m)
    from step_input(2) show ?thesis
    proof (cases rule: lnv2_input_cases)
      case (1 q' w pk a fee)
      then obtain c where c: "bt_get (ld_outgoing db) q' = Some c" "witness_ok E c (block_count L db) w"
        "db' = db\<lparr>ld_outgoing := bt_remove q' (ld_outgoing db), ld_preimages := witness_preimages q' w (ld_preimages db)\<rparr>"
        by (auto simp: spend_outgoing_eq [OF L])
      have "q' \<noteq> q" if "w = Claim pre" for pre
        using c(1,2) exp that unfolding expired_unclaimed_def by auto
      then show ?thesis
        using exp count unfolding expired_unclaimed_def c(3)
        by (cases w) (auto simp: map_of_bt_insert map_of_bt_remove split: if_splits)
    next
      case (2 q' dk pk a fee)
      then show ?thesis
        using exp count by (auto simp: spend_incoming_eq expired_unclaimed_def)
    qed
  next
    case (step_output ot p x)
    from step_output(2) show ?thesis
      using exp count ev
      by (cases rule: lnv2_output_cases)
        (auto simp: step_output(1) fund_outgoing_eq fund_incoming_eq [OF L] expired_unclaimed_def map_of_bt_insert)
  qed
qed

lemma expired_unclaimed_run:
  "lnv2_run E L db evs db' \<Longrightarrow> lnv2_good E L db \<Longrightarrow> \<forall>ev\<in>set evs. \<not> funds q ev \<Longrightarrow> expired_unclaimed L q e db
    \<Longrightarrow> expired_unclaimed L q e db'"
proof (induction rule: lnv2_run.induct)
  case (run_Cons db ev db1 evs db')
  then show ?case
    using expired_unclaimed_step [OF run_Cons.prems(1) run_Cons.hyps(1)] lnv2_step_good [OF run_Cons.prems(1) run_Cons.hyps(1)]
    by simp
qed

text \<open>Before it expires unclaimed, a contract keeps its expiration or is gone.\<close>

lemma outgoing_kept_step:
  assumes good: "lnv2_good E L db" and step: "lnv2_step E L db ev db'" and ev: "\<not> funds q ev"
  shows "bt_get (ld_outgoing db') q = Some c \<Longrightarrow> bt_get (ld_outgoing db) q = Some c"
proof -
  note L = lightning_of_good [OF good]
  assume c: "bt_get (ld_outgoing db') q = Some c"
  from step show "bt_get (ld_outgoing db) q = Some c"
  proof cases
    case (step_item item peer)
    from step_item(2) show ?thesis
      using c by (cases rule: process_item_cases) simp_all
  next
    case (step_input input p m)
    from step_input(2) show ?thesis
      using c by (cases rule: lnv2_input_cases)
        (auto simp: spend_outgoing_eq [OF L] spend_incoming_eq map_of_bt_remove split: if_splits)
  next
    case (step_output ot p x)
    from step_output(2) show ?thesis
      using c ev by (cases rule: lnv2_output_cases)
        (auto simp: step_output(1) fund_outgoing_eq fund_incoming_eq [OF L] map_of_bt_insert)
  qed
qed

lemma outgoing_kept_run:
  "lnv2_run E L db evs db' \<Longrightarrow> lnv2_good E L db \<Longrightarrow> \<forall>ev\<in>set evs. \<not> funds q ev \<Longrightarrow>
    bt_get (ld_outgoing db') q = Some c \<Longrightarrow> bt_get (ld_outgoing db) q = Some c"
proof (induction rule: lnv2_run.induct)
  case (run_Cons db ev db1 evs db')
  then show ?case
    using outgoing_kept_step [OF run_Cons.prems(1) run_Cons.hyps(1)] lnv2_step_good [OF run_Cons.prems(1) run_Cons.hyps(1)]
    by simp
qed

lemma await_preimage_step:
  assumes "ln_tpe_pks L \<noteq> []"
  shows "await_preimage L snaps q e i =
    (case bt_get (ld_preimages (snaps i)) q of
       Some preimage \<Rightarrow> Some (Ok (Some preimage))
     | None \<Rightarrow> if e \<le> block_count L (snaps i) then Some (Ok None) else await_preimage L snaps q e (Suc i))"
  by (subst await_preimage.simps) (simp add: consensus_values [OF assms] split: option.split)

lemma await_preimage_returns_at:
  assumes "ln_tpe_pks L \<noteq> []"
    and "bt_get (ld_preimages (snaps (i + k))) q \<noteq> None \<or> e \<le> block_count L (snaps (i + k))"
  shows "\<exists>r. await_preimage L snaps q e i = Some (Ok r)"
  using assms(2)
proof (induction k arbitrary: i)
  case 0
  then show ?case
    by (subst await_preimage_step [OF assms(1)]) (auto split: option.split)
next
  case (Suc k)
  then show ?case
    by (subst await_preimage_step [OF assms(1)]) (auto split: option.split)
qed

lemma await_preimage_None:
  fixes L :: "('s, 'g1) lightning" and snaps :: "nat \<Rightarrow> ('g1, 'g2) lnv2_db"
  assumes "ln_tpe_pks L \<noteq> []" and "await_preimage L snaps q e i = Some (Ok None)"
  shows "\<exists>j\<ge>i. bt_get (ld_preimages (snaps j)) q = None \<and> e \<le> block_count L (snaps j)"
proof -
  define P where "P L' snaps' q' e' i' r \<longleftrightarrow> (ln_tpe_pks L' \<noteq> [] \<longrightarrow> r = Ok None \<longrightarrow>
      (\<exists>j\<ge>i'. bt_get (ld_preimages (snaps' j)) q' = None \<and> e' \<le> block_count L' (snaps' j)))"
    for L' :: "('s, 'g1) lightning" and snaps' :: "nat \<Rightarrow> ('g1, 'g2) lnv2_db" and q' e' i' and r :: "(string, bytes option) result"
  have "P L snaps q e i (Ok None)"
  proof (rule await_preimage.raw_induct [OF _ assms(2)])
    fix f L' snaps' q' e' i' r
    assume IH: "\<And>L' snaps' q' e' i' r. f L' snaps' q' e' i' = Some r \<Longrightarrow> P L' snaps' q' e' i' r"
      and body: "(case bt_get (ld_preimages (snaps' i')) q' of
        None \<Rightarrow> (case lnv2_consensus_block_count L' (snaps' i') of
            Ok count \<Rightarrow> if e' \<le> count then Some (Ok None) else f L' snaps' q' e' (Suc i')
          | Err e \<Rightarrow> Some (Err e) | Panic \<Rightarrow> Some Panic)
        | Some preimage \<Rightarrow> Some (Ok (Some preimage))) = Some r"
    show "P L' snaps' q' e' i' r"
      unfolding P_def
    proof (intro impI)
      assume L: "ln_tpe_pks L' \<noteq> []" and r: "r = Ok None"
      then have none: "bt_get (ld_preimages (snaps' i')) q' = None"
        using body by (auto split: option.splits)
      show "\<exists>j\<ge>i'. bt_get (ld_preimages (snaps' j)) q' = None \<and> e' \<le> block_count L' (snaps' j)"
      proof (cases "e' \<le> block_count L' (snaps' i')")
        case False
        then have "P L' snaps' q' e' (Suc i') r"
          using body none by (intro IH) (simp add: consensus_values [OF L])
        then show ?thesis
          using L r unfolding P_def by (blast dest: Suc_leD)
      qed (use none in blast)
    qed
  qed
  then show ?thesis
    using assms(1) by (simp add: P_def)
qed

text \<open>
  C34: waiting for a preimage ends. When the preimage is published at some time, or the consensus
  block count reaches the expiration, the endpoint returns without a panic.
\<close>

theorem await_preimage_returns:
  assumes "evolves E L snaps evs"
    and "\<exists>j\<ge>i. bt_get (ld_preimages (snaps j)) q \<noteq> None
      \<or> (\<exists>n. lnv2_consensus_block_count L (snaps j) = (Ok n :: (string, u64) result) \<and> expiration \<le> n)"
  shows "\<exists>r. await_preimage L snaps q expiration i = Some (Ok r)"
proof -
  note L = lightning_of_good [OF evolves_good [OF assms(1)]]
  from assms(2) obtain j where "i \<le> j"
    and "bt_get (ld_preimages (snaps j)) q \<noteq> None \<or> expiration \<le> block_count L (snaps j)"
    by (auto simp: consensus_values [OF L])
  then show ?thesis
    using await_preimage_returns_at [OF L, of snaps i "j - i" q expiration] by simp
qed

text \<open>
  C35: the answer that there will be no preimage is final. When \<open>await_preimage\<close> is called with
  the expiration of the contract and returns \<open>None\<close>, then from some time on the preimage is
  missing and stays so, whatever the module processes, as long as the outpoint is not funded anew:
  the sender can safely be refunded.
\<close>

theorem await_preimage_timeout_final:
  assumes evo: "evolves E L snaps evs"
    and once: "\<forall>i. \<forall>ev\<in>set (evs i). \<not> funds q ev"
    and contract: "bt_get (ld_outgoing (snaps 0)) q = Some c"
    and wait: "await_preimage L snaps q (oc_expiration c) i = Some (Ok None)"
  shows "\<exists>j\<ge>i. \<forall>k\<ge>j. bt_get (ld_preimages (snaps k)) q = None"
proof -
  have run: "lnv2_run E L (snaps n) (evs n) (snaps (Suc n))" and good: "lnv2_good E L (snaps n)" for n
    using evo evolves_good [OF evo] by (auto simp: evolves_def)
  obtain j where j: "i \<le> j" "bt_get (ld_preimages (snaps j)) q = None" "oc_expiration c \<le> block_count L (snaps j)"
    using await_preimage_None [OF lightning_of_good [OF good] wait] by blast
  have "bt_get (ld_outgoing (snaps n)) q = Some d \<Longrightarrow> d = c" for n d
  proof (induction n)
    case 0
    then show ?case using contract by simp
  next
    case (Suc n)
    then show ?case
      using outgoing_kept_run [OF run good spec [OF once]] by blast
  qed
  then have start: "expired_unclaimed L q (oc_expiration c) (snaps j)"
    using j by (auto simp: expired_unclaimed_def)
  have "expired_unclaimed L q (oc_expiration c) (snaps k)" if "j \<le> k" for k
    using that
  proof (induction rule: dec_induct)
    case base
    then show ?case by (rule start)
  next
    case (step n)
    then show ?case
      using expired_unclaimed_run [OF run good spec [OF once]] by blast
  qed
  then show ?thesis
    using j(1) by (auto simp: expired_unclaimed_def)
qed

definition sample_expired :: "(rat, rat) lnv2_db" where
  "sample_expired = lnv2_db_empty\<lparr>ld_block_count_votes := [(0, 12), (1, 11), (3, 10)],
     ld_outgoing := [(([1], 0), sample_outgoing)]\<rparr>"

lemma sample_evolves: "evolves sample_lnv2_env sample_lightning (\<lambda>_. sample_expired) (\<lambda>_. [])"
  by (simp add: evolves_def lnv2_good_def lightning_ok_def lnv2_wf_def sample_expired_def lnv2_db_empty_def
    sample_lightning_def lnv2_fee_ok_def bt_wf_def)

lemma sample_expired_count: "lnv2_consensus_block_count sample_lightning sample_expired = Ok 10"
  by (simp add: lnv2_consensus_block_count_def sample_lightning_def sample_expired_def bt_values_def threshold_def
    np_total_def max_evil_def usize_sub_def slice_get_def Let_def)

lemma sample_no_preimage: "bt_get (ld_preimages sample_expired) q = None"
  by (simp add: sample_expired_def lnv2_db_empty_def)

theorem await_preimage_returns_witness:
  "\<exists>r. await_preimage sample_lightning (\<lambda>_. sample_expired) ([1], 0) 10 0 = Some (Ok r)"
  by (rule await_preimage_returns [OF sample_evolves]) (auto simp: sample_expired_count)

theorem await_preimage_timeout_final_witness:
  "\<exists>j\<ge>0 :: nat. \<forall>k\<ge>j. bt_get (ld_preimages sample_expired) ([1], 0) = None"
proof (rule await_preimage_timeout_final [OF sample_evolves])
  show "bt_get (ld_outgoing sample_expired) ([1], 0) = Some sample_outgoing"
    by (simp add: sample_expired_def)
  show "await_preimage sample_lightning (\<lambda>_. sample_expired) ([1], 0) (oc_expiration sample_outgoing) 0 = Some (Ok None)"
    by (subst await_preimage.simps)
      (simp add: sample_expired_count sample_outgoing_def sample_no_preimage)
qed simp

end
