(* ===== verification/Lnv2_Stream.thy ===== *)
theory Lnv2_Stream
  imports Lnv2_Laws
begin

section \<open>The stream of incoming contracts\<close>

text \<open>
  Incoming contracts are numbered in the order in which they are funded, and clients read them by
  number. The lemmas show that the three tables involved agree, that reading page by page misses no
  contract, and that the migration rebuilds the tables that processing the same history leaves.
\<close>

abbreviation next_index :: "('g1, 'g2) lnv2_db \<Rightarrow> u64" where
  "next_index db \<equiv> unwrap_or 0 (ld_stream_index db)"

definition stream_ok :: "('g1, 'g2) lnv2_db \<Rightarrow> bool" where
  "stream_ok db \<longleftrightarrow>
     (\<forall>q i. bt_get (ld_index db) q = Some i \<longrightarrow> i < next_index db \<and> bt_get (ld_stream db) i = bt_get (ld_incoming db) q)
     \<and> (\<forall>q q' i. bt_get (ld_index db) q = Some i \<longrightarrow> bt_get (ld_index db) q' = Some i \<longrightarrow> q = q')
     \<and> (\<forall>i c. bt_get (ld_stream db) i = Some c \<longrightarrow> (\<exists>q. bt_get (ld_index db) q = Some i))"

lemma stream_okD:
  assumes "stream_ok db"
  shows "bt_get (ld_index db) q = Some i \<Longrightarrow> i < next_index db"
    and "bt_get (ld_index db) q = Some i \<Longrightarrow> bt_get (ld_stream db) i = bt_get (ld_incoming db) q"
    and "bt_get (ld_index db) q = Some i \<Longrightarrow> bt_get (ld_index db) q' = Some i \<Longrightarrow> q = q'"
    and "bt_get (ld_stream db) i = Some c \<Longrightarrow> \<exists>q. bt_get (ld_index db) q = Some i"
  using assms unfolding stream_ok_def by blast+

definition is_incoming_output :: "('g1, 'g2) lnv2_event \<Rightarrow> bool" where
  "is_incoming_output ev \<longleftrightarrow> (\<exists>q. funds_incoming q ev)"

lemma stream_ok_insert:
  assumes ok: "stream_ok db" and q: "bt_get (ld_index db) q = None"
    and room: "unat (next_index db) + 1 < 2 ^ 64"
    and db': "ld_incoming db' = bt_insert q c (ld_incoming db)" "ld_index db' = bt_insert q (next_index db) (ld_index db)"
      "ld_stream db' = bt_insert (next_index db) c (ld_stream db)" "ld_stream_index db' = Some (next_index db + 1)"
  shows "stream_ok db' \<and> unat (next_index db') = unat (next_index db) + 1"
proof -
  have n: "unat (next_index db + 1) = unat (next_index db) + 1"
    using room by (subst unat_plus_small) simp_all
  then have lt: "next_index db < next_index db + 1"
    by (simp only: word_less_nat_alt)
  have fresh: "i \<noteq> next_index db" "i < next_index db + 1" if "bt_get (ld_index db) q' = Some i" for q' i
    using stream_okD(1) [OF ok that] lt by (auto intro: less_trans)
  have "stream_ok db'"
    unfolding stream_ok_def db' map_of_bt_insert
  proof (intro conjI allI impI)
    fix q1 i
    assume a: "((bt_get (ld_index db))(q \<mapsto> next_index db)) q1 = Some i"
    show "i < unwrap_or 0 (Some (next_index db + 1))"
      using a lt fresh by (auto split: if_splits)
    show "((bt_get (ld_stream db))(next_index db \<mapsto> c)) i = ((bt_get (ld_incoming db))(q \<mapsto> c)) q1"
      using a fresh stream_okD(2) [OF ok, of q1 i] by (auto split: if_splits)
  next
    fix q1 q2 i
    assume "((bt_get (ld_index db))(q \<mapsto> next_index db)) q1 = Some i"
      "((bt_get (ld_index db))(q \<mapsto> next_index db)) q2 = Some i"
    then show "q1 = q2"
      using fresh(1) [of q1 i] fresh(1) [of q2 i] stream_okD(3) [OF ok, of q1 i q2] by (auto split: if_splits)
  next
    fix i d
    assume a: "((bt_get (ld_stream db))(next_index db \<mapsto> c)) i = Some d"
    show "\<exists>q'. ((bt_get (ld_index db))(q \<mapsto> next_index db)) q' = Some i"
    proof (cases "i = next_index db")
      case True
      then show ?thesis
        by (intro exI [of _ q]) simp
    next
      case False
      then obtain q' where "bt_get (ld_index db) q' = Some i"
        using stream_okD(4) [OF ok, of i d] a by auto
      then show ?thesis
        using q by (intro exI [of _ q']) auto
    qed
  qed
  then show ?thesis
    using n by (simp add: db'(4))
qed

lemma stream_ok_remove:
  assumes ok: "stream_ok db" and q: "bt_get (ld_index db) q = Some i"
    and db': "ld_incoming db' = bt_remove q (ld_incoming db)" "ld_index db' = bt_remove q (ld_index db)"
      "ld_stream db' = bt_remove i (ld_stream db)" "ld_stream_index db' = ld_stream_index db"
  shows "stream_ok db'"
  unfolding stream_ok_def db' map_of_bt_remove
proof (intro conjI allI impI)
  fix q1 i1
  assume "((bt_get (ld_index db))(q := None)) q1 = Some i1"
  then have a: "q1 \<noteq> q" "bt_get (ld_index db) q1 = Some i1"
    by (auto split: if_splits)
  show "i1 < next_index db"
    using stream_okD(1) [OF ok a(2)] .
  show "((bt_get (ld_stream db))(i := None)) i1 = ((bt_get (ld_incoming db))(q := None)) q1"
    using a stream_okD(2) [OF ok a(2)] stream_okD(3) [OF ok q, of q1] by auto
next
  fix q1 q2 i1
  assume "((bt_get (ld_index db))(q := None)) q1 = Some i1" "((bt_get (ld_index db))(q := None)) q2 = Some i1"
  then show "q1 = q2"
    using stream_okD(3) [OF ok, of q1 i1 q2] by (simp split: if_splits)
next
  fix i1 d
  assume "((bt_get (ld_stream db))(i := None)) i1 = Some d"
  then obtain q' where "i1 \<noteq> i" "bt_get (ld_index db) q' = Some i1"
    using stream_okD(4) [OF ok, of i1 d] by (auto split: if_splits)
  then show "\<exists>q'. ((bt_get (ld_index db))(q := None)) q' = Some i1"
    using q by (intro exI [of _ q']) auto
qed

lemma stream_ok_upd [simp]:
  "stream_ok (db\<lparr>ld_block_count_votes := votes\<rparr>) = stream_ok db"
  "stream_ok (db\<lparr>ld_unix_time_votes := votes\<rparr>) = stream_ok db"
  "stream_ok (db\<lparr>ld_outgoing := outgoing\<rparr>) = stream_ok db"
  "stream_ok (db\<lparr>ld_preimages := preimages\<rparr>) = stream_ok db"
  by (simp_all add: stream_ok_def)

lemma stream_ok_step:
  assumes good: "lnv2_good E L db" and ok: "stream_ok db" and step: "lnv2_step E L db ev db'"
    and room: "unat (next_index db) + of_bool (is_incoming_output ev) < 2 ^ 64"
  shows "stream_ok db' \<and> unat (next_index db') = unat (next_index db) + of_bool (is_incoming_output ev)"
proof -
  have L: "ln_tpe_pks L \<noteq> []" and wf: "lnv2_wf E db"
    using good by (simp_all add: lnv2_good_def lightning_ok_def)
  from step show ?thesis
  proof cases
    case (step_item item peer)
    from step_item(2) show ?thesis
      by (cases rule: process_item_cases) (simp_all add: step_item(1) is_incoming_output_def ok)
  next
    case (step_input input p m)
    from step_input(2) show ?thesis
    proof (cases rule: lnv2_input_cases)
      case (1 q w pk a fee)
      then show ?thesis
        by (auto simp: step_input(1) is_incoming_output_def spend_outgoing_eq [OF L] ok)
    next
      case (2 q dk pk a fee)
      then obtain i where i: "bt_get (ld_index db) q = Some i"
        "db' = db\<lparr>ld_incoming := bt_remove q (ld_incoming db), ld_index := bt_remove q (ld_index db),
          ld_stream := bt_remove i (ld_stream db)\<rparr>"
        by (auto simp: spend_incoming_eq)
      then show ?thesis
        using stream_ok_remove [OF ok i(1), of db'] by (simp add: step_input(1) is_incoming_output_def)
    qed
  next
    case (step_output ot q x)
    from step_output(2) show ?thesis
    proof (cases rule: lnv2_output_cases)
      case (1 c a fee)
      then show ?thesis
        by (auto simp: step_output(1) is_incoming_output_def fund_outgoing_eq ok)
    next
      case (2 c a fee)
      note c = 2(2) [unfolded fund_incoming_eq [OF L]]
      have "q \<notin> dom (bt_get (ld_index db))"
        using wf c by (cases q) (auto simp: lnv2_wf_def)
      then have "bt_get (ld_index db) q = None"
        by (cases q) auto
      moreover have "is_incoming_output ev"
        by (simp add: step_output(1) 2(1) is_incoming_output_def)
      ultimately show ?thesis
        using stream_ok_insert [OF ok _ _, of q db' c] room c by simp
    qed
  qed
qed

text \<open>The invariant holds along every run that does not exhaust the numbers.\<close>

lemma stream_ok_run:
  "lnv2_run E L db evs db' \<Longrightarrow> lnv2_good E L db \<Longrightarrow> stream_ok db \<Longrightarrow>
    unat (next_index db) + length (filter is_incoming_output evs) < 2 ^ 64 \<Longrightarrow>
    stream_ok db' \<and> unat (next_index db') = unat (next_index db) + length (filter is_incoming_output evs)"
proof (induction rule: lnv2_run.induct)
  case (run_Cons db ev db1 evs db')
  note len = length_filter_Cons [of is_incoming_output ev evs]
  have "stream_ok db1 \<and> unat (next_index db1) = unat (next_index db) + of_bool (is_incoming_output ev)"
    using run_Cons.prems len by (intro stream_ok_step [OF _ _ run_Cons.hyps(1)]) auto
  then show ?case
    using run_Cons.IH lnv2_step_good [OF run_Cons.prems(1) run_Cons.hyps(1)] run_Cons.prems(3) len by simp
qed simp

subsection \<open>Reading page by page\<close>

lemma page_fold:
  "fold (\<lambda>(key, contract) (contracts, _). (contracts @ [contract], key + 1)) ys (cs, n)
    = (cs @ map snd ys, if ys = [] then n else fst (last ys) + 1)"
  by (induction ys arbitrary: cs n) (auto split: prod.splits)

lemma filter_upto_last:
  assumes "bt_wf xs" and "take n xs \<noteq> []"
  shows "filter (\<lambda>e. fst e \<le> fst (last (take n xs))) xs = take n xs"
proof -
  have "bt_wf (take n xs @ drop n xs)"
    using assms(1) by simp
  note wf = this [unfolded bt_wf_append]
  then have "filter (\<lambda>e. fst e \<le> fst (last (take n xs))) (take n xs) = take n xs"
    by (simp add: bt_wf_last)
  moreover have "filter (\<lambda>e. fst e \<le> fst (last (take n xs))) (drop n xs) = []"
    using wf last_in_set [OF assms(2)] by (auto simp: filter_empty_conv not_le)
  ultimately show ?thesis
    by (metis append_Nil2 append_take_drop_id filter_append)
qed

text \<open>The numbers of the stream are those of the unspent contracts.\<close>

lemma stream_entry_iff:
  assumes ok: "stream_ok db"
  shows "(\<exists>k. bt_get (ld_stream db) k = Some c \<and> P k) \<longleftrightarrow>
    (\<exists>q i. bt_get (ld_incoming db) q = Some c \<and> bt_get (ld_index db) q = Some i \<and> P i)" (is "?l \<longleftrightarrow> ?r")
proof
  assume ?l
  then obtain k q where "bt_get (ld_stream db) k = Some c" "P k" "bt_get (ld_index db) q = Some k"
    using stream_okD(4) [OF ok] by blast
  then show ?r
    using stream_okD(2) [OF ok, of q k] by (intro exI [of _ q] exI [of _ k]) simp
next
  assume ?r
  then obtain q i where "bt_get (ld_incoming db) q = Some c" "bt_get (ld_index db) q = Some i" "P i"
    by blast
  then show ?l
    using stream_okD(2) [OF ok, of q i] by (intro exI [of _ i]) simp
qed

lemma stream_range:
  assumes ok: "stream_ok db" and wf: "bt_wf (ld_stream db)" and nxt: "ld_stream_index db = Some nxt"
  shows "(k, c) \<in> set (find_by_range start (- 1) (ld_stream db)) \<longleftrightarrow> bt_get (ld_stream db) k = Some c \<and> start \<le> k"
    and "(k, c) \<in> set (ld_stream db) \<Longrightarrow> k < nxt"
proof -
  have get: "(k, c) \<in> set (ld_stream db) \<longleftrightarrow> bt_get (ld_stream db) k = Some c"
    using bt.entries_distinct [OF wf] by simp
  then show key: "k < nxt" if "(k, c) \<in> set (ld_stream db)"
    using stream_okD(4,1) [OF ok] nxt that by fastforce
  have "k < - 1" if "(k, c) \<in> set (ld_stream db)"
    using key [OF that] word_order.extremum [of nxt] by (simp add: order.strict_trans2)
  then show "(k, c) \<in> set (find_by_range start (- 1) (ld_stream db)) \<longleftrightarrow> bt_get (ld_stream db) k = Some c \<and> start \<le> k"
    using get by (auto simp: find_by_range_def)
qed

lemma page_entries:
  assumes ok: "stream_ok db" and wf: "bt_wf (ld_stream db)" and nxt: "ld_stream_index db = Some nxt"
    and start: "start < nxt" and n: "0 < n"
    and ys: "ys = take n (find_by_range start (- 1) (ld_stream db))"
    and nxt': "nxt' = (if ys = [] then nxt else fst (last ys) + 1)"
  shows "start < nxt' \<and> nxt' \<le> nxt \<and> (\<forall>k c. (k, c) \<in> set ys \<longleftrightarrow> bt_get (ld_stream db) k = Some c \<and> start \<le> k \<and> k < nxt')"
proof (cases "ys = []")
  case True
  then have "find_by_range start (- 1) (ld_stream db) = []"
    using n ys by simp
  then have "\<not> (bt_get (ld_stream db) k = Some c \<and> start \<le> k)" for k c
    using stream_range(1) [OF ok wf nxt, of k c start] by simp
  then show ?thesis
    using True start by (auto simp: nxt')
next
  case False
  let ?xs = "find_by_range start (- 1) (ld_stream db)"
  obtain m d where m: "last ys = (m, d)" by (cases "last ys")
  then have "(m, d) \<in> set ?xs"
    using last_in_set [OF False] set_take_subset [of n ?xs] ys by auto
  then have md: "start \<le> m" "m < nxt"
    using stream_range [OF ok wf nxt] map_of_SomeD by fast+
  from unat_plus_one [OF this(2)] have m1: "k < m + 1 \<longleftrightarrow> k \<le> m" "m + 1 \<le> nxt" for k
    using md(2) by (simp_all add: word_less_nat_alt word_le_nat_alt less_Suc_eq_le Suc_le_eq)
  have "bt_wf ?xs"
    using wf by (simp add: find_by_range_def bt_wf_filter)
  from filter_upto_last [OF this False [unfolded ys]] have "filter (\<lambda>e. fst e \<le> fst (last ys)) ?xs = ys"
    by (simp only: ys)
  then have "set ys = {e \<in> set ?xs. fst e \<le> m}"
    by (metis fst_conv m set_filter)
  then show ?thesis
    using md(1) m1 False by (simp add: nxt' m stream_range(1) [OF ok wf nxt])
qed

text \<open>
  C36: a page of the stream of incoming contracts misses none. Reading from \<open>start\<close>, once the
  stream has got past it, returns at most \<open>n\<close> contracts and the place to continue from, which is
  past \<open>start\<close>. The contracts returned are exactly the unspent ones numbered from \<open>start\<close> up to
  that place.
\<close>

theorem stream_page_complete:
  assumes wf: "lnv2_wf E db" and ok: "stream_ok db" and nxt: "ld_stream_index db = Some nxt"
    and start: "start < nxt" and n: "0 < n"
    and page: "incoming_contracts_page db nxt start n = (contracts, nxt')"
  shows "length contracts \<le> n \<and> start < nxt' \<and> nxt' \<le> nxt
    \<and> set contracts = {c. \<exists>q i. bt_get (ld_incoming db) q = Some c \<and> bt_get (ld_index db) q = Some i \<and> start \<le> i \<and> i < nxt'}"
proof -
  define ys where "ys = take n (find_by_range start (- 1) (ld_stream db))"
  have res: "contracts = map snd ys" "nxt' = (if ys = [] then nxt else fst (last ys) + 1)"
    using page by (auto simp: incoming_contracts_page_def page_fold ys_def)
  have "bt_wf (ld_stream db)"
    using wf by (simp add: lnv2_wf_def)
  note entries = page_entries [OF ok this nxt start n ys_def res(2)]
  have "c \<in> set contracts \<longleftrightarrow> (\<exists>k. (k, c) \<in> set ys)" for c
    by (force simp: res(1))
  then have "c \<in> set contracts \<longleftrightarrow> (\<exists>k. bt_get (ld_stream db) k = Some c \<and> start \<le> k \<and> k < nxt')" for c
    using entries by simp
  then show ?thesis
    using entries by (simp add: set_eq_iff stream_entry_iff [OF ok]) (simp add: res(1) ys_def)
qed

definition sample_incoming :: "(rat, rat) incoming_contract" where
  "sample_incoming = \<lparr>ic_commitment = \<lparr>cm_payment_image = ImageHash [9], cm_amount = 5, cm_expiration_or_fee = 10,
       cm_claim_pk = [2], cm_refund_pk = [3], cm_ephemeral_pk = [4]\<rparr>,
     ic_ciphertext = \<lparr>ct_encrypted_preimage = [], ct_pk = 1, ct_signature = 1\<rparr>\<rparr>"

definition sample_stream :: "(rat, rat) lnv2_db" where
  "sample_stream = lnv2_db_empty\<lparr>ld_incoming := [(([1], 0), sample_incoming)], ld_index := [(([1], 0), 4)],
     ld_stream := [(4, sample_incoming)], ld_stream_index := Some 6\<rparr>"

theorem stream_page_complete_witness:
  "let (contracts, nxt') = incoming_contracts_page sample_stream 6 2 10
   in set contracts = {c. \<exists>q i. bt_get (ld_incoming sample_stream) q = Some c \<and> bt_get (ld_index sample_stream) q = Some i
        \<and> 2 \<le> i \<and> i < nxt'}"
proof -
  have verify: "incoming_verify sample_lnv2_env sample_incoming"
    by (simp add: incoming_verify_def verify_ciphertext_def hash_to_message_def sample_lnv2_env_def sample_incoming_def
      rat_curve_def Let_def)
  have wf: "lnv2_wf sample_lnv2_env sample_stream"
    by (auto simp: lnv2_wf_def sample_stream_def lnv2_db_empty_def bt_wf_def verify split: if_splits)
  have ok: "stream_ok sample_stream"
    by (auto simp: stream_ok_def sample_stream_def split: if_splits)
  obtain contracts nxt' where page: "incoming_contracts_page sample_stream 6 2 10 = (contracts, nxt')"
    by (cases "incoming_contracts_page sample_stream 6 2 10")
  have nxt: "ld_stream_index sample_stream = Some 6"
    by (simp add: sample_stream_def)
  from stream_page_complete [OF wf ok nxt _ _ page] page show ?thesis
    by simp
qed

subsection \<open>Migration\<close>

fun history_of :: "('g1, 'g2) lnv2_event \<Rightarrow> ('g1, 'g2) lnv2_history_item" where
  "history_of (EvItem item _) = LnHistoryConsensusItem item"
| "history_of (EvInput input _) = LnHistoryInput input"
| "history_of (EvOutput ot q) = LnHistoryOutput ot q"

text \<open>The map that the migration builds holds the unspent contracts with their numbers.\<close>

definition tracked ::
  "('g1, 'g2) lnv2_db \<Rightarrow> (out_point, u64 \<times> ('g1, 'g2) incoming_contract) btree \<Rightarrow> bool" where
  "tracked db cs \<longleftrightarrow> bt_wf cs \<and> (\<forall>q i c. bt_get cs q = Some (i, c) \<longleftrightarrow>
     bt_get (ld_index db) q = Some i \<and> bt_get (ld_incoming db) q = Some c)"

lemma tracked_upd [simp]:
  "tracked (db\<lparr>ld_block_count_votes := votes\<rparr>) cs = tracked db cs"
  "tracked (db\<lparr>ld_unix_time_votes := votes\<rparr>) cs = tracked db cs"
  "tracked (db\<lparr>ld_outgoing := outgoing\<rparr>) cs = tracked db cs"
  "tracked (db\<lparr>ld_preimages := preimages\<rparr>) cs = tracked db cs"
  by (simp_all add: tracked_def)

lemma tracked_step:
  assumes good: "lnv2_good E L db" and step: "lnv2_step E L db ev db'" and tr: "tracked db cs"
  shows "\<exists>cs'. stream_history_step (history_of ev) (cs, next_index db) = (cs', next_index db') \<and> tracked db' cs'"
proof -
  note L = lnv2_good_def [THEN iffD1, OF good, THEN conjunct2, unfolded lightning_ok_def, THEN conjunct1]
  from step show ?thesis
  proof cases
    case (step_item item peer)
    from step_item(2) show ?thesis
      using tr by (cases rule: process_item_cases) (simp_all add: step_item(1))
  next
    case (step_input input p m)
    from step_input(2) show ?thesis
      using tr by (cases rule: lnv2_input_cases)
        (auto simp: step_input(1) spend_outgoing_eq [OF L] spend_incoming_eq tracked_def map_of_bt_remove)
  next
    case (step_output ot q x)
    from step_output(2) show ?thesis
      using tr by (cases rule: lnv2_output_cases)
        (auto simp: step_output(1) fund_outgoing_eq fund_incoming_eq [OF L] tracked_def map_of_bt_insert)
  qed
qed

lemma tracked_run:
  "lnv2_run E L db evs db' \<Longrightarrow> lnv2_good E L db \<Longrightarrow> tracked db cs \<Longrightarrow>
    \<exists>cs'. fold stream_history_step (map history_of evs) (cs, next_index db) = (cs', next_index db') \<and> tracked db' cs'"
proof (induction arbitrary: cs rule: lnv2_run.induct)
  case (run_Cons db ev db1 evs db')
  then obtain cs1 where "stream_history_step (history_of ev) (cs, next_index db) = (cs1, next_index db1)" "tracked db1 cs1"
    using tracked_step by blast
  then show ?case
    using run_Cons.IH [OF lnv2_step_good [OF run_Cons.prems(1) run_Cons.hyps(1)]] by simp
qed simp

lemma insert_streams_Ok:
  assumes "distinct (map fst xs)" and "distinct (map (fst \<circ> snd) xs)"
    and "\<forall>(q, i, c)\<in>set xs. bt_get (ld_index db) q = None \<and> bt_get (ld_stream db) i = None"
  shows "insert_streams xs db = (Ok (db\<lparr>
      ld_stream := fold (\<lambda>(k, v). bt_insert k v) (map snd xs) (ld_stream db),
      ld_index := fold (\<lambda>(k, v). bt_insert k v) (map (\<lambda>(q, i, c). (q, i)) xs) (ld_index db)\<rparr>) :: ('e, _) result)"
  using assms
proof (induction xs arbitrary: db)
  case (Cons p xs)
  obtain q i c where p: "p = (q, i, c)" by (cases p)
  let ?db = "db\<lparr>ld_stream := bt_insert i c (ld_stream db), ld_index := bt_insert q i (ld_index db)\<rparr>"
  have "\<forall>(q', i', c')\<in>set xs. bt_get (ld_index ?db) q' = None \<and> bt_get (ld_stream ?db) i' = None"
    using Cons.prems by (force simp: p map_of_bt_insert)
  then have "insert_streams xs ?db = (Ok (?db\<lparr>
      ld_stream := fold (\<lambda>(k, v). bt_insert k v) (map snd xs) (ld_stream ?db),
      ld_index := fold (\<lambda>(k, v). bt_insert k v) (map (\<lambda>(q, i, c). (q, i)) xs) (ld_index ?db)\<rparr>) :: ('e, _) result)"
    using Cons.prems by (intro Cons.IH) auto
  then show ?case
    using Cons.prems(3) by (simp add: p insert_new_entry_def insert_entry_def)
qed simp

lemma tracked_tables:
  assumes tr: "tracked db cs" and ok: "stream_ok db" and wf: "lnv2_wf E db"
  shows "distinct (map fst cs)" and "distinct (map (fst \<circ> snd) cs)"
    and "bt_of_list (map snd cs) = ld_stream db" and "bt_of_list (map (\<lambda>(q, i, c). (q, i)) cs) = ld_index db"
proof -
  have doms: "dom (bt_get (ld_index db)) = dom (bt_get (ld_incoming db))"
    using wf by (simp add: lnv2_wf_def)
  show d1: "distinct (map fst cs)"
    using tr by (simp add: tracked_def bt.entries_distinct)
  have mem: "(q, i, c) \<in> set cs \<longleftrightarrow> bt_get (ld_index db) q = Some i \<and> bt_get (ld_incoming db) q = Some c" for q i c
    using tr map_of_eq_Some_iff [OF d1, of q "(i, c)"] unfolding tracked_def by blast
  have "inj_on (fst \<circ> snd) (set cs)"
  proof (rule inj_onI)
    fix x y assume xy: "x \<in> set cs" "y \<in> set cs" "(fst \<circ> snd) x = (fst \<circ> snd) y"
    obtain q i c q' i' c' where "x = (q, i, c)" "y = (q', i', c')"
      by (metis prod_cases3)
    then show "x = y"
      using xy mem [of q i c] mem [of q' i' c'] stream_okD(3) [OF ok, of q i q'] by auto
  qed
  then show d2: "distinct (map (fst \<circ> snd) cs)"
    using d1 by (simp add: distinct_map)
  show "bt_of_list (map snd cs) = ld_stream db"
  proof (rule bt_wf_eqI)
    have "map_of (map snd cs) k = Some c \<longleftrightarrow> bt_get (ld_stream db) k = Some c" for k c
    proof -
      have "map_of (map snd cs) k = Some c \<longleftrightarrow> (\<exists>q. (q, k, c) \<in> set cs)"
        using d2 by (simp add: map_of_eq_Some_iff image_iff) (metis snd_conv surj_pair)
      then show ?thesis
        using stream_entry_iff [OF ok, of c "(=) k"] by (simp add: mem) blast
    qed
    then show "map_of (bt_of_list (map snd cs)) = map_of (ld_stream db)"
      using d2 by (simp add: map_of_bt_of_list map_eqI)
  qed (use wf in \<open>simp_all add: lnv2_wf_def\<close>)
  have d3: "distinct (map fst (map (\<lambda>(q, i, c). (q, i)) cs))"
    using d1 by (simp add: comp_def case_prod_beta)
  show "bt_of_list (map (\<lambda>(q, i, c). (q, i)) cs) = ld_index db"
  proof (rule bt_wf_eqI)
    have "map_of (map (\<lambda>(q, i, c). (q, i)) cs) q = Some i \<longleftrightarrow> bt_get (ld_index db) q = Some i" for q i
    proof -
      have "map_of (map (\<lambda>(q, i, c). (q, i)) cs) q = Some i \<longleftrightarrow> (\<exists>c. (q, i, c) \<in> set cs)"
        using d3 by (force simp: map_of_eq_Some_iff)
      then show ?thesis
        using doms by (auto simp: mem)
    qed
    then show "map_of (bt_of_list (map (\<lambda>(q, i, c). (q, i)) cs)) = map_of (ld_index db)"
      unfolding map_of_bt_of_list [OF d3] by (rule map_eqI)
  qed (use wf in \<open>simp_all add: lnv2_wf_def\<close>)
qed

text \<open>
  C37: migrating a database without the stream tables rebuilds them: after any history of accepted
  items, inputs and outputs, the migration does not panic and gives the tables that live processing
  has built, provided the contracts are not more than there are numbers.
\<close>

theorem lnv2_migration_rebuilds:
  assumes run: "lnv2_run E L lnv2_db_empty evs db" and L: "lightning_ok L"
    and room: "length (filter is_incoming_output evs) < 2 ^ 64"
  shows "migrate_to_v1 (map history_of evs) (db\<lparr>ld_stream := [], ld_index := [], ld_stream_index := None\<rparr>)
    = (Ok (db\<lparr>ld_stream_index := Some (next_index db)\<rparr>) :: ('e, _) result)"
proof -
  have good: "lnv2_good E L lnv2_db_empty"
    using L by (simp add: lnv2_good_def lnv2_wf_def lnv2_db_empty_def)
  have wf: "lnv2_wf E db"
    using lnv2_run_good [OF run good] by (simp add: lnv2_good_def)
  have ok: "stream_ok db"
    using stream_ok_run [OF run good] room by (simp add: stream_ok_def lnv2_db_empty_def)
  obtain cs where cs: "fold stream_history_step (map history_of evs) ([], 0) = (cs, next_index db)" "tracked db cs"
    using tracked_run [OF run good, of "[]"] by (auto simp: tracked_def lnv2_db_empty_def)
  note tables = tracked_tables [OF cs(2) ok wf]
  have "insert_streams cs (db\<lparr>ld_stream := [], ld_index := [], ld_stream_index := None\<rparr>)
      = (Ok (db\<lparr>ld_stream := bt_of_list (map snd cs), ld_index := bt_of_list (map (\<lambda>(q, i, c). (q, i)) cs),
          ld_stream_index := None\<rparr>) :: ('e, _) result)"
    by (subst insert_streams_Ok [OF tables(1,2)]) (auto simp: bt_of_list_def)
  then show ?thesis
    by (simp add: migrate_to_v1_def cs(1) tables(3,4))
qed

theorem lnv2_migration_rebuilds_witness:
  "migrate_to_v1 (map history_of sample_events) (sample_final\<lparr>ld_stream := [], ld_index := [], ld_stream_index := None\<rparr>)
    = (Ok (sample_final\<lparr>ld_stream_index := Some (next_index sample_final)\<rparr>) :: (unit, _) result)"
proof (rule lnv2_migration_rebuilds [OF sample_lnv2_run])
  show "lightning_ok sample_lightning"
    using sample_good by (simp add: lnv2_good_def)
  show "length (filter is_incoming_output sample_events) < 2 ^ 64"
    using length_filter_le [of is_incoming_output sample_events]
    by (rule le_less_trans) (simp add: sample_events_def)
qed

end
