(* ===== verification/Points.thy ===== *)
theory Points
  imports ServerModule Index_Log
begin

section \<open>Index ranges and fee rates\<close>

text \<open>
  \<open>IdxRange\<close>, \<open>OutPointRange\<close> and \<open>Feerate\<close> of \<open>fedimint-core/src/lib.rs\<close>. A
  \<open>usize\<close> has 64 bits. The lemmas show that a range of a table of outputs holds the outputs of
  the range, and when the three fee computations agree.
\<close>

subsection \<open>Ranges\<close>

record idx_range =
  ir_start :: u64
  ir_end :: u64

definition idx_range_new_single :: "u64 \<Rightarrow> idx_range option" where
  "idx_range_new_single start = map_option (\<lambda>e. \<lparr>ir_start = start, ir_end = e\<rparr>) (checked_add start 1)"

definition idx_range_from_inclusive :: "u64 \<Rightarrow> u64 \<Rightarrow> idx_range option" where
  "idx_range_from_inclusive start last_idx = map_option (\<lambda>e. \<lparr>ir_start = start, ir_end = e\<rparr>) (checked_add last_idx 1)"

definition idx_range_iter :: "idx_range \<Rightarrow> u64 list" where
  "idx_range_iter r = map of_nat [unat (ir_start r)..<unat (ir_end r)]"

definition idx_range_count :: "idx_range \<Rightarrow> nat" where
  "idx_range_count r = length (idx_range_iter r)"

definition idx_range_checked_count :: "idx_range \<Rightarrow> nat option" where
  "idx_range_checked_count r = map_option unat (checked_sub (ir_end r) (ir_start r))"

record out_point_range =
  or_txid :: txid
  or_idx_range :: idx_range

definition out_point_range_new_single :: "txid \<Rightarrow> u64 \<Rightarrow> out_point_range option" where
  "out_point_range_new_single txid idx =
     map_option (\<lambda>r. \<lparr>or_txid = txid, or_idx_range = r\<rparr>) (idx_range_new_single idx)"

definition start_out_point :: "out_point_range \<Rightarrow> out_point" where
  "start_out_point r = (or_txid r, ir_start (or_idx_range r))"

definition end_out_point :: "out_point_range \<Rightarrow> out_point" where
  "end_out_point r = (or_txid r, ir_end (or_idx_range r))"

definition out_point_range_iter :: "out_point_range \<Rightarrow> out_point list" where
  "out_point_range_iter r = map (Pair (or_txid r)) (idx_range_iter (or_idx_range r))"

lemma idx_range_checked_count_iff:
  "idx_range_checked_count r = Some n \<longleftrightarrow> ir_start r \<le> ir_end r \<and> n = idx_range_count r"
  by (auto simp: idx_range_checked_count_def idx_range_count_def idx_range_iter_def checked_simps
      word_le_nat_alt unat_sub intro!: exI [of _ "ir_end r - ir_start r"])

lemma set_idx_range_iter: "set (idx_range_iter r) = {i. ir_start r \<le> i \<and> i < ir_end r}"
proof -
  have "i \<in> of_nat ` {unat (ir_start r)..<unat (ir_end r)} \<longleftrightarrow> ir_start r \<le> i \<and> i < ir_end r" for i :: u64
  proof
    assume "i \<in> of_nat ` {unat (ir_start r)..<unat (ir_end r)}"
    then obtain n where n: "i = of_nat n" "unat (ir_start r) \<le> n" "n < unat (ir_end r)" by auto
    moreover have "n < 2 ^ 64"
      using n(3) unsigned_less [of "ir_end r", where 'a = nat] by simp
    ultimately show "ir_start r \<le> i \<and> i < ir_end r"
      by (simp add: word_le_nat_alt word_less_nat_alt unat_of_nat_u64)
  next
    assume "ir_start r \<le> i \<and> i < ir_end r"
    then have "unat i \<in> {unat (ir_start r)..<unat (ir_end r)}" "i = of_nat (unat i)"
      by (simp_all add: word_le_nat_alt word_less_nat_alt)
    then show "i \<in> of_nat ` {unat (ir_start r)..<unat (ir_end r)}" by blast
  qed
  then show ?thesis
    by (auto simp: idx_range_iter_def)
qed

lemma sorted_idx_range_iter: "sorted_wrt (<) (idx_range_iter r)"
proof -
  have "(of_nat x :: u64) < of_nat y" if "x < y" "y < unat (ir_end r)" for x y
  proof -
    have "y < 2 ^ 64"
      using that(2) unsigned_less [of "ir_end r", where 'a = nat] by simp
    then show ?thesis
      using that(1) by (simp add: word_less_nat_alt unat_of_nat)
  qed
  then show ?thesis
    unfolding idx_range_iter_def sorted_wrt_map by (intro sorted_wrt_mono_rel [OF _ sorted_wrt_upt]) auto
qed

lemma sorted_out_point_range_iter: "sorted_wrt (<) (out_point_range_iter r)"
  using sorted_idx_range_iter [of "or_idx_range r"]
  by (simp add: out_point_range_iter_def sorted_wrt_map less_prod_def)

lemma set_out_point_range_iter:
  "q \<in> set (out_point_range_iter r) \<longleftrightarrow> start_out_point r \<le> q \<and> q < end_out_point r"
  by (cases q) (auto simp: out_point_range_iter_def set_idx_range_iter start_out_point_def end_out_point_def)

text \<open>Scanning a table that holds every output of a range gives their values, in order.\<close>

lemma find_by_out_point_range:
  assumes "bt_wf t" and "\<And>q. q \<in> set (out_point_range_iter r) \<Longrightarrow> bt_get t q = Some (f q)"
  shows "find_by_range (start_out_point r) (end_out_point r) t = map (\<lambda>q. (q, f q)) (out_point_range_iter r)"
proof (rule bt_wf_eqI)
  have "bt_get (find_by_range a b t) k = (if a \<le> k \<and> k < b then bt_get t k else None)" for a b k
    unfolding find_by_range_def by (induction t) auto
  then show "bt_get (find_by_range (start_out_point r) (end_out_point r) t) =
      bt_get (map (\<lambda>q. (q, f q)) (out_point_range_iter r))"
    using assms(2) unfolding map_of_map_keys set_out_point_range_iter fun_eq_iff by simp
qed (simp_all add: find_by_range_def bt_wf_filter assms(1) bt_wf_map_keys sorted_out_point_range_iter)

subsection \<open>Fee rates\<close>

definition WITNESS_SCALE_FACTOR :: u64 where
  "WITNESS_SCALE_FACTOR = 4"

definition MAX_MONEY_SATS :: u64 where
  "MAX_MONEY_SATS = 21000000 * 100000000"

text \<open>\<open>div_ceil\<close> rounds up; its result is never out of range.\<close>

definition weight_to_vbytes :: "u64 \<Rightarrow> u64" where
  "weight_to_vbytes weight =
     weight div WITNESS_SCALE_FACTOR + (if weight mod WITNESS_SCALE_FACTOR = 0 then 0 else 1)"

definition calculate_fee :: "u64 \<Rightarrow> u64 \<Rightarrow> u64" where
  "calculate_fee sats_per_kvb weight = weight_to_vbytes weight * sats_per_kvb div 1000"

definition wrapping_calculate_fee :: "u64 \<Rightarrow> u64 \<Rightarrow> u64" where
  "wrapping_calculate_fee sats_per_kvb weight = weight_to_vbytes weight * sats_per_kvb div 1000"

definition checked_calculate_fee :: "u64 \<Rightarrow> u64 \<Rightarrow> u64 option" where
  "checked_calculate_fee sats_per_kvb weight =
     (case checked_mul (weight_to_vbytes weight) sats_per_kvb of
        None \<Rightarrow> None
      | Some n \<Rightarrow> if n div 1000 \<le> MAX_MONEY_SATS then Some (n div 1000) else None)"

lemma unat_weight_to_vbytes: "unat (weight_to_vbytes w) = (unat w + 3) div 4"
proof -
  have "unat w div 4 + 1 < 2 ^ 64"
    using unsigned_less [of w, where 'a = nat] by simp
  then have "unat (w div 4 + 1) = unat w div 4 + 1"
    by (subst unat_plus_small) (simp_all add: unat_div_word)
  moreover have "w mod 4 = 0 \<longleftrightarrow> unat w mod 4 = 0"
    by (simp add: unat_eq_0 [symmetric] unat_mod_word)
  ultimately show ?thesis
    unfolding weight_to_vbytes_def WITNESS_SCALE_FACTOR_def
    by (auto simp: unat_div_word) presburger+
qed

lemma checked_calculate_fee_iff:
  "checked_calculate_fee rate w = Some fee \<longleftrightarrow>
    (let exact = (unat w + 3) div 4 * unat rate
     in exact < 2 ^ 64 \<and> exact div 1000 \<le> unat MAX_MONEY_SATS \<and> unat fee = exact div 1000)"
proof (cases "(unat w + 3) div 4 * unat rate < 2 ^ 64")
  case True
  then have "unat (weight_to_vbytes w * rate) = (unat w + 3) div 4 * unat rate"
    by (subst unat_mult_small) (simp_all add: unat_weight_to_vbytes)
  then have "unat (weight_to_vbytes w * rate div 1000) = (unat w + 3) div 4 * unat rate div 1000"
    by (simp add: unat_div_word)
  then show ?thesis
    using True by (auto simp: checked_calculate_fee_def checked_mul_def unat_weight_to_vbytes Let_def
        word_le_nat_alt word_unat_eq_iff)
qed (simp add: checked_calculate_fee_def checked_mul_def unat_weight_to_vbytes Let_def)

lemma checked_fee_agrees:
  assumes "checked_calculate_fee rate w = Some fee"
  shows "calculate_fee rate w = fee" and "wrapping_calculate_fee rate w = fee"
  using assms by (auto simp: checked_calculate_fee_def checked_mul_def calculate_fee_def
      wrapping_calculate_fee_def split: if_splits)

end
