(* ===== verification/Mintv2_Server.thy ===== *)
theory Mintv2_Server
  imports Tbs Balance_Sheet Fees Points
begin

section \<open>The mint module, version 2\<close>

text \<open>
  \<open>modules/fedimint-mintv2-server/src/lib.rs\<close> and \<open>db.rs\<close>, with the types of
  \<open>modules/fedimint-mintv2-common/src/lib.rs\<close> and \<open>config.rs\<close>. A note has a power of two as
  its denomination, and the module counts the notes of each denomination in circulation. The
  lemmas show the contract \<open>funds_laws\<close>, that the counters are the notes issued less the notes
  redeemed, and that processing an input can only panic on a forged note.
\<close>

subsection \<open>Types\<close>

text \<open>A shift of a 64-bit number uses the six lowest bits of the distance.\<close>

type_synonym denomination = u8

definition denomination_amount :: "denomination \<Rightarrow> amount" where
  "denomination_amount d = from_msats (push_bit (unat d mod 64) 1)"

definition consensus_denominations :: "denomination list" where
  "consensus_denominations = map of_nat [0..<42]"

definition client_denominations :: "denomination list" where
  "client_denominations = map of_nat [9..<42]"

record 'g1 v2_note =
  vn_denomination :: denomination
  vn_nonce :: public_key
  vn_signature :: 'g1

definition v2_note_amount :: "'g1 v2_note \<Rightarrow> amount" where
  "v2_note_amount n = denomination_amount (vn_denomination n)"

datatype 'g1 v2_mint_input =
    V2MintInputV0 "'g1 v2_note"
  | V2MintInputDefault u64 bytes

datatype 'g1 v2_mint_output =
    V2MintOutputV0 denomination 'g1 bytes
  | V2MintOutputDefault u64 bytes

datatype v2_mint_consensus_item = V2MintConsensusItemDefault u64 bytes

datatype v2_recovery_item =
    V2RecoveryOutput denomination bytes bytes
  | V2RecoveryInput bytes

datatype v2_mint_input_error =
    V2UnknownInputVariant u64
  | V2SpentCoin
  | V2InputInvalidDenomination
  | V2InvalidSignature

datatype v2_mint_output_error =
    V2UnknownOutputVariant u64
  | V2OutputInvalidDenomination

text \<open>One table per database prefix.\<close>

record 'g1 mintv2_db =
  vd_nonces :: "(public_key, unit) btree"
  vd_shares :: "(out_point, 'g1) btree"
  vd_recovery_shares :: "('g1, 'g1) btree"
  vd_counters :: "(denomination, u64) btree"
  vd_recovery :: "(u64, v2_recovery_item) btree"

definition mintv2_db_empty :: "'g1 mintv2_db" where
  "mintv2_db_empty = \<lparr>vd_nonces = [], vd_shares = [], vd_recovery_shares = [], vd_counters = [], vd_recovery = []\<rparr>"

record ('s, 'g2) mintv2_config =
  vc_tbs_sks :: "(denomination, 's) btree"
  vc_tbs_agg_pks :: "(denomination, 'g2) btree"
  vc_tbs_pks :: "(denomination, (peer_id, 'g2) btree) btree"
  vc_fee_consensus :: fee_consensus
  vc_amount_unit :: amount_unit

definition mintv2_fee_zero :: fee_consensus where
  "mintv2_fee_zero = \<lparr>fc_base = 0, fc_ppm = 0\<rparr>"

subsection \<open>Notes\<close>

definition nonce_message :: "('s, 'g1, 'g2, 'gt) curve \<Rightarrow> public_key \<Rightarrow> 'g1" where
  "nonce_message C nonce = message_from_bytes_sha256 C nonce"

definition verify_note :: "('s, 'g1, 'g2, 'gt) curve \<Rightarrow> 'g1 v2_note \<Rightarrow> 'g2 \<Rightarrow> bool" where
  "verify_note C n pk = tbs_verify C (nonce_message C (vn_nonce n)) (vn_signature n) pk"

subsection \<open>Consensus operations\<close>

definition v2_get_recovery_count :: "'g1 mintv2_db \<Rightarrow> u64" where
  "v2_get_recovery_count db =
     (case find_by_prefix_sorted_descending (vd_recovery db) of [] \<Rightarrow> 0 | (k, item) # _ \<Rightarrow> k + 1)"

definition v2_get_recovery_slice :: "'g1 mintv2_db \<Rightarrow> u64 \<times> u64 \<Rightarrow> v2_recovery_item list" where
  "v2_get_recovery_slice db rng = map snd (find_by_range (fst rng) (snd rng) (vd_recovery db))"

definition get_signature_shares :: "'g1 mintv2_db \<Rightarrow> out_point_range \<Rightarrow> 'g1 list" where
  "get_signature_shares db rng = map snd (find_by_range (start_out_point rng) (end_out_point rng) (vd_shares db))"

definition get_signature_shares_recovery :: "'g1 mintv2_db \<Rightarrow> 'g1 list \<Rightarrow> (string, 'g1 list) result" where
  "get_signature_shares_recovery db messages =
     traverse (\<lambda>m. ok_or (bt_get (vd_recovery_shares db) m) ''No blinded signature share found'') messages"

definition v2_process_consensus_item ::
  "'g1 mintv2_db \<Rightarrow> v2_mint_consensus_item \<Rightarrow> peer_id \<Rightarrow> (string, 'g1 mintv2_db) result" where
  "v2_process_consensus_item db item peer = Err ''Mint does not process consensus items''"

text \<open>Taking the counter of a denomination out of its table, changing it and putting it back.\<close>

definition update_issuance_counter ::
  "(u64 \<Rightarrow> u64 option) \<Rightarrow> denomination \<Rightarrow> (denomination, u64) btree \<Rightarrow> ('e, (denomination, u64) btree) result" where
  "update_issuance_counter step d counters =
     (case remove_entry d counters of (old, counters) \<Rightarrow>
        rbind (expect (step (case old of None \<Rightarrow> 0 | Some c \<Rightarrow> c))) (\<lambda>new_count.
          insert_new_entry d new_count counters))"

definition v2_process_input ::
  "('s, 'g1, 'g2, 'gt) curve \<Rightarrow> (bytes \<Rightarrow> bytes) \<Rightarrow> ('s, 'g2) mintv2_config \<Rightarrow> 'g1 mintv2_db \<Rightarrow> 'g1 v2_mint_input \<Rightarrow> in_point
    \<Rightarrow> (v2_mint_input_error, 'g1 mintv2_db \<times> input_meta) result" where
  "v2_process_input C hash160 cfg db input in_point =
     (case input of
        V2MintInputDefault variant _ \<Rightarrow> Err (V2UnknownInputVariant variant)
      | V2MintInputV0 n \<Rightarrow>
          rbind (ok_or (bt_get (vc_tbs_agg_pks cfg) (vn_denomination n)) V2InputInvalidDenomination) (\<lambda>pk.
          if \<not> verify_note C n pk then Err V2InvalidSignature
          else (case insert_entry (vn_nonce n) () (vd_nonces db) of (prev, nonces) \<Rightarrow>
            if prev \<noteq> None then Err V2SpentCoin
            else
              rbind (update_issuance_counter (\<lambda>c. checked_sub c 1) (vn_denomination n) (vd_counters db)) (\<lambda>counters.
              rbind (insert_new_entry (v2_get_recovery_count db)
                       (V2RecoveryInput (consensus_hash hash160 (\<lambda>b. b) (vn_nonce n))) (vd_recovery db)) (\<lambda>recovery.
              let amount = v2_note_amount n
              in rbind (mintv2_fee (vc_fee_consensus cfg) amount) (\<lambda>fee.
                Ok (db\<lparr>vd_nonces := nonces, vd_counters := counters, vd_recovery := recovery\<rparr>,
                    \<lparr>im_amount = \<lparr>ti_amounts = new_custom (vc_amount_unit cfg) amount,
                                  ti_fees = new_custom (vc_amount_unit cfg) fee\<rparr>,
                     im_pub_key = vn_nonce n\<rparr>)))))))"

definition v2_process_output ::
  "('s, 'g1::linorder, 'g2, 'gt) curve \<Rightarrow> (bytes \<Rightarrow> bytes) \<Rightarrow> ('s, 'g2) mintv2_config \<Rightarrow> 'g1 mintv2_db \<Rightarrow> 'g1 v2_mint_output \<Rightarrow> out_point
    \<Rightarrow> (v2_mint_output_error, 'g1 mintv2_db \<times> transaction_item_amounts) result" where
  "v2_process_output C hash160 cfg db ot outpoint =
     (case ot of
        V2MintOutputDefault variant _ \<Rightarrow> Err (V2UnknownOutputVariant variant)
      | V2MintOutputV0 d nonce tweak \<Rightarrow>
          rbind (ok_or (map_option (sign_message C nonce) (bt_get (vc_tbs_sks cfg) d)) V2OutputInvalidDenomination) (\<lambda>sig.
          let shares = snd (insert_entry outpoint sig (vd_shares db));
              recovery_shares = snd (insert_entry nonce sig (vd_recovery_shares db))
          in rbind (update_issuance_counter (\<lambda>c. checked_add c 1) d (vd_counters db)) (\<lambda>counters.
          rbind (insert_new_entry (v2_get_recovery_count db)
                   (V2RecoveryOutput d (consensus_hash hash160 (g1_to_compressed C) nonce) tweak) (vd_recovery db)) (\<lambda>recovery.
          let amount = denomination_amount d
          in rbind (mintv2_fee (vc_fee_consensus cfg) amount) (\<lambda>fee.
            Ok (db\<lparr>vd_shares := shares, vd_recovery_shares := recovery_shares,
                   vd_counters := counters, vd_recovery := recovery\<rparr>,
                \<lparr>ti_amounts = new_custom (vc_amount_unit cfg) amount,
                 ti_fees = new_custom (vc_amount_unit cfg) fee\<rparr>))))))"

definition v2_audit :: "'g1 mintv2_db \<Rightarrow> audit \<Rightarrow> module_instance_id \<Rightarrow> 'g1 mintv2_db \<times> audit" where
  "v2_audit db audit module_instance_id =
     (db, add_items (vd_counters db) module_instance_id (\<lambda>d v. - (denomination_amount d * v)) audit)"

definition note_distribution_ui :: "'g1 mintv2_db \<Rightarrow> (denomination, u64) btree" where
  "note_distribution_ui db = bt_of_list (filter (\<lambda>(d, count). 0 < count) (vd_counters db))"

definition v2_recovery_slice_hash ::
  "(bytes \<Rightarrow> 'h) \<Rightarrow> v2_recovery_item list encoder \<Rightarrow> 'g1 mintv2_db \<Rightarrow> u64 \<times> u64 \<Rightarrow> 'h" where
  "v2_recovery_slice_hash sha enc db rng = consensus_hash sha enc (v2_get_recovery_slice db rng)"

definition mintv2_module ::
  "('s, 'g1::linorder, 'g2, 'gt) curve \<Rightarrow> (bytes \<Rightarrow> bytes) \<Rightarrow> ('s, 'g2) mintv2_config
    \<Rightarrow> ('g1 mintv2_db, 'g1 v2_mint_input, 'g1 v2_mint_output, v2_mint_consensus_item, v2_mint_input_error, v2_mint_output_error) server_module" where
  "mintv2_module C hash160 cfg =
     \<lparr>sm_process_consensus_item = v2_process_consensus_item,
      sm_verify_input = (\<lambda>input. Ok ()),
      sm_process_input = v2_process_input C hash160 cfg,
      sm_process_output = v2_process_output C hash160 cfg,
      sm_verify_input_submission = (\<lambda>db input. Ok ()),
      sm_verify_output_submission = (\<lambda>db ot q. Ok ()),
      sm_audit = v2_audit\<rparr>"

subsection \<open>The invariant and the contract\<close>

definition mintv2_wf :: "'g1::linorder mintv2_db \<Rightarrow> bool" where
  "mintv2_wf db \<longleftrightarrow> bt_wf (vd_nonces db) \<and> bt_wf (vd_shares db) \<and> bt_wf (vd_recovery_shares db)
     \<and> bt_wf (vd_counters db) \<and> (\<exists>items. length items \<le> 2 ^ 64 \<and> vd_recovery db = index_log items)"

definition circulating :: "'g1 mintv2_db \<Rightarrow> denomination \<Rightarrow> u64" where
  "circulating db d = (case bt_get (vd_counters db) d of None \<Rightarrow> 0 | Some c \<Rightarrow> c)"

definition mintv2_fee_ok :: "fee_consensus \<Rightarrow> bool" where
  "mintv2_fee_ok f \<longleftrightarrow> f = mintv2_fee_zero \<or> (\<exists>p. mintv2_fee_new p = Ok f)"

definition circulating_value :: "denomination \<Rightarrow> u64 \<Rightarrow> int" where
  "circulating_value d c = - (int (unat (denomination_amount d)) * int (unat c))"

text \<open>Notes in circulation are a liability in the unit of the module.\<close>

definition mintv2_balance :: "('s, 'g2) mintv2_config \<Rightarrow> 'g1::linorder mintv2_db \<Rightarrow> int" where
  "mintv2_balance cfg db = (if vc_amount_unit cfg = BITCOIN then bt.total circulating_value (vd_counters db) else 0)"

definition mintv2_outs :: "'g1 mintv2_db \<Rightarrow> out_point set" where
  "mintv2_outs db = dom (bt_get (vd_shares db))"

lemma mintv2_fee_Ok:
  assumes "mintv2_fee_ok f"
  shows "\<exists>x. mintv2_fee f a = (Ok x :: ('e, amount) result)"
  using assms unfolding mintv2_fee_ok_def
proof (elim disjE exE)
  assume "f = mintv2_fee_zero"
  then show ?thesis
    by (simp add: mintv2_fee_zero_def mintv2_fee_def mintv2_fee_msats_def checked_add_def saturating_mul_def)
next
  fix p assume "mintv2_fee_new p = Ok f"
  then show ?thesis using mintv2.fee_value [of p f a] by blast
qed

lemma mintv2_fee_no_panic: "mintv2_fee_ok f \<Longrightarrow> mintv2_fee f a \<noteq> (Panic :: ('e, amount) result)"
  using mintv2_fee_Ok [of f a, where 'e = 'e] by auto

lemma v2_recovery_count_log:
  "vd_recovery db = index_log items \<Longrightarrow> v2_get_recovery_count db = of_nat (length items)"
  by (simp add: v2_get_recovery_count_def next_index_log)

lemma update_issuance_counter_eq:
  assumes "bt_wf t"
  shows "update_issuance_counter step d t = rbind (expect (step (case bt_get t d of None \<Rightarrow> 0 | Some c \<Rightarrow> c)))
    (\<lambda>c. Ok (bt_insert d c t))"
proof -
  have "bt_insert d c (bt_remove d t) = bt_insert d c t" for c
    using assms by (intro bt_wf_eqI) (auto simp: map_of_bt_insert map_of_bt_remove)
  moreover have "bt_get (bt_remove d t) d = None"
    by (simp add: map_of_bt_remove)
  ultimately show ?thesis
    by (simp add: update_issuance_counter_def remove_entry_def insert_new_entry_def insert_entry_def)
qed

lemma circulating_insert:
  "circulating (db\<lparr>vd_counters := bt_insert d c (vd_counters db)\<rparr>) e = (if e = d then c else circulating db e)"
  by (simp add: circulating_def map_of_bt_insert)

lemma v2_process_input_Ok:
  assumes wf: "mintv2_wf db" and ok: "v2_process_input C h cfg db i p = Ok (db', meta)"
  obtains n pk items c fee where "i = V2MintInputV0 n"
    and "bt_get (vc_tbs_agg_pks cfg) (vn_denomination n) = Some pk" and "verify_note C n pk"
    and "bt_get (vd_nonces db) (vn_nonce n) = None"
    and "unat (circulating db (vn_denomination n)) = Suc (unat c)"
    and "vd_recovery db = index_log items" and "length items < 2 ^ 64"
    and "db' = db\<lparr>vd_nonces := bt_insert (vn_nonce n) () (vd_nonces db),
        vd_counters := bt_insert (vn_denomination n) c (vd_counters db),
        vd_recovery := index_log (items @ [V2RecoveryInput (consensus_hash h (\<lambda>b. b) (vn_nonce n))])\<rparr>"
    and "meta = \<lparr>im_amount = \<lparr>ti_amounts = new_custom (vc_amount_unit cfg) (v2_note_amount n),
        ti_fees = new_custom (vc_amount_unit cfg) fee\<rparr>, im_pub_key = vn_nonce n\<rparr>"
proof (cases i)
  case (V2MintInputV0 n)
  obtain items where items: "vd_recovery db = index_log items" "length items \<le> 2 ^ 64"
    and wf_c: "bt_wf (vd_counters db)"
    using wf by (auto simp: mintv2_wf_def)
  from ok obtain pk c fee where 1: "bt_get (vc_tbs_agg_pks cfg) (vn_denomination n) = Some pk" "verify_note C n pk"
      "bt_get (vd_nonces db) (vn_nonce n) = None"
    and c: "checked_sub (circulating db (vn_denomination n)) 1 = Some c"
    and new: "bt_get (index_log items) (of_nat (length items)) = None"
    and db': "db' = db\<lparr>vd_nonces := bt_insert (vn_nonce n) () (vd_nonces db),
        vd_counters := bt_insert (vn_denomination n) c (vd_counters db),
        vd_recovery := bt_insert (of_nat (length items)) (V2RecoveryInput (consensus_hash h (\<lambda>b. b) (vn_nonce n)))
          (index_log items)\<rparr>"
    and meta: "meta = \<lparr>im_amount = \<lparr>ti_amounts = new_custom (vc_amount_unit cfg) (v2_note_amount n),
        ti_fees = new_custom (vc_amount_unit cfg) fee\<rparr>, im_pub_key = vn_nonce n\<rparr>"
    by (auto simp: v2_process_input_def V2MintInputV0 update_issuance_counter_eq [OF wf_c] insert_entry_def
        v2_recovery_count_log [OF items(1)] items(1) Let_def circulating_def neq_Some_unit split: if_splits)
  note len = index_log_full [OF items(2) new]
  have "unat (circulating db (vn_denomination n)) = Suc (unat c)"
    using c by (simp add: checked_simps)
  then show ?thesis
    by (rule that [OF V2MintInputV0 1 _ items(1) len _ meta]) (simp add: db' insert_index_log(2) [OF len])
qed (use ok in \<open>simp add: v2_process_input_def\<close>)

lemma v2_process_output_Ok:
  assumes wf: "mintv2_wf db" and ok: "v2_process_output C h cfg db ot q = Ok (db', a)"
  obtains d nonce tweak sk items c fee where "ot = V2MintOutputV0 d nonce tweak"
    and "bt_get (vc_tbs_sks cfg) d = Some sk"
    and "unat c = Suc (unat (circulating db d))"
    and "vd_recovery db = index_log items" and "length items < 2 ^ 64"
    and "db' = db\<lparr>vd_shares := bt_insert q (sign_message C nonce sk) (vd_shares db),
        vd_recovery_shares := bt_insert nonce (sign_message C nonce sk) (vd_recovery_shares db),
        vd_counters := bt_insert d c (vd_counters db),
        vd_recovery := index_log (items @ [V2RecoveryOutput d (consensus_hash h (g1_to_compressed C) nonce) tweak])\<rparr>"
    and "a = \<lparr>ti_amounts = new_custom (vc_amount_unit cfg) (denomination_amount d),
        ti_fees = new_custom (vc_amount_unit cfg) fee\<rparr>"
proof (cases ot)
  case (V2MintOutputV0 d nonce tweak)
  obtain items where items: "vd_recovery db = index_log items" "length items \<le> 2 ^ 64"
    and wf_c: "bt_wf (vd_counters db)"
    using wf by (auto simp: mintv2_wf_def)
  from ok obtain sk c fee where sk: "bt_get (vc_tbs_sks cfg) d = Some sk"
    and c: "checked_add (circulating db d) 1 = Some c"
    and new: "bt_get (index_log items) (of_nat (length items)) = None"
    and db': "db' = db\<lparr>vd_shares := bt_insert q (sign_message C nonce sk) (vd_shares db),
        vd_recovery_shares := bt_insert nonce (sign_message C nonce sk) (vd_recovery_shares db),
        vd_counters := bt_insert d c (vd_counters db),
        vd_recovery := bt_insert (of_nat (length items))
          (V2RecoveryOutput d (consensus_hash h (g1_to_compressed C) nonce) tweak) (index_log items)\<rparr>"
    and a: "a = \<lparr>ti_amounts = new_custom (vc_amount_unit cfg) (denomination_amount d),
        ti_fees = new_custom (vc_amount_unit cfg) fee\<rparr>"
    by (auto simp: v2_process_output_def V2MintOutputV0 update_issuance_counter_eq [OF wf_c] insert_entry_def
        v2_recovery_count_log [OF items(1)] items(1) Let_def circulating_def)
  note len = index_log_full [OF items(2) new]
  have "unat c = Suc (unat (circulating db d))"
    using c by (simp add: checked_simps)
  then show ?thesis
    by (rule that [OF V2MintOutputV0 sk _ items(1) len _ a]) (simp add: db' insert_index_log(2) [OF len])
qed (use ok in \<open>simp add: v2_process_output_def\<close>)

lemma bitcoin_of_new_custom: "bitcoin_of (new_custom u a) = (if u = BITCOIN then int (unat a) else 0)"
  by (simp add: new_custom_def units_of_Cons)

lemma item_wf_custom [simp]: "item_wf \<lparr>ti_amounts = new_custom u a, ti_fees = new_custom u b\<rparr>"
  by (simp add: item_wf_def)

lemma mintv2_wf_log:
  "length items < 2 ^ 64 \<Longrightarrow> \<exists>xs. length xs \<le> 2 ^ 64 \<and> index_log (items @ [x]) = index_log xs"
  by (intro exI [of _ "items @ [x]"]) simp

lemma counter_total:
  assumes "bt_wf (vd_counters db)"
  shows "bt.total circulating_value (bt_insert d c (vd_counters db))
    = bt.total circulating_value (vd_counters db) + circulating_value d c - circulating_value d (circulating db d)"
  using bt.total_upsert [OF assms, of circulating_value d 0 c]
  by (simp add: circulating_def circulating_value_def)

interpretation mintv2_funds: funds_laws "v2_process_input C h cfg" "v2_process_output C h cfg"
  "mintv2_balance cfg" mintv2_outs mintv2_wf
  for C :: "('s, 'g1::linorder, 'g2, 'gt) curve" and h cfg
proof
  fix db :: "'g1 mintv2_db" and i p db' m
  assume wf: "mintv2_wf db" and ok: "v2_process_input C h cfg db i p = Ok (db', m)"
  from v2_process_input_Ok [OF this] show "mintv2_wf db' \<and> item_wf (im_amount m) \<and> mintv2_outs db' \<subseteq> mintv2_outs db
      \<and> mintv2_balance cfg db + bitcoin_of (ti_amounts (im_amount m)) \<le> mintv2_balance cfg db'"
    by cases (use wf in \<open>simp add: mintv2_wf_def mintv2_wf_log [simplified] mintv2_outs_def mintv2_balance_def bitcoin_of_new_custom
        counter_total v2_note_amount_def circulating_value_def algebra_simps\<close>)
next
  fix db :: "'g1 mintv2_db" and ot q db' a
  assume wf: "mintv2_wf db" and ok: "v2_process_output C h cfg db ot q = Ok (db', a)"
  from v2_process_output_Ok [OF this] show "mintv2_wf db' \<and> item_wf a \<and> mintv2_outs db' \<subseteq> insert q (mintv2_outs db)
      \<and> mintv2_balance cfg db - bitcoin_of (ti_amounts a) \<le> mintv2_balance cfg db'"
    by cases (use wf in \<open>simp add: mintv2_wf_def mintv2_wf_log [simplified] mintv2_outs_def dom_bt_insert mintv2_balance_def
        bitcoin_of_new_custom counter_total circulating_value_def algebra_simps\<close>)
qed

subsection \<open>Executions\<close>

datatype 'g1 v2_event =
    V2Redeem "'g1 v2_note" in_point
  | V2Issue denomination 'g1 bytes out_point

inductive v2_step ::
  "('s, 'g1::linorder, 'g2, 'gt) curve \<Rightarrow> (bytes \<Rightarrow> bytes) \<Rightarrow> ('s, 'g2) mintv2_config
    \<Rightarrow> 'g1 mintv2_db \<Rightarrow> 'g1 v2_event \<Rightarrow> 'g1 mintv2_db \<Rightarrow> bool"
  for C :: "('s, 'g1::linorder, 'g2, 'gt) curve" and h :: "bytes \<Rightarrow> bytes" and cfg :: "('s, 'g2) mintv2_config" where
  redeem: "v2_process_input C h cfg db (V2MintInputV0 n) p = Ok (db', meta) \<Longrightarrow> v2_step C h cfg db (V2Redeem n p) db'"
| issue: "v2_process_output C h cfg db (V2MintOutputV0 d nonce tweak) q = Ok (db', a) \<Longrightarrow>
    v2_step C h cfg db (V2Issue d nonce tweak q) db'"

inductive_cases v2_redeemE: "v2_step C h cfg db (V2Redeem n p) db'"
inductive_cases v2_issueE: "v2_step C h cfg db (V2Issue d nonce tweak q) db'"

text \<open>A run from the empty database, read with its last step first.\<close>

inductive v2_run ::
  "('s, 'g1::linorder, 'g2, 'gt) curve \<Rightarrow> (bytes \<Rightarrow> bytes) \<Rightarrow> ('s, 'g2) mintv2_config
    \<Rightarrow> 'g1 v2_event list \<Rightarrow> 'g1 mintv2_db \<Rightarrow> bool"
  for C :: "('s, 'g1::linorder, 'g2, 'gt) curve" and h :: "bytes \<Rightarrow> bytes" and cfg :: "('s, 'g2) mintv2_config" where
  start: "v2_run C h cfg [] mintv2_db_empty"
| step: "v2_run C h cfg evs db \<Longrightarrow> v2_step C h cfg db ev db' \<Longrightarrow> v2_run C h cfg (ev # evs) db'"

fun redeemed_notes :: "'g1 v2_event list \<Rightarrow> 'g1 v2_note list" where
  "redeemed_notes [] = []"
| "redeemed_notes (V2Redeem n p # evs) = n # redeemed_notes evs"
| "redeemed_notes (V2Issue d nonce tweak q # evs) = redeemed_notes evs"

fun issued_denominations :: "'g1 v2_event list \<Rightarrow> denomination list" where
  "issued_denominations [] = []"
| "issued_denominations (V2Redeem n p # evs) = issued_denominations evs"
| "issued_denominations (V2Issue d nonce tweak q # evs) = d # issued_denominations evs"

abbreviation redeemed_of :: "denomination \<Rightarrow> 'g1 v2_event list \<Rightarrow> 'g1 v2_note list" where
  "redeemed_of d evs \<equiv> filter (\<lambda>n. vn_denomination n = d) (redeemed_notes evs)"

abbreviation issued_of :: "denomination \<Rightarrow> 'g1 v2_event list \<Rightarrow> nat" where
  "issued_of d evs \<equiv> length (filter (\<lambda>e. e = d) (issued_denominations evs))"

definition note_valid :: "('s, 'g1, 'g2, 'gt) curve \<Rightarrow> ('s, 'g2) mintv2_config \<Rightarrow> 'g1 v2_note \<Rightarrow> bool" where
  "note_valid C cfg n \<longleftrightarrow>
     (case bt_get (vc_tbs_agg_pks cfg) (vn_denomination n) of None \<Rightarrow> False | Some pk \<Rightarrow> verify_note C n pk)"

lemma mintv2_wf_empty: "mintv2_wf (mintv2_db_empty :: 'g1::linorder mintv2_db)"
  by (auto simp: mintv2_wf_def mintv2_db_empty_def intro!: exI [of _ "[]"])

lemma v2_run_invariant:
  assumes "v2_run C h cfg evs db"
  shows "mintv2_wf db \<and> (\<forall>d. issued_of d evs = length (redeemed_of d evs) + unat (circulating db d))
    \<and> dom (bt_get (vd_nonces db)) = vn_nonce ` set (redeemed_notes evs)
    \<and> distinct (map vn_nonce (redeemed_notes evs)) \<and> list_all (note_valid C cfg) (redeemed_notes evs)
    \<and> length (vd_recovery db) = length evs"
  using assms
proof induction
  case start
  then show ?case
    using mintv2_wf_empty by (simp add: mintv2_db_empty_def circulating_def)
next
  case (step evs db ev db')
  then have wf: "mintv2_wf db" by blast
  show ?case
  proof (cases ev)
    case (V2Redeem n p)
    then obtain meta where ok: "v2_process_input C h cfg db (V2MintInputV0 n) p = Ok (db', meta)"
      using step.hyps(2) by (auto elim: v2_redeemE)
    from mintv2_funds.pin_Ok [OF wf ok] have "mintv2_wf db'" by blast
    with v2_process_input_Ok [OF wf ok] step.IH show ?thesis
      by cases (auto simp: V2Redeem circulating_insert dom_bt_insert note_valid_def circulating_def map_of_bt_insert)
  next
    case (V2Issue d nonce tweak q)
    then obtain a where ok: "v2_process_output C h cfg db (V2MintOutputV0 d nonce tweak) q = Ok (db', a)"
      using step.hyps(2) by (auto elim: v2_issueE)
    from mintv2_funds.pout_Ok [OF wf ok] have "mintv2_wf db'" by blast
    with v2_process_output_Ok [OF wf ok] step.IH show ?thesis
      by cases (auto simp: V2Issue circulating_def map_of_bt_insert)
  qed
qed

lemma v2_process_input_Panic:
  assumes wf: "mintv2_wf db" and room: "length (vd_recovery db) < 2 ^ 64" and fee: "mintv2_fee_ok (vc_fee_consensus cfg)"
    and panic: "v2_process_input C h cfg db i p = Panic"
  obtains n where "i = V2MintInputV0 n" and "note_valid C cfg n" and "bt_get (vd_nonces db) (vn_nonce n) = None"
    and "circulating db (vn_denomination n) = 0"
proof (cases i)
  case (V2MintInputV0 n)
  obtain items where items: "vd_recovery db = index_log items" "length items < 2 ^ 64"
    and wf_c: "bt_wf (vd_counters db)"
    using wf room by (auto simp: mintv2_wf_def)
  from panic have "note_valid C cfg n" "bt_get (vd_nonces db) (vn_nonce n) = None"
    "checked_sub (circulating db (vn_denomination n)) 1 = None"
    by (auto simp: v2_process_input_def V2MintInputV0 update_issuance_counter_eq [OF wf_c] insert_entry_def
        v2_recovery_count_log [OF items(1)] items(1) insert_index_log(1) [OF items(2)] Let_def circulating_def
        neq_Some_unit rbind_eq_Panic mintv2_fee_no_panic [OF fee] note_valid_def split: if_splits)
  moreover from this(3) have "circulating db (vn_denomination n) = 0"
    by (simp add: checked_simps unat_eq_0)
  ultimately show ?thesis
    using that V2MintInputV0 by blast
qed (use panic in \<open>simp add: v2_process_input_def\<close>)

lemma v2_process_input_panics:
  assumes wf: "mintv2_wf db" and n: "note_valid C cfg n" "bt_get (vd_nonces db) (vn_nonce n) = None"
    and none: "circulating db (vn_denomination n) = 0"
  shows "v2_process_input C h cfg db (V2MintInputV0 n) p = Panic"
proof -
  have "update_issuance_counter (\<lambda>c. checked_sub c 1) (vn_denomination n) (vd_counters db)
      = (Panic :: (v2_mint_input_error, _) result)"
    using wf none by (simp add: update_issuance_counter_eq mintv2_wf_def circulating_def checked_sub_def)
  then show ?thesis
    using n by (auto simp: v2_process_input_def insert_entry_def note_valid_def split: option.splits)
qed

lemma v2_process_output_safe:
  assumes wf: "mintv2_wf db" and room: "length (vd_recovery db) < 2 ^ 64" and fee: "mintv2_fee_ok (vc_fee_consensus cfg)"
    and small: "\<And>d. unat (circulating db d) < 2 ^ 64 - 1"
  shows "v2_process_output C h cfg db ot q \<noteq> Panic"
proof (cases ot)
  case (V2MintOutputV0 d nonce tweak)
  obtain items where items: "vd_recovery db = index_log items" "length items < 2 ^ 64"
    and wf_c: "bt_wf (vd_counters db)"
    using wf room by (auto simp: mintv2_wf_def)
  have "checked_add (circulating db d) 1 \<noteq> None"
    using small [of d] by (simp add: checked_simps)
  then show ?thesis
    by (auto simp: v2_process_output_def V2MintOutputV0 update_issuance_counter_eq [OF wf_c] insert_entry_def
        v2_recovery_count_log [OF items(1)] items(1) insert_index_log(1) [OF items(2)] Let_def circulating_def
        rbind_eq_Panic mintv2_fee_no_panic [OF fee])
qed (simp add: v2_process_output_def)

text \<open>
  C38: in every run of the module the notes of a denomination in circulation, as the module counts
  them, are the notes issued less the notes redeemed; no more notes of a denomination are redeemed
  than were issued, every redeemed note carries a valid signature of the federation, and no nonce
  is redeemed twice.
\<close>

theorem mintv2_supply:
  assumes "v2_run C h cfg evs db"
  shows "(\<forall>d. length (redeemed_of d evs) \<le> issued_of d evs
      \<and> unat (circulating db d) = issued_of d evs - length (redeemed_of d evs))
    \<and> distinct (map vn_nonce (redeemed_notes evs)) \<and> list_all (note_valid C cfg) (redeemed_notes evs)"
proof -
  note inv = v2_run_invariant [OF assms]
  then have "issued_of d evs = length (redeemed_of d evs) + unat (circulating db d)" for d
    by blast
  then have "length (redeemed_of d evs) \<le> issued_of d evs
      \<and> unat (circulating db d) = issued_of d evs - length (redeemed_of d evs)" for d
    by (metis add_diff_cancel_left' le_add1)
  with inv show ?thesis by blast
qed

text \<open>
  C39: processing an input of a run panics, on the counter of its denomination, exactly if the
  input's note completes a forgery: its nonce is new, and with the notes redeemed before there are
  then one more distinct nonces with valid signatures than the federation has signed for that
  denomination. Outputs never panic.
\<close>

theorem mintv2_panic_is_forgery:
  assumes run: "v2_run C h cfg evs db" and len: "length evs < 2 ^ 64 - 1" and fee: "mintv2_fee_ok (vc_fee_consensus cfg)"
  shows "v2_process_output C h cfg db ot q \<noteq> Panic \<and>
    (v2_process_input C h cfg db i p = Panic \<longleftrightarrow>
      (\<exists>n d forged. i = V2MintInputV0 n \<and> d = vn_denomination n \<and> forged = n # redeemed_of d evs
        \<and> vn_nonce n \<notin> vn_nonce ` set (redeemed_notes evs) \<and> distinct (map vn_nonce forged)
        \<and> list_all (note_valid C cfg) forged \<and> length forged = issued_of d evs + 1))"
proof -
  note inv = v2_run_invariant [OF run]
  have wf: "mintv2_wf db" and count: "\<And>d. issued_of d evs = length (redeemed_of d evs) + unat (circulating db d)"
    and nonces: "bt_get (vd_nonces db) x = None \<longleftrightarrow> x \<notin> vn_nonce ` set (redeemed_notes evs)" for x
    using inv by (blast, blast, auto)
  have room: "length (vd_recovery db) < 2 ^ 64"
    using inv len by simp
  have "length (issued_denominations evs) \<le> length evs"
    by (induction evs rule: issued_denominations.induct) simp_all
  then have bound: "issued_of d evs \<le> length evs" for d
    by (rule order_trans [OF length_filter_le])
  have "unat (circulating db d) \<le> issued_of d evs" for d
    using count [of d] by simp
  then have "unat (circulating db d) < 2 ^ 64 - 1" for d
    by (rule le_less_trans [OF _ le_less_trans [OF bound [of d] len]])
  then have outs: "v2_process_output C h cfg db ot q \<noteq> Panic"
    using v2_process_output_safe [OF wf room fee] by blast
  have panics: "v2_process_input C h cfg db i p = Panic \<longleftrightarrow> (\<exists>n. i = V2MintInputV0 n \<and> note_valid C cfg n
      \<and> vn_nonce n \<notin> vn_nonce ` set (redeemed_notes evs) \<and> circulating db (vn_denomination n) = 0)"
    by (metis nonces v2_process_input_Panic [OF wf room fee] v2_process_input_panics [OF wf])
  have forged: "note_valid C cfg n \<and> vn_nonce n \<notin> vn_nonce ` set (redeemed_notes evs) \<and> circulating db (vn_denomination n) = 0
    \<longleftrightarrow> vn_nonce n \<notin> vn_nonce ` set (redeemed_notes evs)
      \<and> distinct (map vn_nonce (n # redeemed_of (vn_denomination n) evs))
      \<and> list_all (note_valid C cfg) (n # redeemed_of (vn_denomination n) evs)
      \<and> length (n # redeemed_of (vn_denomination n) evs) = issued_of (vn_denomination n) evs + 1" for n
    using inv count [of "vn_denomination n"] by (auto simp: distinct_map_filter list_all_iff unat_eq_0)
  show ?thesis
    using outs panics forged by simp
qed

definition sample_v2_note :: "rat v2_note" where
  "sample_v2_note = \<lparr>vn_denomination = 3, vn_nonce = [2], vn_signature = 5\<rparr>"

definition sample_v2_config :: "(rat, rat) mintv2_config" where
  "sample_v2_config = \<lparr>vc_tbs_sks = [(3, 5)], vc_tbs_agg_pks = [(3, 5)], vc_tbs_pks = [(3, [(0, 5)])],
     vc_fee_consensus = \<lparr>fc_base = 100, fc_ppm = 0\<rparr>, vc_amount_unit = 0\<rparr>"

lemmas sample_v2_defs = v2_process_output_def v2_process_input_def mintv2_db_empty_def sample_v2_config_def
  sample_v2_note_def update_issuance_counter_def insert_entry_def insert_new_entry_def remove_entry_def bt_remove_def
  v2_get_recovery_count_def find_by_prefix_sorted_descending_def mintv2_fee_def mintv2_fee_msats_def checked_add_def
  checked_sub_def saturating_mul_def Let_def verify_note_def tbs_verify_def rat_curve_def nonce_message_def
  message_from_bytes_sha256_def sign_message_def

theorem mintv2_supply_witness:
  "\<exists>db. v2_run rat_curve (\<lambda>b. b) sample_v2_config [V2Redeem sample_v2_note ([], 0), V2Issue 3 1 [] ([1], 0)] db
    \<and> unat (circulating db 3) = 0 \<and> note_valid rat_curve sample_v2_config sample_v2_note"
proof -
  let ?evs = "[V2Redeem sample_v2_note ([], 0), V2Issue 3 1 [] ([1], 0)]"
  obtain db a where "v2_process_output rat_curve (\<lambda>b. b) sample_v2_config mintv2_db_empty (V2MintOutputV0 3 1 []) ([1], 0) = Ok (db, a)"
    and "\<exists>db' meta. v2_process_input rat_curve (\<lambda>b. b) sample_v2_config db (V2MintInputV0 sample_v2_note) ([], 0) = Ok (db', meta)"
    by (simp add: sample_v2_defs)
  then obtain db' where run: "v2_run rat_curve (\<lambda>b. b) sample_v2_config ?evs db'"
    by (metis v2_step.intros v2_run.intros)
  from mintv2_supply [OF this] have "unat (circulating db' 3) = 0" "note_valid rat_curve sample_v2_config sample_v2_note"
    by (simp_all add: sample_v2_note_def)
  with run show ?thesis by blast
qed

theorem mintv2_panic_is_forgery_witness:
  "v2_process_input rat_curve (\<lambda>b. b) sample_v2_config mintv2_db_empty (V2MintInputV0 sample_v2_note) ([], 0) = Panic
    \<and> v2_process_output rat_curve (\<lambda>b. b) sample_v2_config mintv2_db_empty (V2MintOutputV0 3 1 []) ([1], 0) \<noteq> Panic
    \<and> note_valid rat_curve sample_v2_config sample_v2_note"
proof -
  have panic: "v2_process_input rat_curve (\<lambda>b. b) sample_v2_config mintv2_db_empty (V2MintInputV0 sample_v2_note) ([], 0) = Panic"
    by (simp add: sample_v2_defs)
  have "mintv2_fee_ok (vc_fee_consensus sample_v2_config)"
    by (auto simp: mintv2_fee_ok_def sample_v2_config_def mintv2_fee_new_def from_msats_def intro!: exI [of _ 0])
  from mintv2_panic_is_forgery [OF v2_run.start _ this, where ot = "V2MintOutputV0 3 1 []" and q = "([1], 0)"
      and i = "V2MintInputV0 sample_v2_note" and p = "([], 0)" and h = "\<lambda>b. b" and C = rat_curve] panic
  show ?thesis by auto
qed

end
