(* ===== verification/Mintv2_Wallet.thy ===== *)
theory Mintv2_Wallet
  imports Mintv2_Server
begin

section \<open>The notes of a client of the mint, version 2\<close>

text \<open>
  The note management of \<open>modules/fedimint-mintv2-client/src/lib.rs\<close>: representing an amount in
  denominations, handing out exact change, and balancing a transaction in
  \<open>create_final_inputs_and_outputs\<close> by selecting notes to fund it, rebalancing the
  denominations held and adding change. The bundles of state machines around the inputs and
  outputs are left out. Amounts are added and subtracted without checks, so they wrap.
\<close>

subsection \<open>Types\<close>

record keypair =
  kp_secret :: bytes
  kp_public :: public_key

record 'g1 spendable_note =
  sn_denomination :: denomination
  sn_keypair :: keypair
  sn_signature :: 'g1

definition sn_amount :: "'g1 spendable_note \<Rightarrow> amount" where
  "sn_amount n = denomination_amount (sn_denomination n)"

definition sn_note :: "'g1 spendable_note \<Rightarrow> 'g1 v2_note" where
  "sn_note n = \<lparr>vn_denomination = sn_denomination n, vn_nonce = kp_public (sn_keypair n), vn_signature = sn_signature n\<rparr>"

text \<open>
  The table is keyed by the note, that is by its denomination and then by the encoding
  \<open>v2c_note_bytes\<close> of its keys and signature.
\<close>

type_synonym 'g1 note_table = "(denomination \<times> bytes, 'g1 spendable_note) btree"

record 'g1 v2_client =
  v2c_fee_consensus :: fee_consensus
  v2c_amount_unit :: amount_unit
  v2c_note_bytes :: "'g1 spendable_note \<Rightarrow> bytes"

datatype v2_client_error =
    WrongAmountUnit
  | InsufficientBalance amount amount

definition TARGET_PER_DENOMINATION :: nat where
  "TARGET_PER_DENOMINATION = 3"

definition note_key :: "'g1 v2_client \<Rightarrow> 'g1 spendable_note \<Rightarrow> denomination \<times> bytes" where
  "note_key cl n = (sn_denomination n, v2c_note_bytes cl n)"

definition remove_spendable_note :: "'g1 v2_client \<Rightarrow> 'g1 spendable_note \<Rightarrow> 'g1 note_table \<Rightarrow> ('e, 'g1 note_table) result" where
  "remove_spendable_note cl n t =
     (case remove_entry (note_key cl n) t of (removed, t) \<Rightarrow> rbind (expect removed) (\<lambda>_. Ok t))"

fun remove_spendable_notes ::
  "'g1 v2_client \<Rightarrow> 'g1 spendable_note list \<Rightarrow> 'g1 note_table \<Rightarrow> ('e, 'g1 note_table) result" where
  "remove_spendable_notes cl [] t = Ok t"
| "remove_spendable_notes cl (n # ns) t = rbind (remove_spendable_note cl n t) (remove_spendable_notes cl ns)"

definition get_count_by_denomination :: "'g1 note_table \<Rightarrow> (denomination, u64) btree" where
  "get_count_by_denomination t =
     fold (\<lambda>n acc. case bt_get acc (sn_denomination n) of
         None \<Rightarrow> bt_insert (sn_denomination n) 1 acc
       | Some c \<Rightarrow> bt_insert (sn_denomination n) (c + 1) acc) (bt_values t) []"

definition v2_get_balance :: "'g1 v2_client \<Rightarrow> 'g1 note_table \<Rightarrow> amount_unit \<Rightarrow> amount" where
  "v2_get_balance cl t unit =
     (if unit \<noteq> v2c_amount_unit cl then 0
      else amount_sum (map (\<lambda>(d, c). amount_mul_u64 (denomination_amount d) c) (get_count_by_denomination t)))"

subsection \<open>Representing amounts\<close>

definition round_to_multiple :: "amount \<Rightarrow> amount \<Rightarrow> ('e, amount) result" where
  "round_to_multiple a min_denomination = map_ok from_msats (next_multiple_of a min_denomination)"

fun represent_loop :: "(denomination \<Rightarrow> ('e, amount) result) \<Rightarrow> denomination list \<Rightarrow> amount \<Rightarrow> denomination list
    \<Rightarrow> ('e, amount \<times> denomination list) result" where
  "represent_loop cost [] remaining denominations = Ok (remaining, denominations)"
| "represent_loop cost (d # ds) remaining denominations =
     rbind (cost d) (\<lambda>c.
     rbind (amount_div remaining c) (\<lambda>n_add.
       represent_loop cost ds (amount_sub remaining (amount_mul_u64 c n_add))
         (denominations @ replicate (unat n_add) d)))"

definition represent_amount :: "amount \<Rightarrow> ('e, denomination list) result" where
  "represent_amount a =
     map_ok snd (represent_loop (\<lambda>d. Ok (denomination_amount d)) (rev client_denominations) a [])"

text \<open>What a note of a denomination costs as an output.\<close>

definition output_cost :: "fee_consensus \<Rightarrow> denomination \<Rightarrow> ('e, amount) result" where
  "output_cost f d = map_ok (amount_add (denomination_amount d)) (mintv2_fee f (denomination_amount d))"

definition represent_amount_with_fees :: "amount \<Rightarrow> fee_consensus \<Rightarrow> ('e, denomination list) result" where
  "represent_amount_with_fees a f =
     map_ok (sort \<circ> snd) (represent_loop (output_cost f) (rev client_denominations) a [])"

subsection \<open>Exact change\<close>

fun exact_change_loop ::
  "'g1 spendable_note list \<Rightarrow> amount \<Rightarrow> 'g1 spendable_note list \<Rightarrow> amount \<times> 'g1 spendable_note list" where
  "exact_change_loop [] remaining notes = (remaining, notes)"
| "exact_change_loop (n # ns) remaining notes =
     (case amount_checked_sub remaining (sn_amount n) of
        None \<Rightarrow> exact_change_loop ns remaining notes
      | Some a \<Rightarrow> if a = 0 then (a, notes @ [n]) else exact_change_loop ns a (notes @ [n]))"

definition select_exact_change :: "'g1 note_table \<Rightarrow> amount \<Rightarrow> 'g1 spendable_note list option" where
  "select_exact_change t remaining =
     (case exact_change_loop (map snd (find_by_prefix_sorted_descending t)) remaining [] of
        (remaining, notes) \<Rightarrow> if remaining = 0 then Some notes else None)"

definition can_make_exact_change :: "'g1 note_table \<Rightarrow> amount \<Rightarrow> bool" where
  "can_make_exact_change t remaining \<longleftrightarrow> select_exact_change t remaining \<noteq> None"

text \<open>The notes handed out and the table that remains, if exact change is held.\<close>

definition send_ecash_dbtx ::
  "'g1 v2_client \<Rightarrow> 'g1 note_table \<Rightarrow> amount \<Rightarrow> ('e, ('g1 note_table \<times> 'g1 spendable_note list) option) result" where
  "send_ecash_dbtx cl t remaining =
     (case select_exact_change t remaining of
        None \<Rightarrow> Ok None
      | Some notes \<Rightarrow> map_ok (\<lambda>t. Some (t, notes)) (remove_spendable_notes cl notes t))"

subsection \<open>Balancing a transaction\<close>

definition note_value :: "fee_consensus \<Rightarrow> 'g1 spendable_note \<Rightarrow> ('e, amount) result" where
  "note_value f n = rbind (mintv2_fee f (sn_amount n)) (\<lambda>fee. expect (amount_checked_sub (sn_amount n) fee))"

definition notes_of :: "'g1 note_table \<Rightarrow> denomination \<Rightarrow> 'g1 spendable_note list" where
  "notes_of t d = filter (\<lambda>n. sn_denomination n = d) (bt_values t)"

fun spend_excess ::
  "fee_consensus \<Rightarrow> 'g1 spendable_note list \<Rightarrow> amount \<times> 'g1 spendable_note list
    \<Rightarrow> ('e, amount \<times> 'g1 spendable_note list) result" where
  "spend_excess f [] st = Ok st"
| "spend_excess f (n # ns) (excess_output, selected) =
     rbind (note_value f n) (\<lambda>v.
       spend_excess f ns (amount_saturating_sub excess_output v, selected @ [n]))"

fun gather_notes ::
  "fee_consensus \<Rightarrow> 'g1 note_table \<Rightarrow> denomination list \<Rightarrow> amount \<times> 'g1 spendable_note list
    \<Rightarrow> 'g1 spendable_note list \<Rightarrow> 'g1 spendable_note list
    \<Rightarrow> ('e, (amount \<times> 'g1 spendable_note list) \<times> 'g1 spendable_note list \<times> 'g1 spendable_note list) result" where
  "gather_notes f t [] st target_notes excess_notes = Ok (st, target_notes, excess_notes)"
| "gather_notes f t (d # ds) st target_notes excess_notes =
     (let notes_amount = notes_of t d;
          target_notes = target_notes @ take TARGET_PER_DENOMINATION notes_amount
      in if 2 * TARGET_PER_DENOMINATION < length notes_amount
         then rbind (spend_excess f (drop TARGET_PER_DENOMINATION notes_amount) st) (\<lambda>st.
           gather_notes f t ds st target_notes excess_notes)
         else gather_notes f t ds st target_notes (excess_notes @ drop TARGET_PER_DENOMINATION notes_amount))"

fun spend_until_covered ::
  "fee_consensus \<Rightarrow> 'g1 spendable_note list \<Rightarrow> amount \<Rightarrow> 'g1 spendable_note list
    \<Rightarrow> ('e, 'g1 spendable_note list option) result" where
  "spend_until_covered f [] excess_output selected = Ok None"
| "spend_until_covered f (n # ns) excess_output selected =
     rbind (note_value f n) (\<lambda>v.
     let excess_output = amount_saturating_sub excess_output v; selected = selected @ [n]
     in if excess_output = 0 then Ok (Some selected)
        else spend_until_covered f ns excess_output selected)"

definition select_funding_input ::
  "fee_consensus \<Rightarrow> 'g1 note_table \<Rightarrow> amount \<Rightarrow> ('e, 'g1 spendable_note list option) result" where
  "select_funding_input f t excess_output =
     rbind (gather_notes f t (rev client_denominations) (excess_output, []) [] [])
       (\<lambda>((excess_output, selected), target_notes, excess_notes).
         if excess_output = 0 then Ok (Some selected)
         else spend_until_covered f (excess_notes @ target_notes) excess_output selected)"

text \<open>
  \<open>rebalance\<close>: the excess, the stream of notes that are left, the notes spent and the
  denominations created.
\<close>

type_synonym 'g1 rebalancing = "amount \<times> 'g1 spendable_note list \<times> 'g1 spendable_note list \<times> denomination list"

fun rebalance_missing ::
  "fee_consensus \<Rightarrow> denomination \<Rightarrow> nat \<Rightarrow> 'g1 rebalancing \<Rightarrow> ('e, 'g1 rebalancing) result" where
  "rebalance_missing f d 0 st = Ok st"
| "rebalance_missing f d (Suc n_missing) (excess_input, notes, input_notes, output_denominations) =
     rbind (output_cost f d) (\<lambda>cost.
       case amount_checked_sub excess_input cost of
         Some remaining_excess \<Rightarrow>
           rebalance_missing f d n_missing (remaining_excess, notes, input_notes, output_denominations @ [d])
       | None \<Rightarrow>
           (case notes of
              n # notes \<Rightarrow>
                if sn_amount n \<le> cost then Ok (excess_input, notes, input_notes, output_denominations)
                else rebalance_missing f d n_missing
                  (amount_add excess_input (amount_sub (sn_amount n) cost), notes, input_notes @ [n],
                   output_denominations @ [d])
            | [] \<Rightarrow> Ok (excess_input, notes, input_notes, output_denominations)))"

fun rebalance_loop ::
  "fee_consensus \<Rightarrow> (denomination, u64) btree \<Rightarrow> denomination list \<Rightarrow> 'g1 rebalancing \<Rightarrow> ('e, 'g1 rebalancing) result" where
  "rebalance_loop f counts [] st = Ok st"
| "rebalance_loop f counts (d # ds) st =
     (let n_denomination = (case bt_get counts d of None \<Rightarrow> 0 | Some n \<Rightarrow> n);
          n_missing = TARGET_PER_DENOMINATION - unat n_denomination
      in rbind (rebalance_missing f d n_missing st) (rebalance_loop f counts ds))"

definition rebalance ::
  "fee_consensus \<Rightarrow> 'g1 note_table \<Rightarrow> amount \<Rightarrow> ('e, 'g1 rebalancing) result" where
  "rebalance f t excess_input =
     rebalance_loop f (get_count_by_denomination t) client_denominations
       (excess_input, map snd (find_by_prefix_sorted_descending t), [], [])"

definition fee_sum :: "fee_consensus \<Rightarrow> 'g1 spendable_note list \<Rightarrow> ('e, amount) result" where
  "fee_sum f ns = map_ok amount_sum (traverse (\<lambda>n. mintv2_fee f (sn_amount n)) ns)"

definition create_final_inputs_and_outputs ::
  "'g1 v2_client \<Rightarrow> 'g1 note_table \<Rightarrow> amount_unit \<Rightarrow> amount \<Rightarrow> amount
    \<Rightarrow> (v2_client_error, 'g1 note_table \<times> 'g1 spendable_note list \<times> denomination list) result" where
  "create_final_inputs_and_outputs cl t unit input_amount output_amount =
     (let f = v2c_fee_consensus cl in
      if unit \<noteq> v2c_amount_unit cl then Err WrongAmountUnit
      else
        let requested_amount = amount_saturating_sub output_amount input_amount in
        rbind (select_funding_input f t requested_amount) (\<lambda>selected.
        case selected of
          None \<Rightarrow> Err (InsufficientBalance requested_amount (v2_get_balance cl t unit))
        | Some funding_notes \<Rightarrow>
            rbind (remove_spendable_notes cl funding_notes t) (\<lambda>t.
            rbind (fee_sum f funding_notes) (\<lambda>funding_fees.
            let input_amount = amount_add input_amount (amount_sum (map sn_amount funding_notes));
                output_amount = amount_add output_amount funding_fees
            in
            rbind (rassert (output_amount \<le> input_amount)) (\<lambda>_.
            rbind (rebalance f t (amount_sub input_amount output_amount)) (\<lambda>(_, _, input_notes, output_amounts).
            rbind (remove_spendable_notes cl input_notes t) (\<lambda>t.
            rbind (fee_sum f input_notes) (\<lambda>input_fees.
            rbind (map_ok amount_sum (traverse (output_cost f) output_amounts)) (\<lambda>output_costs.
            let input_amount = amount_add input_amount (amount_sum (map sn_amount input_notes));
                output_amount = amount_add (amount_add output_amount input_fees) output_costs
            in
            rbind (rassert (output_amount \<le> input_amount)) (\<lambda>_.
            rbind (represent_amount_with_fees (amount_saturating_sub input_amount output_amount) f) (\<lambda>change.
              Ok (t, sort_key sn_denomination (funding_notes @ input_notes), sort (change @ output_amounts)))))))))))))"

end
