(* ===== verification/Mintv2_Balancing.thy ===== *)
theory Mintv2_Balancing
  imports Mintv2_Wallet "HOL-Library.Multiset"
begin

section \<open>Balancing a transaction with notes of the mint, version 2\<close>

text \<open>
  What \<open>create_final_inputs_and_outputs\<close> of \<open>modules/fedimint-mintv2-client/src/lib.rs\<close> does to the
  notes of a client and to the amounts of a transaction, over natural numbers. The client adds and
  subtracts amounts without checks; the lemmas assume that all amounts together stay below
  \<open>2 ^ 62\<close> millisatoshis, twice the bitcoin there are.
\<close>

subsection \<open>Amounts as numbers\<close>

text \<open>What a note is worth, what its fee is, and what is left of it as an input.\<close>

definition fee_of :: "fee_consensus \<Rightarrow> amount \<Rightarrow> amount" where
  "fee_of f a = saturating_mul a (fc_ppm f) div 1000000 + fc_base f"

abbreviation worth :: "denomination \<Rightarrow> nat" where
  "worth d \<equiv> unat (denomination_amount d)"

abbreviation fee_nat :: "fee_consensus \<Rightarrow> denomination \<Rightarrow> nat" where
  "fee_nat f d \<equiv> unat (fee_of f (denomination_amount d))"

definition notes_worth :: "'g1 spendable_note list \<Rightarrow> nat" where
  "notes_worth ns = (\<Sum>n\<leftarrow>ns. worth (sn_denomination n))"

definition notes_fees :: "fee_consensus \<Rightarrow> 'g1 spendable_note list \<Rightarrow> nat" where
  "notes_fees f ns = (\<Sum>n\<leftarrow>ns. fee_nat f (sn_denomination n))"

definition outputs_cost :: "fee_consensus \<Rightarrow> denomination list \<Rightarrow> nat" where
  "outputs_cost f ds = (\<Sum>d\<leftarrow>ds. worth d + fee_nat f d)"

abbreviation client_notes :: "'g1 spendable_note list \<Rightarrow> bool" where
  "client_notes ns \<equiv> \<forall>n\<in>set ns. sn_denomination n \<in> set client_denominations"

lemma notes_sums_simps [simp]:
  "notes_worth [] = 0" "notes_worth (n # ns) = worth (sn_denomination n) + notes_worth ns"
  "notes_worth (ns @ ms) = notes_worth ns + notes_worth ms"
  "notes_fees f [] = 0" "notes_fees f (n # ns) = fee_nat f (sn_denomination n) + notes_fees f ns"
  "notes_fees f (ns @ ms) = notes_fees f ns + notes_fees f ms"
  "outputs_cost f [] = 0" "outputs_cost f (d # ds) = worth d + fee_nat f d + outputs_cost f ds"
  "outputs_cost f (ds @ es) = outputs_cost f ds + outputs_cost f es"
  by (simp_all add: notes_worth_def notes_fees_def outputs_cost_def)

lemma client_denominations_set: "d \<in> set client_denominations \<longleftrightarrow> 9 \<le> unat d \<and> unat d < 42"
proof
  assume "9 \<le> unat d \<and> unat d < 42"
  then have "unat d \<in> {9..<42}" "d = of_nat (unat d)"
    by simp_all
  then show "d \<in> set client_denominations"
    unfolding client_denominations_def set_map set_upt by (rule rev_image_eqI)
next
  assume "d \<in> set client_denominations"
  then obtain n where "n \<in> {9..<42}" "d = of_nat n"
    unfolding client_denominations_def set_map set_upt by blast
  then show "9 \<le> unat d \<and> unat d < 42"
    by (simp add: unat_of_nat)
qed

lemma worth_client:
  assumes "d \<in> set client_denominations"
  shows "worth d = 2 ^ unat d"
proof -
  have d: "unat d < 64"
    using assms by (simp add: client_denominations_set)
  then have "(2::nat) ^ unat d < 2 ^ 64"
    by (intro power_strict_increasing) simp_all
  then have "unat (of_nat (2 ^ unat d) :: u64) = 2 ^ unat d"
    by (rule unat_of_nat_u64)
  then show ?thesis
    using d by (simp add: denomination_amount_def from_msats_def push_bit_eq_mult)
qed

lemma worth_bounds:
  assumes "d \<in> set client_denominations"
  shows "512 \<le> worth d" and "worth d < 2 ^ 42"
proof -
  have d: "9 \<le> unat d" "unat d < 42"
    using assms by (simp_all add: client_denominations_set)
  have "(2::nat) ^ 9 \<le> 2 ^ unat d"
    using d(1) by (rule power_increasing) simp
  moreover have "(2::nat) ^ unat d < 2 ^ 42"
    using d(2) by (rule power_strict_increasing) simp
  ultimately show "512 \<le> worth d" "worth d < 2 ^ 42"
    using worth_client [OF assms] by simp_all
qed

lemma fee_bound:
  assumes "mintv2_fee_ok f"
  shows "mintv2_fee f a = (Ok (fee_of f a) :: ('e, amount) result)" and "unat (fee_of f a) \<le> 100 + unat a div 1000"
proof -
  have f: "unat (fc_base f) \<le> 100" "unat (fc_ppm f) \<le> 1000"
    using assms unfolding mintv2_fee_ok_def
    by (auto simp: mintv2_fee_zero_def mintv2_fee_new_def from_msats_def not_less word_le_nat_alt split: if_splits)
  let ?r = "saturating_mul a (fc_ppm f) div 1000000"
  have "unat a * unat (fc_ppm f) \<le> unat a * 1000"
    using f(2) by simp
  moreover have "unat (saturating_mul a (fc_ppm f)) \<le> unat a * unat (fc_ppm f)"
    by (simp add: checked_simps)
  ultimately have "unat (saturating_mul a (fc_ppm f)) \<le> unat a * 1000"
    by (rule order_trans [rotated])
  then have "unat ?r \<le> unat a * 1000 div 1000000"
    unfolding unat_div_word by (simp add: div_le_mono)
  also have "\<dots> = unat a div 1000"
    by simp
  finally have r: "unat ?r \<le> unat a div 1000" .
  moreover have "unat a < 2 ^ 64"
    using unsigned_less [of a, where 'a = nat] by simp
  ultimately have small: "unat ?r + unat (fc_base f) < 2 ^ 64"
    using f(1) by simp
  then show "mintv2_fee f a = (Ok (fee_of f a) :: ('e, amount) result)"
    by (simp add: mintv2_fee_def mintv2_fee_msats_def checked_add_def fee_of_def from_msats_def)
  show "unat (fee_of f a) \<le> 100 + unat a div 1000"
    using r f(1) unat_plus_small [of ?r "fc_base f"] small by (simp add: fee_of_def)
qed

lemma fee_less_worth:
  assumes "mintv2_fee_ok f" and "d \<in> set client_denominations"
  shows "fee_nat f d < worth d"
  using fee_bound(2) [OF assms(1), of "denomination_amount d"] worth_bounds [OF assms(2)] by linarith

lemma note_value_eq:
  assumes "mintv2_fee_ok f" and "sn_denomination n \<in> set client_denominations"
  shows "\<exists>v. note_value f n = (Ok v :: ('e, amount) result)
    \<and> unat v = worth (sn_denomination n) - fee_nat f (sn_denomination n)"
  using fee_less_worth [OF assms]
  by (auto simp: note_value_def fee_bound(1) [OF assms(1)] amount_checked_sub_def checked_sub_def sn_amount_def
      word_le_nat_alt unat_sub)

lemma output_cost_eq:
  assumes "mintv2_fee_ok f" and "d \<in> set client_denominations"
  shows "\<exists>c. output_cost f d = (Ok c :: ('e, amount) result) \<and> unat c = worth d + fee_nat f d"
proof -
  have "worth d + fee_nat f d < 2 ^ 64"
    using fee_less_worth [OF assms] worth_bounds [OF assms(2)] by simp
  then show ?thesis
    by (simp add: output_cost_def fee_bound(1) [OF assms(1)] amount_add_def unat_plus_small)
qed

subsection \<open>Selecting notes\<close>

definition notes_value :: "fee_consensus \<Rightarrow> 'g1 spendable_note list \<Rightarrow> nat" where
  "notes_value f ns = (\<Sum>n\<leftarrow>ns. worth (sn_denomination n) - fee_nat f (sn_denomination n))"

lemma notes_value_simps [simp]:
  "notes_value f [] = 0"
  "notes_value f (n # ns) = worth (sn_denomination n) - fee_nat f (sn_denomination n) + notes_value f ns"
  "notes_value f (ns @ ms) = notes_value f ns + notes_value f ms"
  by (simp_all add: notes_value_def)

lemma notes_value_worth:
  assumes "mintv2_fee_ok f" and "client_notes ns"
  shows "notes_value f ns + notes_fees f ns = notes_worth ns"
  using assms(2)
proof (induction ns)
  case (Cons n ns)
  then have "fee_nat f (sn_denomination n) < worth (sn_denomination n)"
    by (intro fee_less_worth [OF assms(1)]) simp
  moreover have "notes_value f ns + notes_fees f ns = notes_worth ns"
    using Cons by simp
  ultimately show ?case
    by simp
qed simp

lemma notes_value_mset:
  "mset ns = mset ms \<Longrightarrow> notes_value f ns = notes_value f ms"
  unfolding notes_value_def by (simp only: sum_mset_sum_list [symmetric] mset_map)

lemma notes_worth_mset:
  "mset ns = mset ms \<Longrightarrow> notes_worth ns = notes_worth ms"
  unfolding notes_worth_def by (simp only: sum_mset_sum_list [symmetric] mset_map)

lemma spend_excess_eq:
  assumes f: "mintv2_fee_ok f" and "client_notes ns"
  shows "\<exists>e. spend_excess f ns (excess, sel) = (Ok (e, sel @ ns) :: ('e, _) result)
    \<and> unat e = unat excess - notes_value f ns"
  using assms(2)
proof (induction ns arbitrary: excess sel)
  case (Cons n ns)
  obtain v where v: "note_value f n = (Ok v :: ('e, amount) result)"
    "unat v = worth (sn_denomination n) - fee_nat f (sn_denomination n)"
    using note_value_eq [OF f, of n] Cons.prems by auto
  have "client_notes ns" using Cons.prems by simp
  from Cons.IH [OF this, of "amount_saturating_sub excess v" "sel @ [n]"] v show ?case
    by (auto simp: amount_saturating_sub_def checked_simps)
qed simp

lemma spend_until_covered_eq:
  assumes f: "mintv2_fee_ok f" and "client_notes ns" and "excess \<noteq> 0"
  shows "(\<exists>ms rest. spend_until_covered f ns excess sel = (Ok (Some (sel @ ms)) :: ('e, _) result)
      \<and> ns = ms @ rest \<and> unat excess \<le> notes_value f ms)
    \<or> spend_until_covered f ns excess sel = (Ok None :: ('e, _) result) \<and> notes_value f ns < unat excess"
  using assms(2,3)
proof (induction ns arbitrary: excess sel)
  case Nil
  then show ?case by (simp add: unat_gt_0)
next
  case (Cons n ns)
  obtain v where v: "note_value f n = (Ok v :: ('e, amount) result)"
    "unat v = worth (sn_denomination n) - fee_nat f (sn_denomination n)"
    using note_value_eq [OF f, of n] Cons.prems by auto
  let ?e = "amount_saturating_sub excess v"
  have e: "unat ?e = unat excess - unat v"
    by (simp add: amount_saturating_sub_def checked_simps)
  show ?case
  proof (cases "?e = 0")
    case True
    then have "unat excess \<le> unat v"
      using e by (simp add: unat_eq_0 [symmetric])
    then show ?thesis
      using True v by - (rule disjI1, rule exI [of _ "[n]"], rule exI [of _ ns], simp)
  next
    case False
    have "client_notes ns" using Cons.prems by simp
    from Cons.IH [OF this False, of "sel @ [n]"] show ?thesis
    proof (elim disjE exE conjE)
      fix ms rest
      assume "spend_until_covered f ns ?e (sel @ [n]) = (Ok (Some ((sel @ [n]) @ ms)) :: ('e, _) result)"
        and "ns = ms @ rest" and "unat ?e \<le> notes_value f ms"
      then show ?thesis
        using False v e by - (rule disjI1, rule exI [of _ "n # ms"], rule exI [of _ rest], simp add: Let_def)
    next
      assume "spend_until_covered f ns ?e (sel @ [n]) = (Ok None :: ('e, _) result)" and "notes_value f ns < unat ?e"
      then show ?thesis
        using False v e by (simp add: Let_def)
    qed
  qed
qed

lemma gather_notes_eq:
  assumes f: "mintv2_fee_ok f" and "set ds \<subseteq> set client_denominations"
  shows "\<exists>e sel' target' excess'. gather_notes f t ds (excess, sel) target ex
      = (Ok ((e, sel @ sel'), target @ target', ex @ excess') :: ('e, _) result)
    \<and> unat e = unat excess - notes_value f sel'
    \<and> mset sel' + mset target' + mset excess' = mset (concat (map (notes_of t) ds))"
  using assms(2)
proof (induction ds arbitrary: excess sel target ex)
  case (Cons d ds)
  let ?ns = "notes_of t d" and ?k = TARGET_PER_DENOMINATION
  have ns: "mset (take ?k ?ns) + mset (drop ?k ?ns) = mset ?ns"
    by (metis append_take_drop_id mset_append)
  show ?case
  proof (cases "2 * ?k < length ?ns")
    case True
    have "client_notes (drop ?k ?ns)"
      using Cons.prems by (auto simp: notes_of_def dest!: in_set_dropD)
    from spend_excess_eq [OF f this, of excess sel, where 'e = 'e] obtain e where
      e: "spend_excess f (drop ?k ?ns) (excess, sel) = (Ok (e, sel @ drop ?k ?ns) :: ('e, _) result)"
        "unat e = unat excess - notes_value f (drop ?k ?ns)"
      by blast
    have "set ds \<subseteq> set client_denominations" using Cons.prems by simp
    from Cons.IH [OF this, of e "sel @ drop ?k ?ns" "target @ take ?k ?ns" ex] obtain e' sel' target' excess' where
      "gather_notes f t ds (e, sel @ drop ?k ?ns) (target @ take ?k ?ns) ex
        = (Ok ((e', (sel @ drop ?k ?ns) @ sel'), (target @ take ?k ?ns) @ target', ex @ excess') :: ('e, _) result)"
      "unat e' = unat e - notes_value f sel'"
      "mset sel' + mset target' + mset excess' = mset (concat (map (notes_of t) ds))"
      by blast
    then show ?thesis
      using True e ns by - (rule exI [of _ e'], rule exI [of _ "drop ?k ?ns @ sel'"], rule exI [of _ "take ?k ?ns @ target'"], rule exI [of _ excess'], simp add: Let_def ac_simps)
  next
    case False
    have "set ds \<subseteq> set client_denominations" using Cons.prems by simp
    from Cons.IH [OF this, of excess sel "target @ take ?k ?ns" "ex @ drop ?k ?ns"] obtain e' sel' target' excess' where
      "gather_notes f t ds (excess, sel) (target @ take ?k ?ns) (ex @ drop ?k ?ns)
        = (Ok ((e', sel @ sel'), (target @ take ?k ?ns) @ target', (ex @ drop ?k ?ns) @ excess') :: ('e, _) result)"
      "unat e' = unat excess - notes_value f sel'"
      "mset sel' + mset target' + mset excess' = mset (concat (map (notes_of t) ds))"
      by blast
    then show ?thesis
      using False ns by - (rule exI [of _ e'], rule exI [of _ sel'], rule exI [of _ "take ?k ?ns @ target'"], rule exI [of _ "drop ?k ?ns @ excess'"], simp add: Let_def ac_simps)
  qed
qed simp

lemma mset_notes_of:
  "distinct ds \<Longrightarrow> mset (concat (map (notes_of t) ds)) = mset (filter (\<lambda>n. sn_denomination n \<in> set ds) (bt_values t))"
proof (induction ds)
  case (Cons d ds)
  have "filter_mset (\<lambda>n. sn_denomination n = d) M + filter_mset (\<lambda>n. sn_denomination n \<in> set ds) M
      = filter_mset (\<lambda>n. sn_denomination n = d \<or> sn_denomination n \<in> set ds) M" for M :: "'a spendable_note multiset"
    using Cons.prems by (induction M) auto
  then show ?case
    using Cons by (simp add: notes_of_def)
qed simp

lemma distinct_client_denominations: "distinct client_denominations"
proof -
  have "inj_on (of_nat :: nat \<Rightarrow> u8) {9..<42}"
  proof (rule inj_onI)
    fix x y :: nat
    assume "x \<in> {9..<42}" "y \<in> {9..<42}" "(of_nat x :: u8) = of_nat y"
    then have "unat (of_nat x :: u8) = unat (of_nat y :: u8)" "x < 2 ^ 8" "y < 2 ^ 8"
      by simp_all
    then show "x = y"
      by (simp add: unat_of_nat)
  qed
  then show ?thesis
    unfolding client_denominations_def distinct_map by simp
qed

text \<open>Funds are selected whenever the notes cover the request, net of their own fees.\<close>

lemma select_funding_input_eq:
  assumes f: "mintv2_fee_ok f" and cn: "client_notes (bt_values t)"
  shows "(\<exists>ns. select_funding_input f t request = (Ok (Some ns) :: ('e, _) result)
      \<and> mset ns \<subseteq># mset (bt_values t) \<and> unat request \<le> notes_value f ns)
    \<or> select_funding_input f t request = (Ok None :: ('e, _) result) \<and> notes_value f (bt_values t) < unat request"
proof -
  obtain e sel target ex where
    g: "gather_notes f t (rev client_denominations) (request, []) [] [] = (Ok ((e, sel), target, ex) :: ('e, _) result)"
      "unat e = unat request - notes_value f sel"
    and "mset sel + mset target + mset ex = mset (concat (map (notes_of t) (rev client_denominations)))"
    using gather_notes_eq [OF f, of "rev client_denominations" t request "[]" "[]" "[]", where 'e = 'e] by auto
  then have m: "mset (sel @ ex @ target) = mset (bt_values t)"
    using cn distinct_client_denominations by (simp add: mset_notes_of ac_simps)
  show ?thesis
  proof (cases "e = 0")
    case True
    then have "unat request \<le> notes_value f sel"
      using g(2) by (simp add: unat_eq_0 [symmetric])
    moreover have "mset sel \<subseteq># mset (bt_values t)"
      unfolding m [symmetric] by simp
    ultimately show ?thesis
      using True g(1) by (simp add: select_funding_input_def)
  next
    case False
    have "client_notes (ex @ target)"
      using cn mset_eq_setD [OF m] by auto
    from spend_until_covered_eq [OF f this False, of sel, where 'e = 'e] show ?thesis
    proof (elim disjE exE conjE)
      fix ms rest
      assume *: "spend_until_covered f (ex @ target) e sel = (Ok (Some (sel @ ms)) :: ('e, _) result)"
        "ex @ target = ms @ rest" "unat e \<le> notes_value f ms"
      have "mset (sel @ ms) \<subseteq># mset (bt_values t)"
        unfolding m [symmetric] *(2) by simp
      moreover have "unat request \<le> notes_value f (sel @ ms)"
        using g(2) *(3) by simp
      ultimately show ?thesis
        using False g(1) *(1) by (simp add: select_funding_input_def)
    next
      assume *: "spend_until_covered f (ex @ target) e sel = (Ok None :: ('e, _) result)" "notes_value f (ex @ target) < unat e"
      have "notes_value f (bt_values t) = notes_value f sel + notes_value f (ex @ target)"
        using notes_value_mset [OF m, of f] by simp
      then show ?thesis
        using False g *(1,2) by (simp add: select_funding_input_def)
    qed
  qed
qed

subsection \<open>Rebalancing\<close>

lemma rebalance_missing_eq:
  assumes f: "mintv2_fee_ok f" and d: "d \<in> set client_denominations"
    and "client_notes stream" and "unat excess + notes_worth stream < 2 ^ 63"
  shows "\<exists>e rest ms os. rebalance_missing f d k (excess, stream, ins, outs)
      = (Ok (e, rest, ins @ ms, outs @ os) :: ('e, _) result)
    \<and> unat e + outputs_cost f os = unat excess + notes_worth ms
    \<and> mset ms + mset rest \<subseteq># mset stream \<and> set os \<subseteq> {d}"
  using assms(3,4)
proof (induction k arbitrary: excess stream ins outs)
  case (Suc k)
  obtain c where c: "output_cost f d = (Ok c :: ('e, amount) result)" "unat c = worth d + fee_nat f d"
    using output_cost_eq [OF f d] by blast
  show ?case
  proof (cases "c \<le> excess")
    case True
    then have e: "unat (excess - c) + unat c = unat excess"
      by (simp add: unat_sub word_le_nat_alt)
    then have "unat (excess - c) + notes_worth stream < 2 ^ 63"
      using Suc.prems(2) by linarith
    from Suc.IH [OF Suc.prems(1) this, of ins "outs @ [d]"] obtain e rest ms os where
      "rebalance_missing f d k (excess - c, stream, ins, outs @ [d])
        = (Ok (e, rest, ins @ ms, (outs @ [d]) @ os) :: ('e, _) result)"
      "unat e + outputs_cost f os = unat (excess - c) + notes_worth ms"
      "mset ms + mset rest \<subseteq># mset stream" "set os \<subseteq> {d}"
      by blast
    then show ?thesis
      using True c e by - (rule exI [of _ e], rule exI [of _ rest], rule exI [of _ ms], rule exI [of _ "d # os"], simp add: amount_checked_sub_def checked_sub_def)
  next
    case False
    note less = False
    show ?thesis
    proof (cases "stream")
      case Nil
      then show ?thesis
        using False c by (simp add: amount_checked_sub_def checked_sub_def)
    next
      case (Cons n ns)
      show ?thesis
      proof (cases "sn_amount n \<le> c")
        case True
        then show ?thesis
          using Cons less c by (simp add: amount_checked_sub_def checked_sub_def)
      next
        case False
        let ?a = "amount_add excess (amount_sub (sn_amount n) c)"
        have n: "unat (sn_amount n) = worth (sn_denomination n)"
          by (simp add: sn_amount_def)
        have "unat (sn_amount n - c) + unat c = unat (sn_amount n)"
          using False by (simp add: unat_sub word_le_nat_alt)
        moreover from this have "unat excess + unat (sn_amount n - c) < 2 ^ 64"
          using Suc.prems(2) n Cons by simp
        ultimately have a: "unat ?a + unat c = unat excess + worth (sn_denomination n)"
          unfolding amount_add_def amount_sub_def n [symmetric] by (subst unat_plus_small) simp_all
        then have "unat ?a + notes_worth ns < 2 ^ 63"
          using Suc.prems(2) Cons by simp
        moreover have "client_notes ns" using Suc.prems(1) Cons by simp
        ultimately obtain e rest ms os where
          "rebalance_missing f d k (?a, ns, ins @ [n], outs @ [d])
            = (Ok (e, rest, (ins @ [n]) @ ms, (outs @ [d]) @ os) :: ('e, _) result)"
          "unat e + outputs_cost f os = unat ?a + notes_worth ms"
          "mset ms + mset rest \<subseteq># mset ns" "set os \<subseteq> {d}"
          using Suc.IH [of ns ?a "ins @ [n]" "outs @ [d]"] by blast
        then show ?thesis
          using False less Cons c a by - (rule exI [of _ e], rule exI [of _ rest], rule exI [of _ "n # ms"], rule exI [of _ "d # os"], simp add: amount_checked_sub_def checked_sub_def)
      qed
    qed
  qed
qed simp

lemma notes_worth_subset: "mset ms \<subseteq># mset ns \<Longrightarrow> notes_worth ms \<le> notes_worth ns"
  unfolding notes_worth_def sum_mset_sum_list [symmetric] mset_map
  by (metis image_mset_union le_add1 mset_subset_eq_exists_conv sum_mset.union)

lemma client_notes_subset: "mset ms \<subseteq># mset ns \<Longrightarrow> client_notes ns \<Longrightarrow> client_notes ms"
  by (metis mset_subset_eqD set_mset_mset)

lemma rebalance_loop_eq:
  assumes f: "mintv2_fee_ok f" and "set ds \<subseteq> set client_denominations"
    and "client_notes stream" and "unat excess + notes_worth stream < 2 ^ 63"
  shows "\<exists>e rest ms os. rebalance_loop f counts ds (excess, stream, ins, outs)
      = (Ok (e, rest, ins @ ms, outs @ os) :: ('e, _) result)
    \<and> unat e + outputs_cost f os = unat excess + notes_worth ms
    \<and> mset ms + mset rest \<subseteq># mset stream \<and> set os \<subseteq> set client_denominations"
  using assms(2-4)
proof (induction ds arbitrary: excess stream ins outs)
  case (Cons d ds)
  let ?k = "TARGET_PER_DENOMINATION - unat (case bt_get counts d of None \<Rightarrow> 0 | Some n \<Rightarrow> n)"
  have d: "d \<in> set client_denominations" using Cons.prems(1) by simp
  obtain e rest ms os where
    1: "rebalance_missing f d ?k (excess, stream, ins, outs) = (Ok (e, rest, ins @ ms, outs @ os) :: ('e, _) result)"
      "unat e + outputs_cost f os = unat excess + notes_worth ms"
      "mset ms + mset rest \<subseteq># mset stream" "set os \<subseteq> {d}"
    using rebalance_missing_eq [OF f d Cons.prems(2,3), of ?k ins outs, where 'e = 'e] by blast
  have "mset (ms @ rest) \<subseteq># mset stream"
    using 1(3) by simp
  from notes_worth_subset [OF this] client_notes_subset [OF this Cons.prems(2)]
  have "unat e + notes_worth rest < 2 ^ 63" "client_notes rest" "set ds \<subseteq> set client_denominations"
    using 1(2) Cons.prems(1,3) by auto
  from Cons.IH [OF this(3,2,1), of "ins @ ms" "outs @ os"] obtain e' rest' ms' os' where
    2: "rebalance_loop f counts ds (e, rest, ins @ ms, outs @ os)
        = (Ok (e', rest', (ins @ ms) @ ms', (outs @ os) @ os') :: ('e, _) result)"
      "unat e' + outputs_cost f os' = unat e + notes_worth ms'"
      "mset ms' + mset rest' \<subseteq># mset rest" "set os' \<subseteq> set client_denominations"
    by blast
  have "mset ms + (mset ms' + mset rest') \<subseteq># mset stream"
    using subset_mset.order_trans [OF subset_mset.add_left_mono [OF 2(3)] 1(3)] .
  then show ?case
    using 1 2 d by - (rule exI [of _ e'], rule exI [of _ rest'], rule exI [of _ "ms @ ms'"], rule exI [of _ "os @ os'"],
      auto simp: Let_def ac_simps)
qed simp

subsection \<open>Greedy representation\<close>

lemma represent_loop_eq:
  fixes g :: "denomination \<Rightarrow> nat"
  assumes "\<And>d. d \<in> set ds \<Longrightarrow> \<exists>c. cost d = (Ok c :: ('e, amount) result) \<and> unat c = g d \<and> 0 < g d"
  shows "\<exists>rest es. represent_loop cost ds a acc = (Ok (rest, acc @ es) :: ('e, _) result)
    \<and> unat rest + (\<Sum>d\<leftarrow>es. g d) = unat a \<and> set es \<subseteq> set ds \<and> (ds \<noteq> [] \<longrightarrow> unat rest < g (last ds))"
  using assms
proof (induction ds arbitrary: a acc)
  case (Cons d ds)
  obtain c where c: "cost d = (Ok c :: ('e, amount) result)" "unat c = g d" "0 < g d"
    using Cons.prems [of d] by auto
  let ?n = "a div c" and ?r = "a - c * (a div c)"
  have "?r = a mod c"
    by (simp add: minus_mult_div_eq_mod)
  then have r: "unat ?r + unat ?n * g d = unat a" "unat ?r < g d"
    using c by (simp_all add: unat_mod_word unat_div_word)
  obtain rest es where
    1: "represent_loop cost ds ?r (acc @ replicate (unat ?n) d)
        = (Ok (rest, (acc @ replicate (unat ?n) d) @ es) :: ('e, _) result)"
      "unat rest + (\<Sum>d\<leftarrow>es. g d) = unat ?r" "set es \<subseteq> set ds" "ds \<noteq> [] \<longrightarrow> unat rest < g (last ds)"
    using Cons.IH [of ?r "acc @ replicate (unat ?n) d"] Cons.prems by auto
  moreover have "c \<noteq> 0"
    using c by auto
  moreover have "unat rest < g d" if "ds = []"
    using 1(2) r(2) that by simp
  ultimately show ?case
    using r c by - (rule exI [of _ rest], rule exI [of _ "replicate (unat ?n) d @ es"],
      auto simp: amount_div_def amount_sub_def amount_mul_u64_def sum_list_replicate)
qed simp

lemma last_rev_client: "client_denominations \<noteq> []" "last (rev client_denominations) = 9"
  by (simp_all add: client_denominations_def)

lemma represent_amount_with_fees_eq:
  assumes f: "mintv2_fee_ok f"
  shows "\<exists>ds rest. represent_amount_with_fees a f = (Ok ds :: ('e, _) result)
    \<and> rest + outputs_cost f ds = unat a \<and> rest < worth 9 + fee_nat f 9 \<and> set ds \<subseteq> set client_denominations"
proof -
  have "\<exists>c. output_cost f d = (Ok c :: ('e, amount) result) \<and> unat c = worth d + fee_nat f d \<and> 0 < worth d + fee_nat f d"
    if "d \<in> set (rev client_denominations)" for d
    using output_cost_eq [OF f, of d] worth_bounds [of d] that by force
  from represent_loop_eq [of "rev client_denominations" "output_cost f" "\<lambda>d. worth d + fee_nat f d" a "[]", OF this]
  obtain rest es where
    "represent_loop (output_cost f) (rev client_denominations) a [] = (Ok (rest, es) :: ('e, _) result)"
    "unat rest + outputs_cost f es = unat a" "set es \<subseteq> set client_denominations"
    "unat rest < worth 9 + fee_nat f 9"
    by (auto simp: last_rev_client outputs_cost_def)
  moreover have "outputs_cost f (sort es) = outputs_cost f es"
    unfolding outputs_cost_def sum_mset_sum_list [symmetric] mset_map mset_sort ..
  ultimately show ?thesis
    by (auto simp: represent_amount_with_fees_def intro!: exI [of _ "sort es"] exI [of _ "unat rest"])
qed

subsection \<open>Removing notes\<close>

definition table_ok :: "'g1 v2_client \<Rightarrow> 'g1 note_table \<Rightarrow> bool" where
  "table_ok cl t \<longleftrightarrow> bt_wf t \<and> (\<forall>(k, n)\<in>set t. k = note_key cl n) \<and> client_notes (bt_values t)"

lemma bt_remove_values:
  assumes "bt_wf t" and "bt_get t k = Some n"
  shows "add_mset n (mset (bt_values (bt_remove k t))) = mset (bt_values t)"
  using assms
proof (induction t)
  case (Cons p t)
  obtain j m where p: "p = (j, m)" by (cases p)
  show ?case
  proof (cases "j = k")
    case True
    have "\<forall>(j, m)\<in>set t. j \<noteq> k"
      using Cons.prems(1) True p by (auto simp: bt_wf_Cons)
    then have "bt_remove k t = t"
      by (auto simp: bt_remove_def intro!: filter_True)
    then have "bt_remove k (p # t) = t"
      using True p by (simp add: bt_remove_def)
    then show ?thesis
      using Cons.prems(2) True p by (simp add: bt_values_def)
  next
    case False
    then have "bt_remove k (p # t) = p # bt_remove k t"
      using p by (simp add: bt_remove_def)
    then show ?thesis
      using Cons False p by (simp add: bt_wf_Cons bt_values_def add_mset_commute)
  qed
qed simp

lemma remove_spendable_note_eq:
  assumes "table_ok cl t" and "n \<in> set (bt_values t)"
  shows "\<exists>t'. remove_spendable_note cl n t = (Ok t' :: ('e, _) result) \<and> table_ok cl t'
    \<and> add_mset n (mset (bt_values t')) = mset (bt_values t)"
proof -
  have "(note_key cl n, n) \<in> set t"
    using assms by (auto simp: table_ok_def bt_values_def)
  then have get: "bt_get t (note_key cl n) = Some n"
    using assms(1) by (simp add: table_ok_def bt_wf_def strict_sorted_iff)
  have "set (bt_remove (note_key cl n) t) \<subseteq> set t"
    by (auto simp: bt_remove_def)
  then have "table_ok cl (bt_remove (note_key cl n) t)"
    using assms(1) by (auto simp: table_ok_def bt_values_def)
  then show ?thesis
    using get bt_remove_values [OF _ get] assms(1)
    by (simp add: remove_spendable_note_def remove_entry_def table_ok_def)
qed

lemma remove_spendable_notes_eq:
  assumes "table_ok cl t" and "mset ns \<subseteq># mset (bt_values t)"
  shows "\<exists>t'. remove_spendable_notes cl ns t = (Ok t' :: ('e, _) result) \<and> table_ok cl t'
    \<and> mset (bt_values t') + mset ns = mset (bt_values t)"
  using assms
proof (induction ns arbitrary: t)
  case (Cons n ns)
  then have "n \<in> set (bt_values t)"
    by (metis list.set_intros(1) mset_subset_eqD set_mset_mset)
  from remove_spendable_note_eq [OF Cons.prems(1) this, where 'e = 'e] obtain t1 where
    t1: "remove_spendable_note cl n t = (Ok t1 :: ('e, _) result)" "table_ok cl t1"
      "add_mset n (mset (bt_values t1)) = mset (bt_values t)"
    by blast
  then have "mset ns \<subseteq># mset (bt_values t1)"
    using Cons.prems(2) by (metis mset.simps(2) mset_subset_eq_add_mset_cancel)
  from Cons.IH [OF t1(2) this] t1(1,3) show ?case
    by auto
qed simp

lemma fee_sum_eq:
  assumes f: "mintv2_fee_ok f" and "client_notes ns" and "notes_worth ns < 2 ^ 63"
  shows "\<exists>s. fee_sum f ns = (Ok s :: ('e, amount) result) \<and> unat s = notes_fees f ns"
proof -
  let ?as = "map (\<lambda>n. fee_of f (sn_amount n)) ns"
  have "traverse (\<lambda>n. mintv2_fee f (sn_amount n)) ns = (Ok ?as :: ('e, _) result)"
    by (intro traverse_Ok) (simp add: fee_bound(1) [OF f])
  moreover have "(\<Sum>a\<leftarrow>?as. unat a) = notes_fees f ns"
    by (simp add: notes_fees_def sn_amount_def comp_def)
  moreover have "notes_fees f ns \<le> notes_worth ns"
    using notes_value_worth [OF f assms(2)] by linarith
  ultimately show ?thesis
    using assms(3) unat_amount_sum [of ?as] by (simp add: fee_sum_def)
qed

lemma output_costs_eq:
  assumes f: "mintv2_fee_ok f" and "set ds \<subseteq> set client_denominations" and "outputs_cost f ds < 2 ^ 64"
  shows "\<exists>s. map_ok amount_sum (traverse (output_cost f) ds) = (Ok s :: ('e, amount) result) \<and> unat s = outputs_cost f ds"
proof -
  let ?c = "\<lambda>d. amount_add (denomination_amount d) (fee_of f (denomination_amount d))"
  have c: "output_cost f d = (Ok (?c d) :: ('e, amount) result)" for d
    by (simp add: output_cost_def fee_bound(1) [OF f])
  have "unat (?c d) = worth d + fee_nat f d" if "d \<in> set ds" for d
    using output_cost_eq [OF f, of d, where 'e = 'e] c [of d] assms(2) that by auto
  then have "map (\<lambda>d. unat (?c d)) ds = map (\<lambda>d. worth d + fee_nat f d) ds"
    by simp
  then have "(\<Sum>a\<leftarrow>map ?c ds. unat a) = outputs_cost f ds"
    by (simp only: outputs_cost_def map_map comp_def)
  moreover have "traverse (output_cost f) ds = (Ok (map ?c ds) :: ('e, _) result)"
    by (intro traverse_Ok c)
  ultimately show ?thesis
    using assms(3) unat_amount_sum [of "map ?c ds"] by simp
qed

subsection \<open>The outcome of balancing\<close>

text \<open>Whether rebalancing after funding leaves less than the fees of the notes it spends.\<close>

definition rebalance_overspends :: "'g1 v2_client \<Rightarrow> 'g1 note_table \<Rightarrow> amount \<Rightarrow> amount \<Rightarrow> bool" where
  "rebalance_overspends cl t input_amount output_amount \<longleftrightarrow>
     (\<exists>funding t1 e rest ins outs.
        select_funding_input (v2c_fee_consensus cl) t (amount_saturating_sub output_amount input_amount)
          = (Ok (Some funding) :: (v2_client_error, _) result)
      \<and> remove_spendable_notes cl funding t = (Ok t1 :: (v2_client_error, _) result)
      \<and> rebalance (v2c_fee_consensus cl) t1 (of_nat (unat input_amount + notes_worth funding
            - (unat output_amount + notes_fees (v2c_fee_consensus cl) funding)))
          = (Ok (e, rest, ins, outs) :: (v2_client_error, _) result)
      \<and> unat e < notes_fees (v2c_fee_consensus cl) ins)"

lemma rebalance_eq:
  assumes f: "mintv2_fee_ok f" and t: "table_ok cl t" and small: "unat excess + notes_worth (bt_values t) < 2 ^ 63"
  shows "\<exists>e rest ms os. rebalance f t excess = (Ok (e, rest, ms, os) :: ('e, _) result)
    \<and> unat e + outputs_cost f os = unat excess + notes_worth ms
    \<and> mset ms \<subseteq># mset (bt_values t) \<and> set os \<subseteq> set client_denominations"
proof -
  let ?stream = "map snd (find_by_prefix_sorted_descending t)"
  have stream: "?stream = rev (bt_values t)"
    by (simp add: find_by_prefix_sorted_descending_def bt_values_def rev_map)
  then have "client_notes ?stream" "notes_worth ?stream = notes_worth (bt_values t)"
    using t notes_worth_mset [of "rev (bt_values t)" "bt_values t"] by (simp_all add: table_ok_def)
  with rebalance_loop_eq [OF f subset_refl, of ?stream excess "get_count_by_denomination t" "[]" "[]", where 'e = 'e] small
  obtain e rest ms os where "rebalance f t excess = (Ok (e, rest, ms, os) :: ('e, _) result)"
    "unat e + outputs_cost f os = unat excess + notes_worth ms"
    "mset ms + mset rest \<subseteq># mset ?stream" "set os \<subseteq> set client_denominations"
    by (auto simp: rebalance_def)
  moreover from this(3) have "mset ms \<subseteq># mset (bt_values t)"
    by (metis mset_rev mset_subset_eq_add_left stream subset_mset.order_trans)
  ultimately show ?thesis by blast
qed

lemma unat_sum_notes:
  "notes_worth ns < 2 ^ 64 \<Longrightarrow> unat (amount_sum (map sn_amount ns)) = notes_worth ns"
  using unat_amount_sum [of "map sn_amount ns"] by (simp add: notes_worth_def sn_amount_def comp_def)

lemma unat_amount_add: "unat a + unat b < 2 ^ 64 \<Longrightarrow> unat (amount_add a b) = unat a + unat b"
  by (simp add: amount_add_def unat_plus_small)

text \<open>The amounts after the funding notes are added.\<close>

lemma funded_amounts:
  assumes f: "mintv2_fee_ok f" and cn: "client_notes ns" and "unat inp + notes_worth ns < 2 ^ 62" and "unat outp < 2 ^ 62"
    and "unat outp - unat inp \<le> notes_value f ns"
  obtains s where "fee_sum f ns = (Ok s :: ('e, amount) result)"
    and "unat (amount_add inp (amount_sum (map sn_amount ns))) = unat inp + notes_worth ns"
    and "unat (amount_add outp s) = unat outp + notes_fees f ns"
    and "unat outp + notes_fees f ns \<le> unat inp + notes_worth ns"
proof -
  note val = notes_value_worth [OF f cn]
  obtain s where s: "fee_sum f ns = (Ok s :: ('e, amount) result)" "unat s = notes_fees f ns"
    using fee_sum_eq [OF f cn] assms(3) by auto
  show ?thesis
  proof (rule that [OF s(1)])
    show "unat (amount_add inp (amount_sum (map sn_amount ns))) = unat inp + notes_worth ns"
      using assms(3) by (subst unat_amount_add) (simp_all add: unat_sum_notes)
    show "unat (amount_add outp s) = unat outp + notes_fees f ns"
      using assms(3,4) val s(2) by (subst unat_amount_add) simp_all
    show "unat outp + notes_fees f ns \<le> unat inp + notes_worth ns"
      using assms(5) val by linarith
  qed
qed

text \<open>The amounts after rebalancing: \<open>e\<close> is the excess it reports.\<close>

lemma rebalanced_amounts:
  assumes f: "mintv2_fee_ok f" and cm: "client_notes ms" and os: "set os \<subseteq> set client_denominations"
    and i: "unat i + notes_worth ms < 2 ^ 62" and ot: "unat ot < 2 ^ 63" and le: "unat ot \<le> unat i"
    and e: "unat e + outputs_cost f os = unat i - unat ot + notes_worth ms"
  obtains s2 s3 where "fee_sum f ms = (Ok s2 :: ('e, amount) result)"
    and "map_ok amount_sum (traverse (output_cost f) os) = (Ok s3 :: ('e, amount) result)"
    and "amount_add (amount_add ot s2) s3 \<le> amount_add i (amount_sum (map sn_amount ms)) \<longleftrightarrow> \<not> unat e < notes_fees f ms"
    and "amount_saturating_sub (amount_add i (amount_sum (map sn_amount ms))) (amount_add (amount_add ot s2) s3)
        = of_nat (unat e - notes_fees f ms)"
proof -
  have vm: "notes_fees f ms \<le> notes_worth ms"
    using notes_value_worth [OF f cm] by linarith
  obtain s2 where s2: "fee_sum f ms = (Ok s2 :: ('e, amount) result)" "unat s2 = notes_fees f ms"
    using fee_sum_eq [OF f cm] i by auto
  have small: "outputs_cost f os < 2 ^ 64"
    using e i by simp
  obtain s3 where s3: "map_ok amount_sum (traverse (output_cost f) os) = (Ok s3 :: ('e, amount) result)"
      "unat s3 = outputs_cost f os"
    using output_costs_eq [OF f os small, where 'e = 'e] by blast
  have i2: "unat (amount_add i (amount_sum (map sn_amount ms))) = unat i + notes_worth ms"
    using i by (subst unat_amount_add) (simp_all add: unat_sum_notes)
  have "unat (amount_add ot s2) = unat ot + notes_fees f ms"
    using s2(2) vm i ot by (subst unat_amount_add) simp_all
  then have o2: "unat (amount_add (amount_add ot s2) s3) = unat ot + notes_fees f ms + outputs_cost f os"
    using s3(2) e i ot le vm by (subst unat_amount_add) simp_all
  show ?thesis
  proof (rule that [OF s2(1) s3(1)])
    show "amount_add (amount_add ot s2) s3 \<le> amount_add i (amount_sum (map sn_amount ms)) \<longleftrightarrow> \<not> unat e < notes_fees f ms"
      unfolding word_le_nat_alt i2 o2 using e le by linarith
    show "amount_saturating_sub (amount_add i (amount_sum (map sn_amount ms))) (amount_add (amount_add ot s2) s3)
        = of_nat (unat e - notes_fees f ms)"
      unfolding word_unat_eq_iff amount_saturating_sub_def unat_saturating_sub i2 o2
      using e le i by (subst unat_of_nat_u64) simp_all
  qed
qed

lemma create_final_funded:
  fixes cl :: "'g1 v2_client"
  defines "f \<equiv> v2c_fee_consensus cl"
  assumes f: "mintv2_fee_ok f" and t: "table_ok cl t" and small: "unat inp + notes_worth (bt_values t) < 2 ^ 62" and "unat outp < 2 ^ 62"
    and sel: "select_funding_input f t (amount_saturating_sub outp inp) = (Ok (Some ns) :: (v2_client_error, _) result)"
      "mset ns \<subseteq># mset (bt_values t)" "unat outp - unat inp \<le> notes_value f ns"
  obtains t1 t2 e rest ms os where "remove_spendable_notes cl ns t = (Ok t1 :: (v2_client_error, _) result)"
    and "rebalance f t1 (of_nat (unat inp + notes_worth ns - (unat outp + notes_fees f ns)))
        = (Ok (e, rest, ms, os) :: (v2_client_error, _) result)"
    and "mset (bt_values t2) + mset (ns @ ms) = mset (bt_values t)"
    and "unat e + outputs_cost f os + unat outp + notes_fees f ns = unat inp + notes_worth ns + notes_worth ms"
    and "create_final_inputs_and_outputs cl t (v2c_amount_unit cl) inp outp =
      (if unat e < notes_fees f ms then Panic
       else rbind (represent_amount_with_fees (of_nat (unat e - notes_fees f ms)) f) (\<lambda>change.
         Ok (t2, sort_key sn_denomination (ns @ ms), sort (change @ os))))"
proof -
  obtain t1 where t1: "remove_spendable_notes cl ns t = (Ok t1 :: (v2_client_error, _) result)" "table_ok cl t1"
      "mset (bt_values t1) + mset ns = mset (bt_values t)"
    using remove_spendable_notes_eq [OF t sel(2), where 'e = v2_client_error] by blast
  have w1: "notes_worth (bt_values t) = notes_worth ns + notes_worth (bt_values t1)"
    using notes_worth_mset [of "ns @ bt_values t1" "bt_values t"] t1(3) by (simp add: ac_simps)
  have "client_notes ns" "unat inp + notes_worth ns < 2 ^ 62"
    using client_notes_subset [OF sel(2)] t small w1 by (simp_all add: table_ok_def)
  then obtain s where s: "fee_sum f ns = (Ok s :: (v2_client_error, amount) result)"
      "unat (amount_add inp (amount_sum (map sn_amount ns))) = unat inp + notes_worth ns"
      "unat (amount_add outp s) = unat outp + notes_fees f ns" "unat outp + notes_fees f ns \<le> unat inp + notes_worth ns"
    using assms(5) sel(3) by (rule funded_amounts [OF f])
  let ?i = "amount_add inp (amount_sum (map sn_amount ns))" and ?o = "amount_add outp s"
  have le: "unat ?o \<le> unat ?i"
    using s(2-4) by simp
  have x: "unat (amount_sub ?i ?o) = unat ?i - unat ?o"
    using le by (simp add: amount_sub_def unat_sub word_le_nat_alt)
  have "of_nat (unat (amount_sub ?i ?o)) = amount_sub ?i ?o"
    by simp
  then have ex: "amount_sub ?i ?o = of_nat (unat inp + notes_worth ns - (unat outp + notes_fees f ns))"
    unfolding x s(2,3) by (rule sym)
  have "unat (amount_sub ?i ?o) + notes_worth (bt_values t1) < 2 ^ 63"
    unfolding x s(2) using small w1 by simp
  then obtain e rest ms os where
    r: "rebalance f t1 (amount_sub ?i ?o) = (Ok (e, rest, ms, os) :: (v2_client_error, _) result)"
      "unat e + outputs_cost f os = unat ?i - unat ?o + notes_worth ms"
      "mset ms \<subseteq># mset (bt_values t1)" "set os \<subseteq> set client_denominations"
    using rebalance_eq [OF f t1(2), where 'e = v2_client_error] x by metis
  obtain t2 where t2: "remove_spendable_notes cl ms t1 = (Ok t2 :: (v2_client_error, _) result)"
      "mset (bt_values t2) + mset ms = mset (bt_values t1)"
    using remove_spendable_notes_eq [OF t1(2) r(3), where 'e = v2_client_error] by blast
  have b: "client_notes ms" "unat ?i + notes_worth ms < 2 ^ 62" "unat ?o < 2 ^ 63"
    using client_notes_subset [OF r(3)] t1(2) notes_worth_subset [OF r(3)] small w1 le s(2) by (simp_all add: table_ok_def)
  obtain s2 s3 where s23: "fee_sum f ms = (Ok s2 :: (v2_client_error, amount) result)"
      "map_ok amount_sum (traverse (output_cost f) os) = (Ok s3 :: (v2_client_error, amount) result)"
      "amount_add (amount_add ?o s2) s3 \<le> amount_add ?i (amount_sum (map sn_amount ms)) \<longleftrightarrow> \<not> unat e < notes_fees f ms"
      "amount_saturating_sub (amount_add ?i (amount_sum (map sn_amount ms))) (amount_add (amount_add ?o s2) s3)
        = of_nat (unat e - notes_fees f ms)"
    by (rule rebalanced_amounts [OF f b(1) r(4) b(2,3) le r(2)])
  show ?thesis
  proof (rule that [OF t1(1) r(1) [unfolded ex]])
    show "mset (bt_values t2) + mset (ns @ ms) = mset (bt_values t)"
      unfolding t1(3) [symmetric] t2(2) [symmetric] by (simp add: ac_simps)
    show "unat e + outputs_cost f os + unat outp + notes_fees f ns = unat inp + notes_worth ns + notes_worth ms"
      using r(2) s(2-4) by linarith
    show "create_final_inputs_and_outputs cl t (v2c_amount_unit cl) inp outp =
      (if unat e < notes_fees f ms then Panic
       else rbind (represent_amount_with_fees (of_nat (unat e - notes_fees f ms)) f) (\<lambda>change.
         Ok (t2, sort_key sn_denomination (ns @ ms), sort (change @ os))))"
      unfolding create_final_inputs_and_outputs_def Let_def f_def [symmetric] sel(1) using le
      by (simp add: t1(1) s(1) r(1) t2(1) s23 word_le_nat_alt [of ?o])
  qed
qed

lemma notes_fees_mset: "mset ns = mset ms \<Longrightarrow> notes_fees f ns = notes_fees f ms"
  unfolding notes_fees_def by (simp only: sum_mset_sum_list [symmetric] mset_map)

lemma outputs_cost_mset: "mset ds = mset es \<Longrightarrow> outputs_cost f ds = outputs_cost f es"
  unfolding outputs_cost_def by (simp only: sum_mset_sum_list [symmetric] mset_map)

text \<open>
  C40: balancing a transaction in \<open>create_final_inputs_and_outputs\<close>. A balanced transaction
  spends notes of the table and creates outputs whose cost, with the fees of the notes, is covered
  by what comes in, and what is given up is less than the cheapest output. An error is only
  returned when the notes, net of their fees, do not cover the request. The function panics exactly
  when rebalancing overspends: \<open>rebalance\<close> does not account for the fees of the notes it spends.
\<close>

theorem mintv2_balancing:
  assumes f: "mintv2_fee_ok (v2c_fee_consensus cl)" and t: "table_ok cl t"
    and small: "unat inp + notes_worth (bt_values t) < 2 ^ 62" "unat outp < 2 ^ 62"
  shows "(create_final_inputs_and_outputs cl t (v2c_amount_unit cl) inp outp = Panic \<longleftrightarrow> rebalance_overspends cl t inp outp) \<and>
    (case create_final_inputs_and_outputs cl t (v2c_amount_unit cl) inp outp of
       Ok (t', ns, ds) \<Rightarrow> mset (bt_values t') + mset ns = mset (bt_values t) \<and>
         (\<exists>rest < worth 9 + fee_nat (v2c_fee_consensus cl) 9. unat inp + notes_worth ns =
           unat outp + notes_fees (v2c_fee_consensus cl) ns + outputs_cost (v2c_fee_consensus cl) ds + rest)
     | Err e \<Rightarrow> notes_value (v2c_fee_consensus cl) (bt_values t) < unat outp - unat inp
     | Panic \<Rightarrow> True)"
proof -
  let ?f = "v2c_fee_consensus cl"
  have cn: "client_notes (bt_values t)" using t by (simp add: table_ok_def)
  have req: "unat (amount_saturating_sub outp inp) = unat outp - unat inp"
    by (simp add: amount_saturating_sub_def checked_simps)
  from select_funding_input_eq [OF f cn, of "amount_saturating_sub outp inp", where 'e = v2_client_error]
  show ?thesis
  proof (elim disjE exE conjE)
    assume "select_funding_input ?f t (amount_saturating_sub outp inp) = (Ok None :: (v2_client_error, _) result)"
      and "notes_value ?f (bt_values t) < unat (amount_saturating_sub outp inp)"
    then show ?thesis
      by (simp add: create_final_inputs_and_outputs_def Let_def rebalance_overspends_def req)
  next
    fix ns
    assume sel: "select_funding_input ?f t (amount_saturating_sub outp inp) = (Ok (Some ns) :: (v2_client_error, _) result)"
      "mset ns \<subseteq># mset (bt_values t)" "unat (amount_saturating_sub outp inp) \<le> notes_value ?f ns"
    obtain t1 t2 e rest ms os where *: "remove_spendable_notes cl ns t = (Ok t1 :: (v2_client_error, _) result)"
        "rebalance ?f t1 (of_nat (unat inp + notes_worth ns - (unat outp + notes_fees ?f ns)))
          = (Ok (e, rest, ms, os) :: (v2_client_error, _) result)"
        "mset (bt_values t2) + mset (ns @ ms) = mset (bt_values t)"
        "unat e + outputs_cost ?f os + unat outp + notes_fees ?f ns = unat inp + notes_worth ns + notes_worth ms"
        "create_final_inputs_and_outputs cl t (v2c_amount_unit cl) inp outp =
          (if unat e < notes_fees ?f ms then Panic
           else rbind (represent_amount_with_fees (of_nat (unat e - notes_fees ?f ms)) ?f) (\<lambda>change.
             Ok (t2, sort_key sn_denomination (ns @ ms), sort (change @ os))))"
      by (rule create_final_funded [OF f t small sel(1,2) sel(3) [unfolded req]])
    have over: "rebalance_overspends cl t inp outp \<longleftrightarrow> unat e < notes_fees ?f ms"
      unfolding rebalance_overspends_def using sel(1) *(1,2) by auto
    have "unat e - notes_fees ?f ms < 2 ^ 64"
      by (rule le_less_trans [OF diff_le_self]) (use unsigned_less [of e, where 'a = nat] in simp)
    note fits = unat_of_nat_u64 [OF this]
    obtain change left where c: "represent_amount_with_fees (of_nat (unat e - notes_fees ?f ms)) ?f = (Ok change :: (v2_client_error, _) result)"
        "left + outputs_cost ?f change = unat e - notes_fees ?f ms" "left < worth 9 + fee_nat ?f 9"
      using represent_amount_with_fees_eq [OF f, of "of_nat (unat e - notes_fees ?f ms)", where 'e = v2_client_error]
      unfolding fits by blast
    have sums: "notes_worth (sort_key sn_denomination (ns @ ms)) = notes_worth ns + notes_worth ms"
      "notes_fees ?f (sort_key sn_denomination (ns @ ms)) = notes_fees ?f ns + notes_fees ?f ms"
      "outputs_cost ?f (sort (change @ os)) = outputs_cost ?f change + outputs_cost ?f os"
      unfolding notes_worth_mset [OF mset_sort] notes_fees_mset [OF mset_sort] outputs_cost_mset [OF mset_sort] by simp_all
    show ?thesis
    proof (cases "unat e < notes_fees ?f ms")
      case False
      then have "unat inp + (notes_worth ns + notes_worth ms) = unat outp + (notes_fees ?f ns + notes_fees ?f ms)
          + (outputs_cost ?f change + outputs_cost ?f os) + left"
        using *(4) c(2) by linarith
      then show ?thesis
        using False c(1,3) *(3) by (simp add: over *(5) sums del: sort_key_simps)
    qed (simp add: over *(5))
  qed
qed

definition sample_client :: "nat v2_client" where
  "sample_client = \<lparr>v2c_fee_consensus = \<lparr>fc_base = 100, fc_ppm = 0\<rparr>, v2c_amount_unit = 0, v2c_note_bytes = (\<lambda>n. [])\<rparr>"

definition sample_spendable :: "nat spendable_note" where
  "sample_spendable = \<lparr>sn_denomination = 12, sn_keypair = \<lparr>kp_secret = [], kp_public = []\<rparr>, sn_signature = 1\<rparr>"

lemma client_denominations_eval: "client_denominations =
  [9, 10, 11, 12, 13, 14, 15, 16, 17, 18, 19, 20, 21, 22, 23, 24, 25, 26, 27, 28, 29, 30, 31, 32, 33, 34, 35, 36,
   37, 38, 39, 40, 41]"
  by (simp add: client_denominations_def upt_rec_numeral)

lemma sample_funding:
  "select_funding_input f [((12, []), sample_spendable)] 0 = (Ok (Some []) :: (v2_client_error, _) result)"
  by (simp add: select_funding_input_def client_denominations_eval notes_of_def bt_values_def Let_def
      TARGET_PER_DENOMINATION_def sample_spendable_def)

lemma sample_rebalance:
  "rebalance (v2c_fee_consensus sample_client) [((12, []), sample_spendable)] 0
     = (Ok (12, [], [sample_spendable], [9, 9, 9, 10, 10]) :: (v2_client_error, _) result)"
  by (simp cong: rbind_weak_cong add: rebalance_def get_count_by_denomination_def bt_values_def
      find_by_prefix_sorted_descending_def sample_client_def sample_spendable_def client_denominations_eval
      TARGET_PER_DENOMINATION_def numeral_3_eq_3 output_cost_def mintv2_fee_def mintv2_fee_msats_def checked_add_def
      saturating_mul_def from_msats_def Let_def amount_checked_sub_def checked_sub_def amount_add_def amount_sub_def
      denomination_amount_def sn_amount_def)

theorem mintv2_balancing_witness:
  "create_final_inputs_and_outputs sample_client [((12, []), sample_spendable)] (v2c_amount_unit sample_client) 0 0 = Panic"
proof -
  have "mintv2_fee_ok (v2c_fee_consensus sample_client)"
    by (auto simp: mintv2_fee_ok_def sample_client_def mintv2_fee_new_def from_msats_def intro!: exI [of _ 0])
  moreover have d: "12 \<in> set client_denominations"
    unfolding client_denominations_set by simp
  then have "table_ok sample_client [((12, []), sample_spendable)]"
    by (simp add: table_ok_def bt_values_def note_key_def sample_client_def sample_spendable_def bt_wf_def)
  moreover have "notes_worth (bt_values [((12 :: denomination, [] :: bytes), sample_spendable)]) = 4096"
    using worth_client [OF d] by (simp add: bt_values_def sample_spendable_def)
  moreover have "fee_nat (v2c_fee_consensus sample_client) 12 = 100"
    by (simp add: fee_of_def sample_client_def saturating_mul_def)
  then have "rebalance_overspends sample_client [((12, []), sample_spendable)] 0 0"
    using sample_rebalance sample_funding
    by (auto simp: rebalance_overspends_def amount_saturating_sub_def saturating_sub_def sample_spendable_def
        intro!: exI [of _ "[]"])
  ultimately show ?thesis
    using mintv2_balancing [of sample_client "[((12, []), sample_spendable)]" 0 0] by simp
qed

end
