(* ===== verification/Walletv2_Server.thy ===== *)
theory Walletv2_Server
  imports Votes Balance_Sheet Fees Index_Log Encoding
begin

section \<open>The wallet module, version 2\<close>

text \<open>
  \<open>modules/fedimint-walletv2-server/src/lib.rs\<close> and \<open>db.rs\<close>, with the types of
  \<open>modules/fedimint-walletv2-common/src/lib.rs\<close> and \<open>config.rs\<close>. The federation holds its
  bitcoin in one output, the federation wallet; claiming a deposit and paying out both spend it and
  create its successor, so that the transactions of the federation form a chain.

  The record \<open>w2_env\<close> holds what comes from the crates \<open>bitcoin\<close>, \<open>miniscript\<close> and
  \<open>secp256k1\<close>: hashes, transaction and block ids, descriptors and signatures. The record
  \<open>bitcoin_rpc\<close> is what the Bitcoin node answers; waiting for the node to catch up and
  broadcasting a transaction are input and output and leave no trace in the state.
\<close>

subsection \<open>Bitcoin transactions\<close>

type_synonym u32 = "32 word"
type_synonym btc_txid = bytes
type_synonym script = bytes
type_synonym descriptor = bytes
type_synonym btc_out_point = "btc_txid \<times> u32"

record tx_in =
  ti_previous_output :: btc_out_point
  ti_sequence :: u32
  ti_witness :: "bytes list"

record tx_out =
  to_value :: u64
  to_script_pubkey :: script

record btc_tx =
  bx_version :: u32
  bx_lock_time :: u32
  bx_input :: "tx_in list"
  bx_output :: "tx_out list"

definition ENABLE_RBF_NO_LOCKTIME :: u32 where
  "ENABLE_RBF_NO_LOCKTIME = 0xFFFFFFFD"

datatype network = Bitcoin | Testnet | Testnet4 | Signet | Regtest

datatype standard_script =
    P2PKH bytes
  | P2SH bytes
  | P2WPKH bytes
  | P2WSH bytes
  | P2TR bytes
  | StandardScriptDefault u64 bytes

record w2_env =
  we_benc :: "u64 encoder"
  we_sha256 :: "bytes \<Rightarrow> bytes"
  we_outpoint_bytes :: "btc_out_point encoder"
  we_script_bytes :: "script encoder"
  we_compute_txid :: "btc_tx \<Rightarrow> btc_txid"
  we_add_exp_tweak :: "public_key \<Rightarrow> bytes \<Rightarrow> public_key option"
  we_sk_add_tweak :: "bytes \<Rightarrow> bytes \<Rightarrow> bytes option"
  we_sk_public_key :: "bytes \<Rightarrow> public_key"
  we_new_sortedmulti :: "nat \<Rightarrow> public_key list \<Rightarrow> descriptor option"
  we_script_pubkey :: "descriptor \<Rightarrow> script"
  we_script_code :: "descriptor \<Rightarrow> script"
  we_satisfy :: "descriptor \<Rightarrow> (public_key, signature) btree \<Rightarrow> bytes list option"
  we_sighash :: "btc_tx \<Rightarrow> nat \<Rightarrow> script \<Rightarrow> u64 \<Rightarrow> bytes option"
  we_sign_ecdsa :: "bytes \<Rightarrow> bytes \<Rightarrow> signature"
  we_verify_ecdsa :: "bytes \<Rightarrow> signature \<Rightarrow> public_key \<Rightarrow> bool"
  we_standard_script :: "standard_script \<Rightarrow> script"
  we_is_p2wsh :: "script \<Rightarrow> bool"
  we_block_hash :: "bytes \<Rightarrow> bytes"

record rpc_status =
  rs_network :: network
  rs_block_count :: u64
  rs_fee_rate :: "u64 option"

text \<open>A block is its header, which \<open>we_block_hash\<close> hashes, and its transactions.\<close>

record btc_block =
  bl_header :: bytes
  bl_txdata :: "btc_tx list"

record bitcoin_rpc =
  rpc_status_of :: "rpc_status option"
  rpc_block_hash :: "u64 \<Rightarrow> bytes"
  rpc_block :: "bytes \<Rightarrow> btc_block"

subsection \<open>Configuration and tables\<close>

record wallet_config =
  wc_bitcoin_sk :: bytes
  wc_bitcoin_pks :: "(peer_id, public_key) btree"
  wc_send_tx_vbytes :: u64
  wc_receive_tx_vbytes :: u64
  wc_feerate_base :: u64
  wc_dust_limit :: u64
  wc_fee_consensus :: fee_consensus
  wc_network :: network

definition CONFIRMATION_FINALITY_DELAY :: u64 where
  "CONFIRMATION_FINALITY_DELAY = 6"

definition MAX_BLOCK_COUNT_INCREMENT :: u64 where
  "MAX_BLOCK_COUNT_INCREMENT = 5"

definition TEST_MAX_BLOCK_COUNT_INCREMENT :: u64 where
  "TEST_MAX_BLOCK_COUNT_INCREMENT = 100"

definition MIN_FEERATE_VOTE_SATS_PER_KVB :: u64 where
  "MIN_FEERATE_VOTE_SATS_PER_KVB = 1000"

record federation_wallet =
  fw_value :: u64
  fw_outpoint :: btc_out_point
  fw_tweak :: bytes

record tx_info =
  xi_index :: u64
  xi_txid :: btc_txid
  xi_input :: u64
  xi_output :: u64
  xi_fee :: u64
  xi_vbytes :: u64
  xi_created :: u64

record spent_tx_out =
  so_value :: u64
  so_tweak :: bytes

record federation_tx =
  ft_tx :: btc_tx
  ft_spent_tx_outs :: "spent_tx_out list"
  ft_vbytes :: u64
  ft_fee :: u64

record output_info =
  oi_index :: u64
  oi_script :: script
  oi_value :: u64
  oi_spent :: bool
  oi_outpoint :: "btc_out_point option"

datatype w2_consensus_item =
    W2BlockCount u64
  | W2Feerate "u64 option"
  | W2Signatures btc_txid "signature list"
  | W2ItemDefault u64 bytes

datatype w2_input =
    W2InputV0 u64 public_key u64
  | W2InputDefault u64 bytes

datatype w2_output =
    W2OutputV0 standard_script u64 u64
  | W2OutputDefault u64 bytes

datatype w2_input_error =
    W2UnknownInputVariant u64
  | OutputAlreadySpent
  | UnknownOutputIndex
  | WrongTweak
  | InputNoConsensusFeerateAvailable
  | InputInsufficientTotalFee
  | InputArithmeticOverflow

datatype w2_output_error =
    W2UnknownOutputVariant u64
  | UnderDustLimit
  | NoFederationUTXO
  | OutputNoConsensusFeerateAvailable
  | OutputInsufficientTotalFee
  | ChangeUnderDustLimit
  | OutputArithmeticOverflow
  | UnknownScriptVariant

text \<open>One table per database prefix; the wallet's table has a single key.\<close>

record wallet_db =
  wd_outputs :: "(u64, btc_out_point \<times> tx_out) btree"
  wd_spent :: "(u64, unit) btree"
  wd_block_count_votes :: "(peer_id, u64) btree"
  wd_feerate_votes :: "(peer_id, u64 option) btree"
  wd_tx_log :: "(u64, tx_info) btree"
  wd_tx_index :: "(out_point, u64) btree"
  wd_unsigned :: "(btc_txid, federation_tx) btree"
  wd_signatures :: "(btc_txid \<times> peer_id, signature list) btree"
  wd_unconfirmed :: "(btc_txid, federation_tx) btree"
  wd_wallet :: "federation_wallet option"

definition wallet_db_empty :: wallet_db where
  "wallet_db_empty = \<lparr>wd_outputs = [], wd_spent = [], wd_block_count_votes = [], wd_feerate_votes = [], wd_tx_log = [],
     wd_tx_index = [], wd_unsigned = [], wd_signatures = [], wd_unconfirmed = [], wd_wallet = None\<rparr>"

subsection \<open>Descriptors and signatures\<close>

definition tweak_public_key :: "w2_env \<Rightarrow> public_key \<Rightarrow> bytes \<Rightarrow> ('e, public_key) result" where
  "tweak_public_key W pk tweak = expect (we_add_exp_tweak W pk tweak)"

definition w2_descriptor :: "w2_env \<Rightarrow> (peer_id, public_key) btree \<Rightarrow> bytes \<Rightarrow> ('e, descriptor) result" where
  "w2_descriptor W pks tweak =
     rbind (traverse (\<lambda>pk. tweak_public_key W pk tweak) (bt_values pks)) (\<lambda>tweaked.
       expect (we_new_sortedmulti W (threshold (length pks)) tweaked))"

text \<open>\<open>consensus_hash\<close> of a public key, of the derived encoding of a wallet, and of a pair.\<close>

definition pk_hash :: "w2_env \<Rightarrow> public_key \<Rightarrow> bytes" where
  "pk_hash W pk = we_sha256 W (enc_array pk)"

definition wallet_hash :: "w2_env \<Rightarrow> federation_wallet \<Rightarrow> bytes" where
  "wallet_hash W w = we_sha256 W
     (enc_num (we_benc W) (fw_value w) @ we_outpoint_bytes W (fw_outpoint w) @ enc_array (fw_tweak w))"

definition pks_hash :: "w2_env \<Rightarrow> (peer_id, public_key) btree \<Rightarrow> bytes" where
  "pks_hash W pks = we_sha256 W (enc_btree (we_benc W) (enc_num (we_benc W)) enc_array pks)"

definition is_potential_receive :: "w2_env \<Rightarrow> script \<Rightarrow> bytes \<Rightarrow> bool" where
  "is_potential_receive W script_pubkey hash =
     list_all (\<lambda>b. b = 0) (take 2 (we_sha256 W (we_script_bytes W script_pubkey @ enc_array hash)))"

fun standard_script_pubkey :: "w2_env \<Rightarrow> standard_script \<Rightarrow> script option" where
  "standard_script_pubkey W (StandardScriptDefault variant bytes) = None"
| "standard_script_pubkey W s = Some (we_standard_script W s)"

text \<open>The tweaked public key and the hash that is signed for one of the outputs a transaction spends.\<close>

definition input_sighash ::
  "w2_env \<Rightarrow> wallet_config \<Rightarrow> federation_tx \<Rightarrow> nat \<Rightarrow> spent_tx_out \<Rightarrow> ('e, bytes) result" where
  "input_sighash W cfg ft i utxo =
     rbind (w2_descriptor W (wc_bitcoin_pks cfg) (so_tweak utxo)) (\<lambda>d.
       expect (we_sighash W (ft_tx ft) i (we_script_code W d) (so_value utxo)))"

definition sign_tx :: "w2_env \<Rightarrow> wallet_config \<Rightarrow> federation_tx \<Rightarrow> ('e, signature list) result" where
  "sign_tx W cfg ft =
     traverse (\<lambda>(i, utxo).
       rbind (input_sighash W cfg ft i utxo) (\<lambda>sighash.
       rbind (expect (we_sk_add_tweak W (wc_bitcoin_sk cfg) (so_tweak utxo))) (\<lambda>sk.
         Ok (we_sign_ecdsa W sighash sk)))) (enumerate 0 (ft_spent_tx_outs ft))"

fun verify_each ::
  "w2_env \<Rightarrow> wallet_config \<Rightarrow> federation_tx \<Rightarrow> public_key \<Rightarrow> nat \<Rightarrow> spent_tx_out list \<Rightarrow> signature list
    \<Rightarrow> (string, unit) result" where
  "verify_each W cfg ft pk i (utxo # utxos) (sig # sigs) =
     rbind (input_sighash W cfg ft i utxo) (\<lambda>sighash.
     rbind (tweak_public_key W pk (so_tweak utxo)) (\<lambda>tweaked.
       if we_verify_ecdsa W sighash sig tweaked then verify_each W cfg ft pk (Suc i) utxos sigs
       else Err ''signature failed verification''))"
| "verify_each W cfg ft pk i utxos sigs = Ok ()"

definition verify_signatures ::
  "w2_env \<Rightarrow> wallet_config \<Rightarrow> federation_tx \<Rightarrow> signature list \<Rightarrow> public_key \<Rightarrow> (string, unit) result" where
  "verify_signatures W cfg ft sigs pk =
     rbind (ensure (length (ft_spent_tx_outs ft) = length sigs) ''Incorrect number of signatures'') (\<lambda>_.
       verify_each W cfg ft pk 0 (ft_spent_tx_outs ft) sigs)"

definition satisfier ::
  "w2_env \<Rightarrow> wallet_config \<Rightarrow> federation_tx \<Rightarrow> nat \<Rightarrow> spent_tx_out \<Rightarrow> (peer_id, signature list) btree
    \<Rightarrow> ('e, (public_key, signature) btree) result" where
  "satisfier W cfg ft i utxo signatures =
     map_ok bt_of_list (traverse (\<lambda>(peer, sigs).
       rbind (rassert (length sigs = length (bx_input (ft_tx ft)))) (\<lambda>_.
       rbind (expect (bt_get (wc_bitcoin_pks cfg) peer)) (\<lambda>pk.
       rbind (tweak_public_key W pk (so_tweak utxo)) (\<lambda>pk. Ok (pk, sigs ! i))))) signatures)"

fun finalize_inputs ::
  "w2_env \<Rightarrow> wallet_config \<Rightarrow> (peer_id, signature list) btree \<Rightarrow> nat \<Rightarrow> spent_tx_out list \<Rightarrow> federation_tx
    \<Rightarrow> ('e, federation_tx) result" where
  "finalize_inputs W cfg signatures i [] ft = Ok ft"
| "finalize_inputs W cfg signatures i (utxo # utxos) ft =
     rbind (satisfier W cfg ft i utxo signatures) (\<lambda>sat.
     rbind (w2_descriptor W (wc_bitcoin_pks cfg) (so_tweak utxo)) (\<lambda>d.
     rbind (expect (we_satisfy W d sat)) (\<lambda>witness.
       let inputs = bx_input (ft_tx ft);
           inputs = inputs[i := (inputs ! i)\<lparr>ti_witness := witness\<rparr>]
       in finalize_inputs W cfg signatures (Suc i) utxos (ft\<lparr>ft_tx := (ft_tx ft)\<lparr>bx_input := inputs\<rparr>\<rparr>))))"

definition finalize_tx ::
  "w2_env \<Rightarrow> wallet_config \<Rightarrow> federation_tx \<Rightarrow> (peer_id, signature list) btree \<Rightarrow> ('e, federation_tx) result" where
  "finalize_tx W cfg ft signatures =
     rbind (rassert (length (ft_spent_tx_outs ft) = length (bx_input (ft_tx ft)))) (\<lambda>_.
       finalize_inputs W cfg signatures 0 (ft_spent_tx_outs ft) ft)"

subsection \<open>Consensus on block count and fee rate\<close>

definition w2_consensus_block_count :: "wallet_config \<Rightarrow> wallet_db \<Rightarrow> ('e, u64) result" where
  "w2_consensus_block_count cfg db =
     (let num_peers = length (wc_bitcoin_pks cfg);
          counts = bt_values (wd_block_count_votes db)
      in rbind (rassert (length counts \<le> num_peers)) (\<lambda>_.
         let counts = rev (sort counts)
         in rbind (rassert (counts = [] \<or> last counts \<le> hd counts)) (\<lambda>_.
              Ok (unwrap_or 0 (slice_get counts (usize_sub (threshold num_peers) 1))))))"

definition consensus_feerate :: "wallet_config \<Rightarrow> wallet_db \<Rightarrow> ('e, u64 option) result" where
  "consensus_feerate cfg db =
     (let num_peers = length (wc_bitcoin_pks cfg);
          rates = List.map_filter id (bt_values (wd_feerate_votes db))
      in rbind (rassert (length rates \<le> num_peers)) (\<lambda>_.
         let rates = sort rates
         in rbind (rassert (rates = [] \<or> hd rates \<le> last rates)) (\<lambda>_.
              Ok (slice_get rates (usize_sub (threshold num_peers) 1)))))"

definition pending_txs_unordered :: "wallet_db \<Rightarrow> federation_tx list" where
  "pending_txs_unordered db = bt_values (wd_unsigned db) @ bt_values (wd_unconfirmed db)"

fun checked_sum :: "u64 \<Rightarrow> u64 list \<Rightarrow> u64 option" where
  "checked_sum acc [] = Some acc"
| "checked_sum acc (x # xs) = (case checked_add acc x of None \<Rightarrow> None | Some acc \<Rightarrow> checked_sum acc xs)"

definition consensus_fee :: "wallet_config \<Rightarrow> wallet_db \<Rightarrow> u64 \<Rightarrow> ('e, u64 option) result" where
  "consensus_fee cfg db tx_vbytes =
     (let pending_txs = pending_txs_unordered db
      in rbind (rassert (length pending_txs \<le> 32)) (\<lambda>_.
         rbind (consensus_feerate cfg db) (\<lambda>rate.
         case rate of None \<Rightarrow> Ok None | Some rate \<Rightarrow>
           let feerate = max rate (push_bit (length pending_txs) (wc_feerate_base cfg));
               tx_fee = saturating_mul tx_vbytes feerate div 1000
           in rbind (expect (checked_sum tx_vbytes (map ft_vbytes pending_txs))) (\<lambda>stack_vbytes.
              let stack_fee = saturating_mul stack_vbytes feerate div 1000;
                  stack_fee = foldl saturating_sub stack_fee (map ft_fee pending_txs)
              in Ok (Some (max tx_fee stack_fee))))))"

definition send_fee :: "wallet_config \<Rightarrow> wallet_db \<Rightarrow> ('e, u64 option) result" where
  "send_fee cfg db = consensus_fee cfg db (wc_send_tx_vbytes cfg)"

definition receive_fee :: "wallet_config \<Rightarrow> wallet_db \<Rightarrow> ('e, u64 option) result" where
  "receive_fee cfg db = consensus_fee cfg db (wc_receive_tx_vbytes cfg)"

definition total_txs :: "wallet_db \<Rightarrow> u64" where
  "total_txs db = (case find_by_prefix_sorted_descending (wd_tx_log db) of [] \<Rightarrow> 0 | (k, info) # _ \<Rightarrow> k + 1)"

subsection \<open>Consensus items\<close>

definition w2_consensus_proposal ::
  "w2_env \<Rightarrow> wallet_config \<Rightarrow> bitcoin_rpc \<Rightarrow> bool \<Rightarrow> wallet_db \<Rightarrow> ('e, w2_consensus_item list) result" where
  "w2_consensus_proposal W cfg rpc is_running_in_test_env db =
     rbind (traverse (\<lambda>(txid, unsigned_tx).
         rbind (sign_tx W cfg unsigned_tx) (\<lambda>signatures.
         rbind (expect_ok (verify_signatures W cfg unsigned_tx signatures (we_sk_public_key W (wc_bitcoin_sk cfg)))) (\<lambda>_.
           Ok (W2Signatures txid signatures)))) (wd_unsigned db)) (\<lambda>items.
     case rpc_status_of rpc of
       None \<Rightarrow> Ok (items @ [W2Feerate None])
     | Some status \<Rightarrow>
         rbind (rassert (rs_network status = wc_network cfg)) (\<lambda>_.
         let block_count_vote = saturating_sub (rs_block_count status) CONFIRMATION_FINALITY_DELAY
         in rbind (w2_consensus_block_count cfg db) (\<lambda>consensus_block_count.
         let max_block_count_increment =
               (if is_running_in_test_env then TEST_MAX_BLOCK_COUNT_INCREMENT else MAX_BLOCK_COUNT_INCREMENT);
             block_count_vote =
               (if consensus_block_count = 0 then block_count_vote
                else min block_count_vote (consensus_block_count + max_block_count_increment));
             feerate_vote = map_option (\<lambda>r. max r MIN_FEERATE_VOTE_SATS_PER_KVB) (rs_fee_rate status)
         in Ok (items @ [W2BlockCount block_count_vote, W2Feerate feerate_vote]))))"

text \<open>
  Scanning a block: confirmed transactions of the federation are no longer pending, and the outputs
  that pass the receive filter are appended to the log of outputs.
\<close>

fun track_outputs ::
  "w2_env \<Rightarrow> bytes \<Rightarrow> btc_txid \<Rightarrow> nat \<Rightarrow> tx_out list \<Rightarrow> wallet_db \<Rightarrow> ('e, wallet_db) result" where
  "track_outputs W hash txid vout [] db = Ok db"
| "track_outputs W hash txid vout (out # outs) db =
     rbind
       (if is_potential_receive W (to_script_pubkey out) hash
        then
          rbind (rassert (vout < 2 ^ 32)) (\<lambda>_.
          let k = (case find_by_prefix_sorted_descending (wd_outputs db) of [] \<Rightarrow> 0 | (k, entry) # _ \<Rightarrow> k + 1)
          in map_ok (\<lambda>tracked. db\<lparr>wd_outputs := tracked\<rparr>)
               (insert_new_entry k ((txid, of_nat vout), out) (wd_outputs db)))
        else Ok db)
       (track_outputs W hash txid (Suc vout) outs)"

fun scan_block :: "w2_env \<Rightarrow> bytes \<Rightarrow> btc_tx list \<Rightarrow> wallet_db \<Rightarrow> ('e, wallet_db) result" where
  "scan_block W hash [] db = Ok db"
| "scan_block W hash (tx # txs) db =
     (let txid = we_compute_txid W tx;
          db = db\<lparr>wd_unconfirmed := snd (remove_entry txid (wd_unconfirmed db))\<rparr>
      in rbind (track_outputs W hash txid 0 (bx_output tx) db) (scan_block W hash txs))"

fun scan_blocks ::
  "w2_env \<Rightarrow> wallet_config \<Rightarrow> bitcoin_rpc \<Rightarrow> nat list \<Rightarrow> wallet_db \<Rightarrow> ('e, wallet_db) result" where
  "scan_blocks W cfg rpc [] db = Ok db"
| "scan_blocks W cfg rpc (height # heights) db =
     rbind (case rpc_status_of rpc of
              Some status \<Rightarrow> rassert (rs_network status = wc_network cfg)
            | None \<Rightarrow> Ok ()) (\<lambda>_.
     let block_hash = rpc_block_hash rpc (of_nat height);
         block = rpc_block rpc block_hash
     in rbind (rassert (we_block_hash W (bl_header block) = block_hash)) (\<lambda>_.
        rbind (scan_block W (pks_hash W (wc_bitcoin_pks cfg)) (bl_txdata block) db)
          (scan_blocks W cfg rpc heights)))"

definition process_block_count ::
  "w2_env \<Rightarrow> wallet_config \<Rightarrow> bitcoin_rpc \<Rightarrow> wallet_db \<Rightarrow> u64 \<Rightarrow> peer_id \<Rightarrow> (string, wallet_db) result" where
  "process_block_count W cfg rpc db block_count_vote peer =
     rbind (w2_consensus_block_count cfg db) (\<lambda>old_consensus_block_count.
     case insert_entry peer block_count_vote (wd_block_count_votes db) of (prev, votes) \<Rightarrow>
     rbind (ensure (unwrap_or 0 prev < block_count_vote) ''Block count vote is redundant'') (\<lambda>_.
     let db = db\<lparr>wd_block_count_votes := votes\<rparr>
     in rbind (w2_consensus_block_count cfg db) (\<lambda>new_consensus_block_count.
        rbind (rassert (old_consensus_block_count \<le> new_consensus_block_count)) (\<lambda>_.
        if old_consensus_block_count = 0 \<and> wc_network cfg \<noteq> Regtest then Ok db
        else scan_blocks W cfg rpc [unat old_consensus_block_count..<unat new_consensus_block_count] db))))"

definition process_signatures ::
  "w2_env \<Rightarrow> wallet_config \<Rightarrow> wallet_db \<Rightarrow> btc_txid \<Rightarrow> signature list \<Rightarrow> peer_id \<Rightarrow> (string, wallet_db) result" where
  "process_signatures W cfg db txid signatures peer =
     rbind (ok_or (bt_get (wd_unsigned db) txid) ''Unsigned transaction does not exist'') (\<lambda>unsigned_tx.
     rbind (expect (bt_get (wc_bitcoin_pks cfg) peer)) (\<lambda>pk.
     rbind (verify_signatures W cfg unsigned_tx signatures pk) (\<lambda>_.
     case insert_entry (txid, peer) signatures (wd_signatures db) of (prev, table) \<Rightarrow>
     if prev \<noteq> None then Err ''Already received valid signatures from this peer''
     else
       let db = db\<lparr>wd_signatures := table\<rparr>;
           collected = bt_of_list (map (\<lambda>((t, p), sigs). (p, sigs)) (filter (\<lambda>((t, p), sigs). t = txid) table))
       in if length collected = threshold (length (wc_bitcoin_pks cfg))
          then
            let db = db\<lparr>wd_unsigned := snd (remove_entry txid (wd_unsigned db)),
                         wd_signatures := filter (\<lambda>((t, p), sigs). t \<noteq> txid) table\<rparr>
            in rbind (finalize_tx W cfg unsigned_tx collected) (\<lambda>signed_tx.
               rbind (insert_new_entry txid signed_tx (wd_unconfirmed db)) (\<lambda>unconfirmed.
                 Ok (db\<lparr>wd_unconfirmed := unconfirmed\<rparr>)))
          else Ok db)))"

definition w2_process_consensus_item ::
  "w2_env \<Rightarrow> wallet_config \<Rightarrow> bitcoin_rpc \<Rightarrow> wallet_db \<Rightarrow> w2_consensus_item \<Rightarrow> peer_id \<Rightarrow> (string, wallet_db) result" where
  "w2_process_consensus_item W cfg rpc db item peer =
     (case item of
        W2BlockCount block_count_vote \<Rightarrow> process_block_count W cfg rpc db block_count_vote peer
      | W2Feerate feerate \<Rightarrow>
          (case insert_entry peer feerate (wd_feerate_votes db) of (prev, votes) \<Rightarrow>
             if prev = Some feerate then Err ''Fee rate vote is redundant''
             else Ok (db\<lparr>wd_feerate_votes := votes\<rparr>))
      | W2Signatures txid signatures \<Rightarrow> process_signatures W cfg db txid signatures peer
      | W2ItemDefault variant _ \<Rightarrow> Err ''Received wallet consensus item with unknown variant'')"

subsection \<open>Inputs and outputs\<close>

definition spend_txin :: "btc_out_point \<Rightarrow> tx_in" where
  "spend_txin q = \<lparr>ti_previous_output = q, ti_sequence = ENABLE_RBF_NO_LOCKTIME, ti_witness = []\<rparr>"

text \<open>
  What a claim and a payout do to the chain: the wallet \<open>w\<close> is spent by \<open>tx\<close>, whose first
  output is the new wallet; the transaction is logged and waits for signatures.
\<close>

definition extend_chain ::
  "w2_env \<Rightarrow> wallet_config \<Rightarrow> wallet_db \<Rightarrow> federation_wallet \<Rightarrow> u64 \<Rightarrow> btc_tx \<Rightarrow> spent_tx_out list \<Rightarrow> u64 \<Rightarrow> u64
    \<Rightarrow> out_point option \<Rightarrow> ('e, wallet_db) result" where
  "extend_chain W cfg db w change_value tx spent_tx_outs vbytes fee outpoint =
     (let db = db\<lparr>wd_wallet := Some \<lparr>fw_value = change_value, fw_outpoint = (we_compute_txid W tx, 0),
                                    fw_tweak = wallet_hash W w\<rparr>\<rparr>;
          tx_index = total_txs db
      in rbind (w2_consensus_block_count cfg db) (\<lambda>created.
         rbind (insert_new_entry tx_index
           \<lparr>xi_index = tx_index, xi_txid = we_compute_txid W tx, xi_input = fw_value w, xi_output = change_value,
            xi_fee = fee, xi_vbytes = vbytes, xi_created = created\<rparr> (wd_tx_log db)) (\<lambda>tx_log.
         rbind (case outpoint of
                  None \<Rightarrow> Ok (wd_tx_index db)
                | Some q \<Rightarrow> insert_new_entry q tx_index (wd_tx_index db)) (\<lambda>tx_index_table.
         rbind (insert_new_entry (we_compute_txid W tx)
           \<lparr>ft_tx = tx, ft_spent_tx_outs = spent_tx_outs, ft_vbytes = vbytes, ft_fee = fee\<rparr> (wd_unsigned db)) (\<lambda>unsigned.
           Ok (db\<lparr>wd_tx_log := tx_log, wd_tx_index := tx_index_table, wd_unsigned := unsigned\<rparr>))))))"

definition claim_output ::
  "w2_env \<Rightarrow> wallet_config \<Rightarrow> wallet_db \<Rightarrow> btc_out_point \<Rightarrow> tx_out \<Rightarrow> bytes \<Rightarrow> u64 \<Rightarrow> u64
    \<Rightarrow> (w2_input_error, wallet_db) result" where
  "claim_output W cfg db tracked_outpoint tracked_output tweak output_value fee =
     (case wd_wallet db of
        Some w \<Rightarrow>
          rbind (ok_or (checked_add (fw_value w) output_value) InputArithmeticOverflow) (\<lambda>change_value.
          rbind (w2_descriptor W (wc_bitcoin_pks cfg) (wallet_hash W w)) (\<lambda>d.
          let tx = \<lparr>bx_version = 2, bx_lock_time = 0,
                    bx_input = [spend_txin (fw_outpoint w), spend_txin tracked_outpoint],
                    bx_output = [\<lparr>to_value = change_value, to_script_pubkey = we_script_pubkey W d\<rparr>]\<rparr>
          in extend_chain W cfg db w change_value tx
               [\<lparr>so_value = fw_value w, so_tweak = fw_tweak w\<rparr>,
                \<lparr>so_value = to_value tracked_output, so_tweak = tweak\<rparr>]
               (wc_receive_tx_vbytes cfg) fee None))
      | None \<Rightarrow>
          Ok (db\<lparr>wd_wallet := Some \<lparr>fw_value = to_value tracked_output, fw_outpoint = tracked_outpoint,
                                    fw_tweak = tweak\<rparr>\<rparr>))"

definition w2_process_input ::
  "w2_env \<Rightarrow> wallet_config \<Rightarrow> wallet_db \<Rightarrow> w2_input \<Rightarrow> in_point \<Rightarrow> (w2_input_error, wallet_db \<times> input_meta) result" where
  "w2_process_input W cfg db input in_point =
     (case input of
        W2InputDefault variant _ \<Rightarrow> Err (W2UnknownInputVariant variant)
      | W2InputV0 output_index tweak fee \<Rightarrow>
          (case insert_entry output_index () (wd_spent db) of (prev, spent) \<Rightarrow>
          if prev \<noteq> None then Err OutputAlreadySpent
          else
            let db = db\<lparr>wd_spent := spent\<rparr>
            in rbind (ok_or (bt_get (wd_outputs db) output_index) UnknownOutputIndex) (\<lambda>(tracked_outpoint, tracked_output).
            rbind (w2_descriptor W (wc_bitcoin_pks cfg) (pk_hash W tweak)) (\<lambda>d.
            if to_script_pubkey tracked_output \<noteq> we_script_pubkey W d then Err WrongTweak
            else
              rbind (receive_fee cfg db) (\<lambda>consensus_receive_fee.
              rbind (ok_or consensus_receive_fee InputNoConsensusFeerateAvailable) (\<lambda>consensus_receive_fee.
              if fee < consensus_receive_fee then Err InputInsufficientTotalFee
              else
                rbind (ok_or (checked_sub (to_value tracked_output) fee) InputArithmeticOverflow) (\<lambda>output_value.
                rbind (claim_output W cfg db tracked_outpoint tracked_output (pk_hash W tweak) output_value fee) (\<lambda>db.
                rbind (ok_or (map_option from_msats (checked_mul output_value 1000)) InputArithmeticOverflow) (\<lambda>amount.
                rbind (walletv2_fee (wc_fee_consensus cfg) amount) (\<lambda>item_fee.
                  Ok (db, \<lparr>im_amount = \<lparr>ti_amounts = new_bitcoin amount, ti_fees = new_bitcoin item_fee\<rparr>,
                           im_pub_key = tweak\<rparr>)))))))))))"

definition w2_process_output ::
  "w2_env \<Rightarrow> wallet_config \<Rightarrow> wallet_db \<Rightarrow> w2_output \<Rightarrow> out_point
    \<Rightarrow> (w2_output_error, wallet_db \<times> transaction_item_amounts) result" where
  "w2_process_output W cfg db ot outpoint =
     (case ot of
        W2OutputDefault variant _ \<Rightarrow> Err (W2UnknownOutputVariant variant)
      | W2OutputV0 destination value fee \<Rightarrow>
          if value < wc_dust_limit cfg then Err UnderDustLimit
          else
            rbind (ok_or (wd_wallet db) NoFederationUTXO) (\<lambda>w.
            rbind (send_fee cfg db) (\<lambda>consensus_send_fee.
            rbind (ok_or consensus_send_fee OutputNoConsensusFeerateAvailable) (\<lambda>consensus_send_fee.
            if fee < consensus_send_fee then Err OutputInsufficientTotalFee
            else
              rbind (ok_or (checked_add value fee) OutputArithmeticOverflow) (\<lambda>output_value.
              rbind (ok_or (checked_sub (fw_value w) output_value) OutputArithmeticOverflow) (\<lambda>change_value.
              if change_value < wc_dust_limit cfg then Err ChangeUnderDustLimit
              else
                rbind (ok_or (standard_script_pubkey W destination) UnknownScriptVariant) (\<lambda>script_pubkey.
                rbind (w2_descriptor W (wc_bitcoin_pks cfg) (wallet_hash W w)) (\<lambda>d.
                let tx = \<lparr>bx_version = 2, bx_lock_time = 0, bx_input = [spend_txin (fw_outpoint w)],
                          bx_output = [\<lparr>to_value = change_value, to_script_pubkey = we_script_pubkey W d\<rparr>,
                                       \<lparr>to_value = value, to_script_pubkey = script_pubkey\<rparr>]\<rparr>
                in rbind (extend_chain W cfg db w change_value tx [\<lparr>so_value = fw_value w, so_tweak = fw_tweak w\<rparr>]
                           (wc_send_tx_vbytes cfg) fee (Some outpoint)) (\<lambda>db.
                rbind (ok_or (map_option from_msats (checked_mul output_value 1000)) OutputArithmeticOverflow) (\<lambda>amount.
                rbind (walletv2_fee (wc_fee_consensus cfg) amount) (\<lambda>item_fee.
                  Ok (db, \<lparr>ti_amounts = new_bitcoin amount, ti_fees = new_bitcoin item_fee\<rparr>))))))))))))"

subsection \<open>Audit and endpoints\<close>

definition w2_audit :: "wallet_db \<Rightarrow> audit \<Rightarrow> module_instance_id \<Rightarrow> wallet_db \<times> audit" where
  "w2_audit db audit module_instance_id =
     (db, add_items (case wd_wallet db of None \<Rightarrow> [] | Some w \<Rightarrow> [((), w)]) module_instance_id
       (\<lambda>_ w. 1000 * fw_value w) audit)"

definition w2_tx_id :: "wallet_db \<Rightarrow> out_point \<Rightarrow> btc_txid option" where
  "w2_tx_id db outpoint =
     (case bt_get (wd_tx_index db) outpoint of
        None \<Rightarrow> None
      | Some k \<Rightarrow> map_option xi_txid (bt_get (wd_tx_log db) k))"

definition get_outputs :: "w2_env \<Rightarrow> wallet_db \<Rightarrow> u64 \<Rightarrow> u64 \<Rightarrow> output_info list" where
  "get_outputs W db start_index end_index =
     (let spent = map fst (find_by_range start_index end_index (wd_spent db))
      in List.map_filter (\<lambda>(k, outpoint, out).
           if we_is_p2wsh W (to_script_pubkey out)
           then Some \<lparr>oi_index = k, oi_script = to_script_pubkey out, oi_value = to_value out,
                      oi_spent = (k \<in> set spent), oi_outpoint = Some outpoint\<rparr>
           else None) (find_by_range start_index end_index (wd_outputs db)))"

definition pending_tx_chain :: "wallet_db \<Rightarrow> tx_info list" where
  "pending_tx_chain db =
     map snd (take (length (pending_txs_unordered db)) (find_by_prefix_sorted_descending (wd_tx_log db)))"

definition tx_chain :: "wallet_db \<Rightarrow> tx_info list" where
  "tx_chain db = bt_values (wd_tx_log db)"

definition walletv2_module ::
  "w2_env \<Rightarrow> wallet_config \<Rightarrow> bitcoin_rpc
    \<Rightarrow> (wallet_db, w2_input, w2_output, w2_consensus_item, w2_input_error, w2_output_error) server_module" where
  "walletv2_module W cfg rpc =
     \<lparr>sm_process_consensus_item = w2_process_consensus_item W cfg rpc,
      sm_verify_input = (\<lambda>input. Ok ()),
      sm_process_input = w2_process_input W cfg,
      sm_process_output = w2_process_output W cfg,
      sm_verify_input_submission = (\<lambda>db input. Ok ()),
      sm_verify_output_submission = (\<lambda>db ot q. Ok ()),
      sm_audit = w2_audit\<rparr>"

end
