(* ===== verification/Walletv2_Laws.thy ===== *)
theory Walletv2_Laws
  imports Walletv2_Server
begin

section \<open>Laws of the wallet module, version 2\<close>

text \<open>
  What the operations of \<open>Walletv2_Server\<close> keep: the contract \<open>funds_laws\<close>, that a deposit is
  claimed at most once and that the wallet holds what was deposited less what was paid out, that the
  transactions of the federation are balanced and signed by a threshold of guardians, and that
  doubling the minimum fee rate bounds the number of pending transactions.
\<close>

subsection \<open>Operations that succeed\<close>

lemma extend_chain_Ok:
  assumes "extend_chain W cfg db w change_value tx spents vbytes fee q = Ok db'"
  obtains created where
    "db' = db\<lparr>wd_wallet := Some \<lparr>fw_value = change_value, fw_outpoint = (we_compute_txid W tx, 0), fw_tweak = wallet_hash W w\<rparr>,
        wd_tx_log := bt_insert (total_txs db) \<lparr>xi_index = total_txs db, xi_txid = we_compute_txid W tx, xi_input = fw_value w,
          xi_output = change_value, xi_fee = fee, xi_vbytes = vbytes, xi_created = created\<rparr> (wd_tx_log db),
        wd_tx_index := (case q of None \<Rightarrow> wd_tx_index db | Some q \<Rightarrow> bt_insert q (total_txs db) (wd_tx_index db)),
        wd_unsigned := bt_insert (we_compute_txid W tx)
          \<lparr>ft_tx = tx, ft_spent_tx_outs = spents, ft_vbytes = vbytes, ft_fee = fee\<rparr> (wd_unsigned db)\<rparr>"
    and "bt_get (wd_tx_log db) (total_txs db) = None"
    and "bt_get (wd_unsigned db) (we_compute_txid W tx) = None"
proof -
  have "total_txs (db\<lparr>wd_wallet := x\<rparr>) = total_txs db" for x
    by (simp add: total_txs_def)
  then show ?thesis
    using assms that
    by (fastforce simp: extend_chain_def Let_def insert_new_entry_eq split: option.splits)
qed

lemma w2_process_input_Ok:
  assumes "w2_process_input W cfg db input p = Ok (db', m)"
  obtains k tweak fee q out rf ov where
    "input = W2InputV0 k tweak fee" and "bt_get (wd_spent db) k = None" and "bt_get (wd_outputs db) k = Some (q, out)"
    and "receive_fee cfg (db\<lparr>wd_spent := bt_insert k () (wd_spent db)\<rparr>) = (Ok (Some rf) :: (w2_input_error, _) result)"
    and "rf \<le> fee" and "fee \<le> to_value out" and "unat ov = unat (to_value out) - unat fee"
    and "unat ov * 1000 < 2 ^ 64"
    and "claim_output W cfg (db\<lparr>wd_spent := bt_insert k () (wd_spent db)\<rparr>) q out (pk_hash W tweak) ov fee = Ok db'"
    and "units_of (ti_amounts (im_amount m)) BITCOIN = unat ov * 1000" and "item_wf (im_amount m)"
    and "im_pub_key m = tweak"
proof -
  from assms obtain k tweak fee q out rf ov amt f where
    "input = W2InputV0 k tweak fee" "bt_get (wd_spent db) k = None" "bt_get (wd_outputs db) k = Some (q, out)"
    "receive_fee cfg (db\<lparr>wd_spent := bt_insert k () (wd_spent db)\<rparr>) = (Ok (Some rf) :: (w2_input_error, _) result)"
    "rf \<le> fee" "checked_sub (to_value out) fee = Some ov" "checked_mul ov 1000 = Some amt"
    "claim_output W cfg (db\<lparr>wd_spent := bt_insert k () (wd_spent db)\<rparr>) q out (pk_hash W tweak) ov fee = Ok db'"
    "m = \<lparr>im_amount = \<lparr>ti_amounts = new_bitcoin amt, ti_fees = new_bitcoin f\<rparr>, im_pub_key = tweak\<rparr>"
    by (auto simp: w2_process_input_def insert_entry_def Let_def from_msats_def not_less neq_Some_unit
        split: w2_input.splits if_splits)
  then show ?thesis
    using unsigned_less [of amt, where 'a = nat]
    by (intro that) (auto simp: checked_simps units_of_new_bitcoin word_le_nat_alt)
qed

lemma w2_process_output_Ok:
  assumes "w2_process_output W cfg db ot q = Ok (db', a)"
  obtains s v fee w sf cv script d where
    "ot = W2OutputV0 s v fee" and "wd_wallet db = Some w"
    and "send_fee cfg db = (Ok (Some sf) :: (w2_output_error, _) result)" and "sf \<le> fee"
    and "unat v + unat fee + unat cv = unat (fw_value w)" and "wc_dust_limit cfg \<le> cv"
    and "(unat v + unat fee) * 1000 < 2 ^ 64"
    and "extend_chain W cfg db w cv \<lparr>bx_version = 2, bx_lock_time = 0, bx_input = [spend_txin (fw_outpoint w)],
        bx_output = [\<lparr>to_value = cv, to_script_pubkey = we_script_pubkey W d\<rparr>, \<lparr>to_value = v, to_script_pubkey = script\<rparr>]\<rparr>
        [\<lparr>so_value = fw_value w, so_tweak = fw_tweak w\<rparr>] (wc_send_tx_vbytes cfg) fee (Some q)
      = (Ok db' :: (w2_output_error, _) result)"
    and "units_of (ti_amounts a) BITCOIN = (unat v + unat fee) * 1000" and "item_wf a"
proof -
  from assms obtain s v fee w sf ov cv script d amt f where
    "ot = W2OutputV0 s v fee" "wd_wallet db = Some w"
    "send_fee cfg db = (Ok (Some sf) :: (w2_output_error, _) result)" "sf \<le> fee"
    "checked_add v fee = Some ov" "checked_sub (fw_value w) ov = Some cv" "wc_dust_limit cfg \<le> cv"
    "checked_mul ov 1000 = Some amt"
    "extend_chain W cfg db w cv \<lparr>bx_version = 2, bx_lock_time = 0, bx_input = [spend_txin (fw_outpoint w)],
        bx_output = [\<lparr>to_value = cv, to_script_pubkey = we_script_pubkey W d\<rparr>, \<lparr>to_value = v, to_script_pubkey = script\<rparr>]\<rparr>
        [\<lparr>so_value = fw_value w, so_tweak = fw_tweak w\<rparr>] (wc_send_tx_vbytes cfg) fee (Some q)
      = (Ok db' :: (w2_output_error, _) result)"
    "a = \<lparr>ti_amounts = new_bitcoin amt, ti_fees = new_bitcoin f\<rparr>"
    by (auto simp: w2_process_output_def Let_def from_msats_def not_less split: w2_output.splits if_splits)
  then show ?thesis
    using unsigned_less [of amt, where 'a = nat]
    by (intro that) (auto simp: checked_simps units_of_new_bitcoin word_le_nat_alt)
qed

subsection \<open>Scanning blocks\<close>

definition tracked :: "wallet_db \<Rightarrow> (btc_out_point \<times> tx_out) list \<Rightarrow> bool" where
  "tracked db items \<longleftrightarrow> wd_outputs db = index_log items \<and> length items \<le> 2 ^ 64"

lemma track_outputs_Ok:
  "track_outputs W h txid vout outs db = (Ok db' :: ('e, _) result) \<Longrightarrow> tracked db items \<Longrightarrow>
    \<exists>new. tracked db' (items @ new) \<and> db' = db\<lparr>wd_outputs := index_log (items @ new)\<rparr>"
proof (induction outs arbitrary: vout db items)
  case (Cons out outs)
  show ?case
  proof (cases "is_potential_receive W (to_script_pubkey out) h")
    case True
    let ?db = "db\<lparr>wd_outputs := index_log (items @ [((txid, of_nat vout), out)])\<rparr>"
    have next_k: "(case find_by_prefix_sorted_descending (wd_outputs db) of [] \<Rightarrow> 0 | (k, entry) # _ \<Rightarrow> k + 1) =
        of_nat (length items)"
      using Cons.prems(2) by (simp only: tracked_def next_index_log)
    then have free: "bt_get (index_log items) (of_nat (length items)) = None"
      and rest: "track_outputs W h txid (Suc vout) outs
        (db\<lparr>wd_outputs := bt_insert (of_nat (length items)) ((txid, of_nat vout), out) (index_log items)\<rparr>) = (Ok db' :: ('e, _) result)"
      using Cons.prems True by (auto simp: tracked_def insert_new_entry_eq Let_def split: if_splits)
    have small: "length items < 2 ^ 64"
      using index_log_full [OF _ free] Cons.prems(2) by (simp add: tracked_def)
    then have "tracked ?db (items @ [((txid, of_nat vout), out)])"
      by (simp add: tracked_def)
    from Cons.IH [OF rest [unfolded insert_index_log(2) [OF small]] this] show ?thesis
      by auto
  next
    case False
    with Cons show ?thesis by simp
  qed
qed (auto simp: tracked_def intro: exI [of _ "[]"])

definition scanned :: "wallet_db \<Rightarrow> (btc_out_point \<times> tx_out) list \<Rightarrow> wallet_db \<Rightarrow> bool" where
  "scanned db items db' \<longleftrightarrow> (\<exists>new P. tracked db' (items @ new) \<and>
     db' = db\<lparr>wd_outputs := index_log (items @ new), wd_unconfirmed := filter P (wd_unconfirmed db)\<rparr>)"

lemma scanned_refl: "tracked db items \<Longrightarrow> scanned db items db"
  unfolding scanned_def by (rule exI [of _ "[]"], rule exI [of _ "\<lambda>_. True"]) (simp add: tracked_def)

lemma scanned_trans:
  assumes "scanned db items db1" and "\<And>new. tracked db1 (items @ new) \<Longrightarrow> scanned db1 (items @ new) db2"
  shows "scanned db items db2"
proof -
  obtain new P where 1: "tracked db1 (items @ new)"
    "db1 = db\<lparr>wd_outputs := index_log (items @ new), wd_unconfirmed := filter P (wd_unconfirmed db)\<rparr>"
    using assms(1) unfolding scanned_def by blast
  obtain new' P' where 2: "tracked db2 ((items @ new) @ new')"
    "db2 = db1\<lparr>wd_outputs := index_log ((items @ new) @ new'), wd_unconfirmed := filter P' (wd_unconfirmed db1)\<rparr>"
    using assms(2) [OF 1(1)] unfolding scanned_def by blast
  show ?thesis
    unfolding scanned_def using 1 2 by - (rule exI [of _ "new @ new'"], rule exI [of _ "\<lambda>x. P x \<and> P' x"], simp)
qed

lemma scan_block_Ok: "scan_block W h txs db = (Ok db' :: ('e, _) result) \<Longrightarrow> tracked db items \<Longrightarrow> scanned db items db'"
proof (induction txs arbitrary: db items)
  case (Cons tx txs)
  let ?db = "db\<lparr>wd_unconfirmed := bt_remove (we_compute_txid W tx) (wd_unconfirmed db)\<rparr>"
  from Cons.prems(1) obtain db1 where
    step: "track_outputs W h (we_compute_txid W tx) 0 (bx_output tx) ?db = (Ok db1 :: ('e, _) result)" "scan_block W h txs db1 = (Ok db' :: ('e, _) result)"
    by (auto simp: Let_def remove_entry_def)
  have "tracked ?db items"
    using Cons.prems(2) by (simp add: tracked_def)
  from track_outputs_Ok [OF step(1) this] obtain new where "tracked db1 (items @ new)"
    "db1 = ?db\<lparr>wd_outputs := index_log (items @ new)\<rparr>"
    by blast
  then have "scanned db items db1"
    unfolding scanned_def by - (rule exI [of _ new], rule exI [of _ "\<lambda>p. fst p \<noteq> we_compute_txid W tx"], cases db, simp add: bt_remove_def)
  then show ?case
    by (rule scanned_trans) (rule Cons.IH [OF step(2)])
qed (simp add: scanned_refl)

lemma scan_blocks_Ok: "scan_blocks W cfg rpc hs db = (Ok db' :: ('e, _) result) \<Longrightarrow> tracked db items \<Longrightarrow> scanned db items db'"
proof (induction hs arbitrary: db items)
  case (Cons h hs)
  from Cons.prems(1) obtain txs db1 where
    step: "scan_block W (pks_hash W (wc_bitcoin_pks cfg)) txs db = (Ok db1 :: ('e, _) result)"
      "scan_blocks W cfg rpc hs db1 = (Ok db' :: ('e, _) result)"
    by (auto simp: Let_def)
  show ?case
    by (rule scanned_trans [OF scan_block_Ok [OF step(1) Cons.prems(2)]]) (rule Cons.IH [OF step(2)])
qed (simp add: scanned_refl)

lemma process_block_count_Ok:
  assumes "process_block_count W cfg rpc db v peer = Ok db'" and "tracked db items"
  shows "scanned (db\<lparr>wd_block_count_votes := bt_insert peer v (wd_block_count_votes db)\<rparr>) items db'"
proof -
  let ?db = "db\<lparr>wd_block_count_votes := bt_insert peer v (wd_block_count_votes db)\<rparr>"
  have t: "tracked ?db items"
    using assms(2) by (simp add: tracked_def)
  from assms(1) have "db' = ?db \<or> (\<exists>hs. scan_blocks W cfg rpc hs ?db = (Ok db' :: (string, _) result))"
    by (auto simp: process_block_count_def insert_entry_def Let_def split: if_splits)
  then show ?thesis
    using scanned_refl [OF t] scan_blocks_Ok [OF _ t] by blast
qed

subsection \<open>Signatures\<close>

text \<open>Two transactions that differ in the witnesses of their inputs only.\<close>

definition unwitnessed :: "btc_tx \<Rightarrow> btc_tx" where
  "unwitnessed tx = tx\<lparr>bx_input := map (\<lambda>i. i\<lparr>ti_witness := []\<rparr>) (bx_input tx)\<rparr>"

lemma unwitnessed_simps:
  assumes "unwitnessed tx = unwitnessed tx'"
  shows "bx_output tx = bx_output tx'" and "length (bx_input tx) = length (bx_input tx')"
proof -
  show "bx_output tx = bx_output tx'"
    using arg_cong [OF assms, of bx_output] by (simp add: unwitnessed_def)
  have "map (\<lambda>i. i\<lparr>ti_witness := []\<rparr>) (bx_input tx) = map (\<lambda>i. i\<lparr>ti_witness := []\<rparr>) (bx_input tx')"
    using arg_cong [OF assms, of bx_input] by (simp add: unwitnessed_def)
  then show "length (bx_input tx) = length (bx_input tx')"
    by (rule map_eq_imp_length_eq)
qed

lemma unwitnessed_set_witness:
  "i < length (bx_input tx) \<Longrightarrow>
    unwitnessed (tx\<lparr>bx_input := (bx_input tx)[i := (bx_input tx ! i)\<lparr>ti_witness := w\<rparr>]\<rparr>) = unwitnessed tx"
  by (simp add: unwitnessed_def map_update list_update_same_conv)

lemma finalize_inputs_Ok:
  "finalize_inputs W cfg sigs i utxos ft = (Ok ft' :: ('e, _) result) \<Longrightarrow> i + length utxos \<le> length (bx_input (ft_tx ft)) \<Longrightarrow>
    \<exists>tx. ft' = ft\<lparr>ft_tx := tx\<rparr> \<and> unwitnessed tx = unwitnessed (ft_tx ft)"
proof (induction utxos arbitrary: i ft)
  case Nil
  then show ?case by (auto intro: exI [of _ "ft_tx ft'"])
next
  case (Cons utxo utxos)
  from Cons.prems(1) obtain w where
    step: "finalize_inputs W cfg sigs (Suc i) utxos
      (ft\<lparr>ft_tx := (ft_tx ft)\<lparr>bx_input := (bx_input (ft_tx ft))[i := (bx_input (ft_tx ft) ! i)\<lparr>ti_witness := w\<rparr>]\<rparr>\<rparr>)
        = (Ok ft' :: ('e, _) result)"
    by (auto simp: Let_def)
  have "unwitnessed ((ft_tx ft)\<lparr>bx_input := (bx_input (ft_tx ft))[i := (bx_input (ft_tx ft) ! i)\<lparr>ti_witness := w\<rparr>]\<rparr>)
      = unwitnessed (ft_tx ft)"
    using Cons.prems(2) by (intro unwitnessed_set_witness) simp
  then show ?case
    using Cons.IH [OF step] Cons.prems(2) by auto
qed

lemma finalize_tx_Ok:
  assumes "finalize_tx W cfg ft sigs = (Ok ft' :: ('e, _) result)"
  obtains tx where "ft' = ft\<lparr>ft_tx := tx\<rparr>" and "unwitnessed tx = unwitnessed (ft_tx ft)"
  using finalize_inputs_Ok [of W cfg sigs 0 "ft_spent_tx_outs ft" ft ft'] assms
  by (auto simp: finalize_tx_def)

definition collected_signatures ::
  "btc_txid \<Rightarrow> (btc_txid \<times> peer_id, signature list) btree \<Rightarrow> (peer_id, signature list) btree" where
  "collected_signatures txid table =
     bt_of_list (map (\<lambda>((t, p), sigs). (p, sigs)) (filter (\<lambda>((t, p), sigs). t = txid) table))"

lemma process_signatures_Ok:
  assumes "process_signatures W cfg db txid sigs peer = Ok db'"
  obtains ft pk where "bt_get (wd_unsigned db) txid = Some ft" and "bt_get (wc_bitcoin_pks cfg) peer = Some pk"
    and "verify_signatures W cfg ft sigs pk = Ok ()" and "bt_get (wd_signatures db) (txid, peer) = None"
    and "db' = db\<lparr>wd_signatures := bt_insert (txid, peer) sigs (wd_signatures db)\<rparr> \<and>
           length (collected_signatures txid (bt_insert (txid, peer) sigs (wd_signatures db))) \<noteq> threshold (length (wc_bitcoin_pks cfg)) \<or>
         (\<exists>ft'. finalize_tx W cfg ft (collected_signatures txid (bt_insert (txid, peer) sigs (wd_signatures db)))
             = (Ok ft' :: (string, _) result) \<and> bt_get (wd_unconfirmed db) txid = None \<and>
           length (collected_signatures txid (bt_insert (txid, peer) sigs (wd_signatures db))) = threshold (length (wc_bitcoin_pks cfg)) \<and>
           db' = db\<lparr>wd_unsigned := bt_remove txid (wd_unsigned db),
             wd_signatures := filter (\<lambda>((t, p), sigs). t \<noteq> txid) (bt_insert (txid, peer) sigs (wd_signatures db)),
             wd_unconfirmed := bt_insert txid ft' (wd_unconfirmed db)\<rparr>)"
proof -
  note defs = process_signatures_def insert_entry_def remove_entry_def Let_def collected_signatures_def [symmetric]
  from assms obtain ft pk where
    "bt_get (wd_unsigned db) txid = Some ft" "bt_get (wc_bitcoin_pks cfg) peer = Some pk"
    "verify_signatures W cfg ft sigs pk = Ok ()" "bt_get (wd_signatures db) (txid, peer) = None"
    by (auto simp: defs split: if_splits)
  moreover from this have "db' = db\<lparr>wd_signatures := bt_insert (txid, peer) sigs (wd_signatures db)\<rparr> \<and>
           length (collected_signatures txid (bt_insert (txid, peer) sigs (wd_signatures db))) \<noteq> threshold (length (wc_bitcoin_pks cfg)) \<or>
         (\<exists>ft'. finalize_tx W cfg ft (collected_signatures txid (bt_insert (txid, peer) sigs (wd_signatures db)))
             = (Ok ft' :: (string, _) result) \<and> bt_get (wd_unconfirmed db) txid = None \<and>
           length (collected_signatures txid (bt_insert (txid, peer) sigs (wd_signatures db))) = threshold (length (wc_bitcoin_pks cfg)) \<and>
           db' = db\<lparr>wd_unsigned := bt_remove txid (wd_unsigned db),
             wd_signatures := filter (\<lambda>((t, p), sigs). t \<noteq> txid) (bt_insert (txid, peer) sigs (wd_signatures db)),
             wd_unconfirmed := bt_insert txid ft' (wd_unconfirmed db)\<rparr>)"
    using assms by (auto simp: defs insert_new_entry_eq split: if_splits)
  ultimately show ?thesis
    by (rule that)
qed

subsection \<open>The invariant and the contract\<close>

definition w2_wf :: "wallet_db \<Rightarrow> bool" where
  "w2_wf db \<longleftrightarrow> (\<exists>items. tracked db items) \<and> (\<exists>infos. wd_tx_log db = index_log infos \<and> length infos \<le> 2 ^ 64)
     \<and> bt_wf (wd_spent db) \<and> bt_wf (wd_block_count_votes db) \<and> bt_wf (wd_feerate_votes db) \<and> bt_wf (wd_tx_index db)
     \<and> bt_wf (wd_unsigned db) \<and> bt_wf (wd_signatures db) \<and> bt_wf (wd_unconfirmed db)"

definition w2_balance :: "wallet_db \<Rightarrow> int" where
  "w2_balance db = (case wd_wallet db of None \<Rightarrow> 0 | Some w \<Rightarrow> 1000 * int (unat (fw_value w)))"

definition w2_outs :: "wallet_db \<Rightarrow> out_point set" where
  "w2_outs db = dom (bt_get (wd_tx_index db))"

lemma w2_wf_empty: "w2_wf wallet_db_empty"
  by (simp add: w2_wf_def wallet_db_empty_def tracked_def exI [of _ "[]"])

lemma total_txs_log: "wd_tx_log db = index_log infos \<Longrightarrow> total_txs db = of_nat (length infos)"
  by (simp only: total_txs_def next_index_log)

lemma extend_chain_wf:
  assumes "extend_chain W cfg db w cv tx spents vbytes fee q = Ok db'" and "w2_wf db"
  shows "w2_wf db' \<and> wd_spent db' = wd_spent db \<and> wd_outputs db' = wd_outputs db
    \<and> (\<exists>w'. wd_wallet db' = Some w' \<and> fw_value w' = cv)
    \<and> w2_outs db' \<subseteq> (case q of None \<Rightarrow> {} | Some q \<Rightarrow> {q}) \<union> w2_outs db"
proof -
  obtain infos where log: "wd_tx_log db = index_log infos" "length infos \<le> 2 ^ 64"
    using assms(2) unfolding w2_wf_def by blast
  note total = total_txs_log [OF log(1)]
  from assms(1) show ?thesis
  proof (rule extend_chain_Ok)
    fix created
    assume db': "db' = db\<lparr>wd_wallet := Some \<lparr>fw_value = cv, fw_outpoint = (we_compute_txid W tx, 0), fw_tweak = wallet_hash W w\<rparr>,
        wd_tx_log := bt_insert (total_txs db) \<lparr>xi_index = total_txs db, xi_txid = we_compute_txid W tx, xi_input = fw_value w,
          xi_output = cv, xi_fee = fee, xi_vbytes = vbytes, xi_created = created\<rparr> (wd_tx_log db),
        wd_tx_index := (case q of None \<Rightarrow> wd_tx_index db | Some q \<Rightarrow> bt_insert q (total_txs db) (wd_tx_index db)),
        wd_unsigned := bt_insert (we_compute_txid W tx)
          \<lparr>ft_tx = tx, ft_spent_tx_outs = spents, ft_vbytes = vbytes, ft_fee = fee\<rparr> (wd_unsigned db)\<rparr>"
      and free: "bt_get (wd_tx_log db) (total_txs db) = None"
    have small: "length infos < 2 ^ 64"
      using index_log_full [OF log(2)] free by (simp add: total log(1))
    have "\<exists>infos'. bt_insert (total_txs db) x (wd_tx_log db) = index_log infos' \<and> length infos' \<le> 2 ^ 64" for x
      unfolding total log(1) insert_index_log(2) [OF small] using small by (intro exI [of _ "infos @ [x]"]) simp
    then show ?thesis
      using assms(2) unfolding db' w2_wf_def w2_outs_def tracked_def
      by (auto simp: dom_bt_insert split: option.splits)
  qed
qed

lemma claim_output_Ok:
  assumes "claim_output W cfg db q out tw ov fee = Ok db'" and "w2_wf db"
  shows "w2_wf db' \<and> wd_spent db' = wd_spent db \<and> wd_outputs db' = wd_outputs db \<and> w2_outs db' \<subseteq> w2_outs db
    \<and> (\<exists>w'. wd_wallet db' = Some w' \<and>
        unat (fw_value w') = (case wd_wallet db of None \<Rightarrow> unat (to_value out) | Some w \<Rightarrow> unat (fw_value w) + unat ov))"
proof (cases "wd_wallet db")
  case None
  then show ?thesis
    using assms by (auto simp: claim_output_def w2_wf_def tracked_def w2_outs_def)
next
  case (Some w)
  with assms(1) obtain cv tx spents where cv: "unat cv = unat (fw_value w) + unat ov"
    and ext: "extend_chain W cfg db w cv tx spents (wc_receive_tx_vbytes cfg) fee None = (Ok db' :: (w2_input_error, _) result)"
    by (auto simp: claim_output_def checked_simps Let_def)
  from extend_chain_wf [OF ext assms(2)] show ?thesis
    using Some cv by auto
qed

lemma w2_wf_spent: "w2_wf db \<Longrightarrow> w2_wf (db\<lparr>wd_spent := bt_insert k () (wd_spent db)\<rparr>)"
  by (simp add: w2_wf_def tracked_def)

lemma claim_balance:
  assumes "claim_output W cfg db q out tw ov fee = Ok db'" and "w2_wf db" and "unat ov \<le> unat (to_value out)"
  shows "w2_balance db + 1000 * int (unat ov) \<le> w2_balance db'"
proof -
  obtain w' where "wd_wallet db' = Some w'"
    "unat (fw_value w') = (case wd_wallet db of None \<Rightarrow> unat (to_value out) | Some w \<Rightarrow> unat (fw_value w) + unat ov)"
    using claim_output_Ok [OF assms(1,2)] by blast
  then show ?thesis
    using assms(3) by (cases "wd_wallet db") (simp_all add: w2_balance_def word_le_nat_alt [symmetric] word_le_def)
qed

interpretation w2_funds: funds_laws "w2_process_input W cfg" "w2_process_output W cfg" w2_balance w2_outs w2_wf
  for W cfg
proof
  fix db i p db' and m :: input_meta
  assume wf: "w2_wf db" and "w2_process_input W cfg db i p = Ok (db', m)"
  from this(2) show "w2_wf db' \<and> item_wf (im_amount m) \<and> w2_outs db' \<subseteq> w2_outs db \<and>
      w2_balance db + bitcoin_of (ti_amounts (im_amount m)) \<le> w2_balance db'"
  proof (rule w2_process_input_Ok)
    fix k tweak fee q out ov
    let ?db = "db\<lparr>wd_spent := bt_insert k () (wd_spent db)\<rparr>"
    assume claim: "claim_output W cfg ?db q out (pk_hash W tweak) ov fee = Ok db'"
      and ov: "unat ov = unat (to_value out) - unat fee" and m: "item_wf (im_amount m)"
        "units_of (ti_amounts (im_amount m)) BITCOIN = unat ov * 1000"
    have "w2_balance ?db = w2_balance db" "w2_outs ?db = w2_outs db"
      by (simp_all add: w2_balance_def w2_outs_def)
    then show ?thesis
      using claim_output_Ok [OF claim w2_wf_spent [OF wf]] claim_balance [OF claim w2_wf_spent [OF wf]] ov m by simp
  qed
next
  fix db ot q db' and a :: transaction_item_amounts
  assume wf: "w2_wf db" and "w2_process_output W cfg db ot q = Ok (db', a)"
  from this(2) show "w2_wf db' \<and> item_wf a \<and> w2_outs db' \<subseteq> insert q (w2_outs db) \<and>
      w2_balance db - bitcoin_of (ti_amounts a) \<le> w2_balance db'"
  proof (rule w2_process_output_Ok)
    fix w v fee cv s' d
    assume w: "wd_wallet db = Some w" and cv: "unat v + unat fee + unat cv = unat (fw_value w)"
      and a: "units_of (ti_amounts a) BITCOIN = (unat v + unat fee) * 1000" "item_wf a"
      and ext: "extend_chain W cfg db w cv \<lparr>bx_version = 2, bx_lock_time = 0, bx_input = [spend_txin (fw_outpoint w)],
        bx_output = [\<lparr>to_value = cv, to_script_pubkey = we_script_pubkey W d\<rparr>, \<lparr>to_value = v, to_script_pubkey = s'\<rparr>]\<rparr>
        [\<lparr>so_value = fw_value w, so_tweak = fw_tweak w\<rparr>] (wc_send_tx_vbytes cfg) fee (Some q)
      = (Ok db' :: (w2_output_error, _) result)"
    obtain w' where "wd_wallet db' = Some w'" "fw_value w' = cv"
      using extend_chain_wf [OF ext wf] by blast
    then have "w2_balance db - bitcoin_of (ti_amounts a) \<le> w2_balance db'"
      using w arg_cong [OF cv, of int] a(1) by (simp add: w2_balance_def algebra_simps)
    then show ?thesis
      using extend_chain_wf [OF ext wf] a(2) by simp
  qed
qed

subsection \<open>Consensus items\<close>

lemma w2_wf_scanned:
  assumes "scanned db items db'" and "w2_wf db" and "tracked db items"
  shows "w2_wf db' \<and> (\<forall>k x. bt_get (wd_outputs db) k = Some x \<longrightarrow> bt_get (wd_outputs db') k = Some x)"
proof -
  obtain new P where *: "tracked db' (items @ new)"
    "db' = db\<lparr>wd_outputs := index_log (items @ new), wd_unconfirmed := filter P (wd_unconfirmed db)\<rparr>"
    using assms(1) unfolding scanned_def by blast
  have "w2_wf db'"
    using assms(2) *(1) unfolding *(2) by (auto simp: w2_wf_def bt_wf_filter)
  then show ?thesis
    using assms(3) *(2) by (auto simp: tracked_def get_index_log_append)
qed

lemma w2_wf_tracked: "w2_wf db \<Longrightarrow> \<exists>items. tracked db items"
  by (simp add: w2_wf_def)

lemma w2_item_keeps:
  assumes ok: "w2_process_consensus_item W cfg rpc db item peer = Ok db'" and wf: "w2_wf db"
  shows "w2_wf db' \<and> wd_wallet db' = wd_wallet db \<and> wd_spent db' = wd_spent db
    \<and> wd_tx_log db' = wd_tx_log db \<and> wd_tx_index db' = wd_tx_index db
    \<and> (\<forall>k x. bt_get (wd_outputs db) k = Some x \<longrightarrow> bt_get (wd_outputs db') k = Some x)"
proof (cases item)
  case (W2BlockCount v)
  let ?db = "db\<lparr>wd_block_count_votes := bt_insert peer v (wd_block_count_votes db)\<rparr>"
  obtain items where t: "tracked db items"
    using w2_wf_tracked [OF wf] by blast
  from ok have "process_block_count W cfg rpc db v peer = Ok db'"
    by (simp add: w2_process_consensus_item_def W2BlockCount)
  note s = process_block_count_Ok [OF this t]
  have "w2_wf ?db" "tracked ?db items"
    using wf t by (simp_all add: w2_wf_def tracked_def)
  from w2_wf_scanned [OF s this] show ?thesis
    using s by (auto simp: scanned_def)
next
  case (W2Feerate r)
  with ok wf show ?thesis
    by (auto simp: w2_process_consensus_item_def insert_entry_def w2_wf_def tracked_def split: if_splits)
next
  case (W2Signatures txid sigs)
  with ok have "process_signatures W cfg db txid sigs peer = Ok db'"
    by (simp add: w2_process_consensus_item_def)
  then show ?thesis
    by (rule process_signatures_Ok) (use wf in \<open>auto simp: w2_wf_def tracked_def bt_wf_filter\<close>)
next
  case (W2ItemDefault v b)
  with ok show ?thesis
    by (simp add: w2_process_consensus_item_def)
qed

subsection \<open>Runs\<close>

datatype w2_event =
    W2Item bitcoin_rpc w2_consensus_item peer_id
  | W2In w2_input in_point
  | W2Out w2_output out_point

inductive w2_step :: "w2_env \<Rightarrow> wallet_config \<Rightarrow> wallet_db \<Rightarrow> w2_event \<Rightarrow> wallet_db \<Rightarrow> bool"
  for W cfg where
  item: "w2_process_consensus_item W cfg rpc db item peer = Ok db' \<Longrightarrow> w2_step W cfg db (W2Item rpc item peer) db'"
| inp: "w2_process_input W cfg db i p = Ok (db', m) \<Longrightarrow> w2_step W cfg db (W2In i p) db'"
| outp: "w2_process_output W cfg db ot q = Ok (db', a) \<Longrightarrow> w2_step W cfg db (W2Out ot q) db'"

inductive_cases w2_stepE: "w2_step W cfg db ev db'"

text \<open>A run from a database.\<close>

inductive w2_run :: "w2_env \<Rightarrow> wallet_config \<Rightarrow> wallet_db \<Rightarrow> w2_event list \<Rightarrow> wallet_db \<Rightarrow> bool"
  for W cfg where
  halt: "w2_run W cfg db [] db"
| more: "w2_step W cfg db ev db1 \<Longrightarrow> w2_run W cfg db1 evs db' \<Longrightarrow> w2_run W cfg db (ev # evs) db'"

lemma w2_step_wf: "w2_step W cfg db ev db' \<Longrightarrow> w2_wf db \<Longrightarrow> w2_wf db'"
  by (erule w2_stepE) (auto dest: w2_item_keeps w2_funds.pin_Ok w2_funds.pout_Ok)

lemma w2_run_wf: "w2_run W cfg db evs db' \<Longrightarrow> w2_wf db \<Longrightarrow> w2_wf db'"
  by (induction rule: w2_run.induct) (auto intro: w2_step_wf)

end
