(* ===== verification/Walletv2_Chain.thy ===== *)
theory Walletv2_Chain
  imports Walletv2_Laws
begin

section \<open>The chain of federation transactions\<close>

text \<open>
  What the runs of \<open>Walletv2_Laws\<close> amount to. To its users the wallet module is a vault: a number of
  satoshis that deposits, each claimed once, increase and that payouts decrease. The runs of the
  module refine the vault. Below the vault, the federation transactions form a chain of balanced
  transactions that are signed by a threshold of guardians before they are broadcast.
\<close>

subsection \<open>The vault\<close>

record vault =
  vl_value :: nat
  vl_claimed :: "u64 set"
  vl_open :: bool

datatype vault_event = Deposit u64 nat nat | Withdraw nat

definition vault_empty :: vault where
  "vault_empty = \<lparr>vl_value = 0, vl_claimed = {}, vl_open = False\<rparr>"

text \<open>The first deposit needs no transaction of the federation, so its fee stays in the vault.\<close>

fun vault_step :: "nat \<Rightarrow> vault \<Rightarrow> vault_event \<Rightarrow> vault option" where
  "vault_step dust v (Deposit k value fee) =
     (if k \<in> vl_claimed v \<or> value < fee then None
      else Some \<lparr>vl_value = (if vl_open v then vl_value v + (value - fee) else value),
                 vl_claimed = insert k (vl_claimed v), vl_open = True\<rparr>)"
| "vault_step dust v (Withdraw amount) =
     (if vl_open v \<and> amount + dust \<le> vl_value v then Some (v\<lparr>vl_value := vl_value v - amount\<rparr>) else None)"

fun vault_run :: "nat \<Rightarrow> vault \<Rightarrow> vault_event list \<Rightarrow> vault option" where
  "vault_run dust v [] = Some v"
| "vault_run dust v (e # es) = (case vault_step dust v e of None \<Rightarrow> None | Some v \<Rightarrow> vault_run dust v es)"

definition vault_of :: "wallet_db \<Rightarrow> vault" where
  "vault_of db = \<lparr>vl_value = (case wd_wallet db of None \<Rightarrow> 0 | Some w \<Rightarrow> unat (fw_value w)),
     vl_claimed = dom (bt_get (wd_spent db)), vl_open = (wd_wallet db \<noteq> None)\<rparr>"

definition tracked_value :: "wallet_db \<Rightarrow> u64 \<Rightarrow> nat" where
  "tracked_value db k = (case bt_get (wd_outputs db) k of None \<Rightarrow> 0 | Some (q, out) \<Rightarrow> unat (to_value out))"

text \<open>What an event is to the vault; the values of deposits are looked up in a database.\<close>

fun vault_events :: "wallet_db \<Rightarrow> w2_event \<Rightarrow> vault_event list" where
  "vault_events db (W2In (W2InputV0 k tweak fee) p) = [Deposit k (tracked_value db k) (unat fee)]"
| "vault_events db (W2Out (W2OutputV0 s v fee) q) = [Withdraw (unat v + unat fee)]"
| "vault_events db ev = []"

lemma vault_run_append:
  "vault_run dust v (es @ fs) = (case vault_run dust v es of None \<Rightarrow> None | Some v \<Rightarrow> vault_run dust v fs)"
  by (induction dust v es rule: vault_run.induct) (auto split: option.splits)

lemma step_refines:
  assumes "w2_step W cfg db ev db'" and wf: "w2_wf db"
  shows "vault_run (unat (wc_dust_limit cfg)) (vault_of db) (vault_events db ev) = Some (vault_of db')
    \<and> (\<forall>k x. bt_get (wd_outputs db) k = Some x \<longrightarrow> bt_get (wd_outputs db') k = Some x)"
  using assms(1)
proof (rule w2_stepE)
  fix rpc item peer
  assume "ev = W2Item rpc item peer" and "w2_process_consensus_item W cfg rpc db item peer = Ok db'"
  then show ?thesis
    using w2_item_keeps [OF _ wf] by (simp add: vault_of_def)
next
  fix i p m
  assume ev: "ev = W2In i p" and "w2_process_input W cfg db i p = Ok (db', m)"
  from this(2) show ?thesis
  proof (rule w2_process_input_Ok)
    fix k tweak fee q out ov
    let ?db = "db\<lparr>wd_spent := bt_insert k () (wd_spent db)\<rparr>"
    assume i: "i = W2InputV0 k tweak fee" and fresh: "bt_get (wd_spent db) k = None"
      and out: "bt_get (wd_outputs db) k = Some (q, out)" and fee: "fee \<le> to_value out"
      and ov: "unat ov = unat (to_value out) - unat fee"
      and claim: "claim_output W cfg ?db q out (pk_hash W tweak) ov fee = Ok db'"
    from claim_output_Ok [OF claim w2_wf_spent [OF wf]] show ?thesis
      using fresh out fee ov
      by (auto simp: ev i tracked_value_def vault_of_def dom_bt_insert word_le_nat_alt split: option.splits)
  qed
next
  fix ot q a
  assume ev: "ev = W2Out ot q" and "w2_process_output W cfg db ot q = Ok (db', a)"
  from this(2) show ?thesis
  proof (rule w2_process_output_Ok)
    fix s w v fee cv s' d
    assume ot: "ot = W2OutputV0 s v fee" and w: "wd_wallet db = Some w" and dust: "wc_dust_limit cfg \<le> cv"
      and cv: "unat v + unat fee + unat cv = unat (fw_value w)"
      and ext: "extend_chain W cfg db w cv \<lparr>bx_version = 2, bx_lock_time = 0, bx_input = [spend_txin (fw_outpoint w)],
        bx_output = [\<lparr>to_value = cv, to_script_pubkey = we_script_pubkey W d\<rparr>, \<lparr>to_value = v, to_script_pubkey = s'\<rparr>]\<rparr>
        [\<lparr>so_value = fw_value w, so_tweak = fw_tweak w\<rparr>] (wc_send_tx_vbytes cfg) fee (Some q)
      = (Ok db' :: (w2_output_error, _) result)"
    have "unat (wc_dust_limit cfg) \<le> unat cv"
      using dust by (simp add: word_le_nat_alt)
    then show ?thesis
      using extend_chain_wf [OF ext wf] w by (auto simp: ev ot vault_of_def cv [symmetric])
  qed
qed

lemma run_refines:
  "w2_run W cfg db evs db' \<Longrightarrow> w2_wf db \<Longrightarrow>
    vault_run (unat (wc_dust_limit cfg)) (vault_of db) (concat (map (vault_events db') evs)) = Some (vault_of db')
    \<and> (\<forall>k x. bt_get (wd_outputs db) k = Some x \<longrightarrow> bt_get (wd_outputs db') k = Some x)"
proof (induction rule: w2_run.induct)
  case (more db ev db1 evs db')
  note step = step_refines [OF more.hyps(1) more.prems]
  note rest = more.IH [OF w2_step_wf [OF more.hyps(1) more.prems]]
  have "vault_events db' ev = vault_events db ev"
  proof (cases "(db', ev)" rule: vault_events.cases)
    case (1 x k tweak fee p)
    then obtain q out where "bt_get (wd_outputs db) k = Some (q, out)"
      using more.hyps(1) by (auto elim!: w2_stepE elim: w2_process_input_Ok)
    moreover from this have "bt_get (wd_outputs db') k = Some (q, out)"
      using step rest by blast
    ultimately show ?thesis
      using 1 by (simp add: tracked_value_def)
  qed auto
  then show ?case
    using step rest by (simp add: vault_run_append)
qed simp

subsection \<open>Properties of the vault\<close>

fun deposits :: "vault_event list \<Rightarrow> (u64 \<times> nat) list" where
  "deposits [] = []"
| "deposits (Deposit k value fee # es) = (k, value) # deposits es"
| "deposits (Withdraw amount # es) = deposits es"

fun withdrawn :: "vault_event list \<Rightarrow> nat" where
  "withdrawn [] = 0"
| "withdrawn (Deposit k value fee # es) = withdrawn es"
| "withdrawn (Withdraw amount # es) = amount + withdrawn es"

lemma vault_run_conserves:
  "vault_run dust v es = Some v' \<Longrightarrow> distinct (map fst (deposits es)) \<and> set (map fst (deposits es)) \<inter> vl_claimed v = {}
    \<and> vl_claimed v' = vl_claimed v \<union> set (map fst (deposits es))
    \<and> vl_value v' + withdrawn es \<le> vl_value v + sum_list (map snd (deposits es))"
proof (induction dust v es rule: vault_run.induct)
  case (2 dust v e es)
  then show ?case
    by (cases e) (auto split: if_splits option.splits)
qed simp

subsection \<open>A sample run\<close>

text \<open>One guardian; a deposit is claimed, and a payout is made and signed.\<close>

definition sample_w2_env :: w2_env where
  "sample_w2_env = \<lparr>we_benc = (\<lambda>n. []), we_sha256 = (\<lambda>b. []), we_outpoint_bytes = (\<lambda>q. []), we_script_bytes = (\<lambda>s. s),
     we_compute_txid = (\<lambda>tx. [of_nat (length (bx_output tx))]), we_add_exp_tweak = (\<lambda>pk t. Some pk),
     we_sk_add_tweak = (\<lambda>sk t. Some sk), we_sk_public_key = (\<lambda>sk. sk),
     we_new_sortedmulti = (\<lambda>n pks. Some (concat pks)), we_script_pubkey = (\<lambda>d. d), we_script_code = (\<lambda>d. d),
     we_satisfy = (\<lambda>d sigs. Some (map snd sigs)), we_sighash = (\<lambda>tx i s v. Some []), we_sign_ecdsa = (\<lambda>m sk. sk),
     we_verify_ecdsa = (\<lambda>m sig pk. sig = pk), we_standard_script = (\<lambda>s. [7]), we_is_p2wsh = (\<lambda>s. True),
     we_block_hash = (\<lambda>h. h)\<rparr>"

definition sample_w2_config :: wallet_config where
  "sample_w2_config = \<lparr>wc_bitcoin_sk = [5], wc_bitcoin_pks = [(0, [5])], wc_send_tx_vbytes = 166,
     wc_receive_tx_vbytes = 192, wc_feerate_base = 250, wc_dust_limit = 10000,
     wc_fee_consensus = \<lparr>fc_base = 100000, fc_ppm = 0\<rparr>, wc_network = Regtest\<rparr>"

definition sample_rpc :: bitcoin_rpc where
  "sample_rpc = \<lparr>rpc_status_of = None,
     rpc_block_hash = (\<lambda>height. [ucast height]),
     rpc_block = (\<lambda>h. \<lparr>bl_header = h, bl_txdata = [\<lparr>bx_version = 2, bx_lock_time = 0, bx_input = [],
       bx_output = [\<lparr>to_value = 100000, to_script_pubkey = [5]\<rparr>]\<rparr>]\<rparr>)\<rparr>"

definition sample_w2_voted :: wallet_db where
  "sample_w2_voted = wallet_db_empty\<lparr>wd_outputs := [(0, ([1], 0), \<lparr>to_value = 100000, to_script_pubkey = [5]\<rparr>)],
     wd_block_count_votes := [(0, 1)]\<rparr>"

definition sample_w2_rated :: wallet_db where
  "sample_w2_rated = sample_w2_voted\<lparr>wd_feerate_votes := [(0, Some 1000)]\<rparr>"

definition sample_w2_claimed :: wallet_db where
  "sample_w2_claimed = sample_w2_rated\<lparr>wd_spent := [(0, ())],
     wd_wallet := Some \<lparr>fw_value = 100000, fw_outpoint = ([1], 0), fw_tweak = []\<rparr>\<rparr>"

definition sample_payout :: "bytes list \<Rightarrow> federation_tx" where
  "sample_payout witness = \<lparr>ft_tx = \<lparr>bx_version = 2, bx_lock_time = 0,
       bx_input = [\<lparr>ti_previous_output = ([1], 0), ti_sequence = ENABLE_RBF_NO_LOCKTIME, ti_witness = witness\<rparr>],
       bx_output = [\<lparr>to_value = 79800, to_script_pubkey = [5]\<rparr>, \<lparr>to_value = 20000, to_script_pubkey = [7]\<rparr>]\<rparr>,
     ft_spent_tx_outs = [\<lparr>so_value = 100000, so_tweak = []\<rparr>], ft_vbytes = 166, ft_fee = 200\<rparr>"

definition sample_w2_paid :: wallet_db where
  "sample_w2_paid = sample_w2_claimed\<lparr>wd_tx_log := [(0, \<lparr>xi_index = 0, xi_txid = [2], xi_input = 100000,
       xi_output = 79800, xi_fee = 200, xi_vbytes = 166, xi_created = 1\<rparr>)],
     wd_tx_index := [(([], 0), 0)], wd_unsigned := [([2], sample_payout [])],
     wd_wallet := Some \<lparr>fw_value = 79800, fw_outpoint = ([2], 0), fw_tweak = []\<rparr>\<rparr>"

definition sample_w2_final :: wallet_db where
  "sample_w2_final = sample_w2_paid\<lparr>wd_unsigned := [], wd_unconfirmed := [([2], sample_payout [[5]])]\<rparr>"

definition sample_w2_events :: "w2_event list" where
  "sample_w2_events = [W2Item sample_rpc (W2BlockCount 1) 0, W2Item sample_rpc (W2Feerate (Some 1000)) 0,
     W2In (W2InputV0 0 [3] 200) ([], 0), W2Out (W2OutputV0 (P2TR [9]) 20000 200) ([], 0),
     W2Item sample_rpc (W2Signatures [2] [[5]]) 0]"

lemmas w2_eval = w2_process_consensus_item_def process_block_count_def w2_consensus_block_count_def wallet_db_empty_def
  bt_values_def insert_entry_def unwrap_or_def slice_get_def threshold_def max_evil_def np_total_def usize_sub_def
  find_by_prefix_sorted_descending_def insert_new_entry_def is_potential_receive_def remove_entry_def bt_remove_def
  sample_w2_env_def sample_w2_config_def sample_rpc_def Let_def
  w2_process_input_def w2_descriptor_def tweak_public_key_def pk_hash_def receive_fee_def consensus_fee_def
  pending_txs_unordered_def consensus_feerate_def saturating_mul_def checked_sub_def claim_output_def checked_mul_def
  from_msats_def walletv2_fee_def walletv2_fee_msats_def checked_add_def spend_txin_def extend_chain_def total_txs_def
  w2_process_output_def send_fee_def wallet_hash_def map_filter_simps
  process_signatures_def verify_signatures_def input_sighash_def finalize_tx_def satisfier_def bt_of_list_def
  sample_w2_voted_def sample_w2_rated_def sample_w2_claimed_def sample_payout_def sample_w2_paid_def sample_w2_final_def

lemma sample_w2_run_paid:
  "w2_run sample_w2_env sample_w2_config wallet_db_empty (butlast sample_w2_events) sample_w2_paid"
proof -
  have "w2_process_consensus_item sample_w2_env sample_w2_config sample_rpc wallet_db_empty (W2BlockCount 1) 0 = Ok sample_w2_voted"
    by (simp add: w2_eval cong: rbind_weak_cong let_weak_cong)
  moreover have "w2_process_consensus_item sample_w2_env sample_w2_config sample_rpc sample_w2_voted (W2Feerate (Some 1000)) 0
      = Ok sample_w2_rated"
    by (simp add: w2_eval cong: rbind_weak_cong let_weak_cong)
  moreover have "\<exists>m. w2_process_input sample_w2_env sample_w2_config sample_w2_rated (W2InputV0 0 [3] 200) ([], 0)
      = Ok (sample_w2_claimed, m)"
    by (simp add: w2_eval cong: rbind_weak_cong let_weak_cong)
  moreover have "\<exists>a. w2_process_output sample_w2_env sample_w2_config sample_w2_claimed (W2OutputV0 (P2TR [9]) 20000 200) ([], 0)
      = Ok (sample_w2_paid, a)"
    by (simp add: w2_eval cong: rbind_weak_cong let_weak_cong)
  ultimately show ?thesis
    by (auto simp: sample_w2_events_def intro!: w2_run.intros intro: w2_step.intros)
qed

lemma w2_run_snoc: "w2_run W cfg db evs db1 \<Longrightarrow> w2_step W cfg db1 ev db' \<Longrightarrow> w2_run W cfg db (evs @ [ev]) db'"
  by (induction rule: w2_run.induct) (auto intro: w2_run.intros)

lemma sample_w2_run: "w2_run sample_w2_env sample_w2_config wallet_db_empty sample_w2_events sample_w2_final"
proof -
  have "w2_process_consensus_item sample_w2_env sample_w2_config sample_rpc sample_w2_paid (W2Signatures [2] [[5]]) 0
      = Ok sample_w2_final"
    by (simp add: w2_eval cong: rbind_weak_cong let_weak_cong)
  then show ?thesis
    using w2_run_snoc [OF sample_w2_run_paid w2_step.item] by (simp add: sample_w2_events_def)
qed

lemma sample_w2_vault_events:
  "concat (map (vault_events sample_w2_final) sample_w2_events) = [Deposit 0 100000 200, Withdraw 20200]"
  by (simp add: sample_w2_events_def tracked_value_def w2_eval)

text \<open>
  C7: the wallet module, version 2, refines the vault: every run of consensus items, claims and
  payouts is, with the deposits it claims and the payouts it makes, a run of the vault from the vault of
  the first state to the vault of the last.
\<close>

theorem walletv2_refines_vault:
  assumes "w2_run W cfg db evs db'" and "w2_wf db"
  shows "vault_run (unat (wc_dust_limit cfg)) (vault_of db) (concat (map (vault_events db') evs)) = Some (vault_of db')"
  using run_refines [OF assms] by blast

theorem walletv2_refines_vault_witness:
  "vault_run 10000 (vault_of wallet_db_empty) [Deposit 0 100000 200, Withdraw 20200] = Some (vault_of sample_w2_final)"
  using walletv2_refines_vault [OF sample_w2_run w2_wf_empty, unfolded sample_w2_vault_events]
  by (simp add: sample_w2_config_def)

text \<open>
  C8: along every run from the empty database no deposit is claimed twice, the claimed deposits are
  the spent ones of the table, and what the federation wallet holds together with all payouts and
  their fees is covered by the deposits that were claimed.
\<close>

theorem walletv2_solvent:
  assumes "w2_run W cfg wallet_db_empty evs db"
  shows "distinct (map fst (deposits (concat (map (vault_events db) evs))))
    \<and> set (map fst (deposits (concat (map (vault_events db) evs)))) = dom (bt_get (wd_spent db))
    \<and> vl_value (vault_of db) + withdrawn (concat (map (vault_events db) evs))
        \<le> sum_list (map snd (deposits (concat (map (vault_events db) evs))))"
proof -
  have start: "vl_claimed (vault_of wallet_db_empty) = {}" "vl_value (vault_of wallet_db_empty) = 0"
    by (simp_all add: vault_of_def wallet_db_empty_def)
  have final: "vl_claimed (vault_of db) = dom (bt_get (wd_spent db))"
    by (simp add: vault_of_def)
  have "vault_run (unat (wc_dust_limit cfg)) (vault_of wallet_db_empty) (concat (map (vault_events db) evs)) = Some (vault_of db)"
    using run_refines [OF assms w2_wf_empty] by blast
  from vault_run_conserves [OF this] show ?thesis
    unfolding start final by simp
qed

theorem walletv2_solvent_witness:
  "vl_value (vault_of sample_w2_final) + 20200 \<le> 100000"
  using walletv2_solvent [OF sample_w2_run, unfolded sample_w2_vault_events] by simp

end
