(* ===== verification/Walletv2_Pending.thy ===== *)
theory Walletv2_Pending
  imports Walletv2_Chain
begin

section \<open>Pending transactions of the federation\<close>

text \<open>
  The invariant of the transactions that are not confirmed yet. Each spends what it creates and its
  fee; the votes kept for it are valid signatures; the log of transactions is a chain that ends in the
  wallet; and the fees rise with the number of transactions that wait. The last part is what bounds
  the stack of pending transactions, on which the module asserts that it has at most 32 entries.
\<close>

subsection \<open>Counting pending transactions\<close>

definition pending_count :: "(federation_tx \<Rightarrow> bool) \<Rightarrow> wallet_db \<Rightarrow> nat" where
  "pending_count P db = bt.total (\<lambda>k ft. of_bool (P ft)) (wd_unsigned db) + bt.total (\<lambda>k ft. of_bool (P ft)) (wd_unconfirmed db)"

lemma total_of_bool: "bt.total (\<lambda>k v. of_bool (P v)) m = length (filter P (bt_values m))"
  by (induction m) (auto simp: bt.total_def bt_values_def)

lemma pending_count_eq: "pending_count P db = length (filter P (pending_txs_unordered db))"
  by (simp add: pending_count_def total_of_bool pending_txs_unordered_def)

lemma pending_count_le: "pending_count P db \<le> length (pending_txs_unordered db)"
  by (simp add: pending_count_eq)

lemma total_filter_le: "bt.total (\<lambda>k v. of_bool (P v)) (filter Q m) \<le> (bt.total (\<lambda>k v. of_bool (P v)) m :: nat)"
  by (induction m) (auto simp: bt.total_def)

text \<open>
  The fee a transaction has to pay when \<open>j\<close> others are pending: the smaller of the two kinds of
  transaction, at the base rate doubled \<open>j\<close> times, in satoshis per thousand bytes.
\<close>

definition required_fee :: "wallet_config \<Rightarrow> nat \<Rightarrow> nat" where
  "required_fee cfg j =
     min (min (unat (wc_send_tx_vbytes cfg)) (unat (wc_receive_tx_vbytes cfg)) * (unat (wc_feerate_base cfg) * 2 ^ j)) (2 ^ 64 - 1) div 1000"

lemma required_fee_mono: "i \<le> j \<Longrightarrow> required_fee cfg i \<le> required_fee cfg j"
  unfolding required_fee_def by (intro div_le_mono min.mono mult_le_mono order_refl power_increasing) auto

lemma consensus_fee_required:
  assumes "consensus_fee cfg db vbytes = Ok (Some fee)"
    and "vbytes = wc_send_tx_vbytes cfg \<or> vbytes = wc_receive_tx_vbytes cfg" and "wc_feerate_base cfg < 2 ^ 32"
  shows "length (pending_txs_unordered db) \<le> 32 \<and> required_fee cfg (length (pending_txs_unordered db)) \<le> unat fee"
proof -
  let ?n = "length (pending_txs_unordered db)" and ?base = "wc_feerate_base cfg"
  have u1000: "unat (1000 :: u64) = 1000"
    by simp
  from assms(1) obtain rate stack where n: "?n \<le> 32"
    and "fee = max (saturating_mul vbytes (max rate (push_bit ?n ?base)) div 1000) stack"
    by (auto simp: consensus_fee_def Let_def split: option.splits)
  then have fee: "saturating_mul vbytes (max rate (push_bit ?n ?base)) div 1000 \<le> fee"
    by simp
  have "unat ?base < 2 ^ 32"
    using assms(3) by (simp add: word_less_nat_alt)
  then have "unat ?base * 2 ^ ?n < 2 ^ 32 * 2 ^ 32"
    using n by (intro mult_less_le_imp_less power_increasing) auto
  then have "unat (push_bit ?n ?base) = unat ?base * 2 ^ ?n"
    unfolding unsigned_push_bit_eq by (simp add: push_bit_eq_mult take_bit_nat_eq_self)
  moreover have "unat (push_bit ?n ?base) \<le> unat (max rate (push_bit ?n ?base))"
    by (simp add: word_le_nat_alt [symmetric])
  moreover have "min (unat (wc_send_tx_vbytes cfg)) (unat (wc_receive_tx_vbytes cfg)) \<le> unat vbytes"
    using assms(2) by auto
  ultimately have "min (unat (wc_send_tx_vbytes cfg)) (unat (wc_receive_tx_vbytes cfg)) * (unat ?base * 2 ^ ?n)
      \<le> unat vbytes * unat (max rate (push_bit ?n ?base))"
    by (intro mult_le_mono) simp_all
  then have "required_fee cfg ?n \<le> unat (saturating_mul vbytes (max rate (push_bit ?n ?base)) div 1000)"
    unfolding required_fee_def unat_div unat_saturating_mul u1000 by (intro div_le_mono min.mono) simp_all
  then show ?thesis
    using n fee by (simp add: word_le_nat_alt)
qed

subsection \<open>The invariant\<close>

definition balanced_tx :: "federation_tx \<Rightarrow> bool" where
  "balanced_tx ft \<longleftrightarrow> length (ft_spent_tx_outs ft) = length (bx_input (ft_tx ft))
     \<and> (\<Sum>x\<leftarrow>ft_spent_tx_outs ft. unat (so_value x)) = (\<Sum>x\<leftarrow>bx_output (ft_tx ft). unat (to_value x)) + unat (ft_fee ft)"

definition signatures_ok :: "w2_env \<Rightarrow> wallet_config \<Rightarrow> wallet_db \<Rightarrow> bool" where
  "signatures_ok W cfg db \<longleftrightarrow> (\<forall>txid peer sigs. bt_get (wd_signatures db) (txid, peer) = Some sigs \<longrightarrow>
     (\<exists>ft pk. bt_get (wd_unsigned db) txid = Some ft \<and> bt_get (wc_bitcoin_pks cfg) peer = Some pk
        \<and> verify_signatures W cfg ft sigs pk = Ok ()))"

definition linked :: "tx_info list \<Rightarrow> federation_wallet option \<Rightarrow> bool" where
  "linked infos w \<longleftrightarrow> (\<forall>i. Suc i < length infos \<longrightarrow> xi_input (infos ! Suc i) = xi_output (infos ! i))
     \<and> (infos \<noteq> [] \<longrightarrow> (\<exists>v. w = Some v \<and> fw_value v = xi_output (last infos) \<and> fw_outpoint v = (xi_txid (last infos), 0)))"

definition w2_inv :: "w2_env \<Rightarrow> wallet_config \<Rightarrow> wallet_db \<Rightarrow> bool" where
  "w2_inv W cfg db \<longleftrightarrow> w2_wf db
     \<and> (\<forall>ft\<in>set (pending_txs_unordered db). balanced_tx ft)
     \<and> (\<forall>j. pending_count (\<lambda>ft. unat (ft_fee ft) < required_fee cfg j) db \<le> j)
     \<and> signatures_ok W cfg db \<and> linked (tx_chain db) (wd_wallet db)"

lemma w2_inv_empty: "w2_inv W cfg wallet_db_empty"
  using w2_wf_empty by (simp add: w2_inv_def pending_count_def pending_txs_unordered_def wallet_db_empty_def bt_values_def
      bt.total_def signatures_ok_def linked_def tx_chain_def)

lemma linked_snoc:
  assumes "linked infos (Some w)" and "xi_input x = fw_value w" and "fw_value w' = xi_output x" and "fw_outpoint w' = (xi_txid x, 0)"
  shows "linked (infos @ [x]) (Some w')"
proof -
  have "xi_input ((infos @ [x]) ! Suc i) = xi_output ((infos @ [x]) ! i)" if "Suc i < length (infos @ [x])" for i
  proof (cases "Suc i < length infos")
    case False
    then have "i = length infos - 1" "infos \<noteq> []"
      using that by auto
    then show ?thesis
      using assms(1,2) by (auto simp: linked_def nth_append last_conv_nth)
  qed (use assms(1) in \<open>simp add: linked_def nth_append\<close>)
  then show ?thesis
    using assms(3,4) by (simp add: linked_def)
qed

lemma set_bt_values_insert: "set (bt_values (bt_insert k v m)) \<subseteq> insert v (set (bt_values m))"
proof -
  have "set (bt_insert k v m) \<subseteq> insert (k, v) (set m)"
    by (induction m) (auto split: if_splits)
  then show ?thesis
    by (auto simp: bt_values_def)
qed

lemma bt_values_index_log: "bt_values (index_log xs) = xs"
  by (simp add: bt_values_def index_log_def comp_def map_nth)

lemma set_pending: "set (pending_txs_unordered db) = set (bt_values (wd_unsigned db)) \<union> set (bt_values (wd_unconfirmed db))"
  by (simp add: pending_txs_unordered_def)

lemma extend_chain_inv:
  assumes ext: "extend_chain W cfg db w cv tx spents vbytes fee q = Ok db'" and inv: "w2_inv W cfg db" and w: "wd_wallet db = Some w"
    and bal: "balanced_tx \<lparr>ft_tx = tx, ft_spent_tx_outs = spents, ft_vbytes = vbytes, ft_fee = fee\<rparr>"
    and fee: "required_fee cfg (length (pending_txs_unordered db)) \<le> unat fee"
  shows "w2_inv W cfg db'"
proof -
  have wf: "w2_wf db"
    using inv by (simp add: w2_inv_def)
  then obtain infos where log: "wd_tx_log db = index_log infos" "length infos \<le> 2 ^ 64"
    unfolding w2_wf_def by blast
  note total = total_txs_log [OF log(1)]
  let ?ft = "\<lparr>ft_tx = tx, ft_spent_tx_outs = spents, ft_vbytes = vbytes, ft_fee = fee\<rparr>"
  from ext show ?thesis
  proof (rule extend_chain_Ok)
    fix created
    let ?info = "\<lparr>xi_index = total_txs db, xi_txid = we_compute_txid W tx, xi_input = fw_value w,
          xi_output = cv, xi_fee = fee, xi_vbytes = vbytes, xi_created = created\<rparr>"
    assume db': "db' = db\<lparr>wd_wallet := Some \<lparr>fw_value = cv, fw_outpoint = (we_compute_txid W tx, 0), fw_tweak = wallet_hash W w\<rparr>,
        wd_tx_log := bt_insert (total_txs db) ?info (wd_tx_log db),
        wd_tx_index := (case q of None \<Rightarrow> wd_tx_index db | Some q \<Rightarrow> bt_insert q (total_txs db) (wd_tx_index db)),
        wd_unsigned := bt_insert (we_compute_txid W tx) ?ft (wd_unsigned db)\<rparr>"
      and free: "bt_get (wd_tx_log db) (total_txs db) = None"
      and new: "bt_get (wd_unsigned db) (we_compute_txid W tx) = None"
    have small: "length infos < 2 ^ 64"
      using index_log_full [OF log(2)] free by (simp add: total log(1))
    have chain: "tx_chain db' = tx_chain db @ [?info]"
      unfolding db' tx_chain_def by (simp add: total log(1) insert_index_log(2) [OF small] bt_values_index_log)
    have count: "pending_count P db' = of_bool (P ?ft) + pending_count P db" for P
      using wf new by (simp add: db' pending_count_def bt.total_insert_new w2_wf_def)
    have "pending_count (\<lambda>ft. unat (ft_fee ft) < required_fee cfg j) db' \<le> j" for j
    proof (cases "j \<le> length (pending_txs_unordered db)")
      case True
      then have "\<not> unat fee < required_fee cfg j"
        using required_fee_mono [OF True, of cfg] fee by linarith
      then show ?thesis
        using inv by (simp add: count w2_inv_def)
    next
      case False
      then show ?thesis
        using pending_count_le [of "\<lambda>ft. unat (ft_fee ft) < required_fee cfg j" db] by (simp add: count)
    qed
    moreover have "\<forall>ft\<in>set (pending_txs_unordered db'). balanced_tx ft"
      using inv bal set_bt_values_insert [of "we_compute_txid W tx" ?ft "wd_unsigned db"]
      unfolding w2_inv_def set_pending db' by auto
    moreover have "signatures_ok W cfg db'"
      using inv new by (force simp: w2_inv_def signatures_ok_def db' map_of_bt_insert)
    moreover have "linked (tx_chain db') (wd_wallet db')"
      unfolding chain using inv w by (auto simp: w2_inv_def db' intro!: linked_snoc)
    ultimately show ?thesis
      using extend_chain_wf [OF ext wf] by (simp add: w2_inv_def)
  qed
qed

subsection \<open>Every operation keeps the invariant\<close>

lemma w2_inv_cong:
  assumes "w2_inv W cfg db" and "w2_wf db'" and "wd_unsigned db' = wd_unsigned db" and "wd_unconfirmed db' = filter P (wd_unconfirmed db)"
    and "wd_signatures db' = wd_signatures db" and "wd_tx_log db' = wd_tx_log db" and "linked (tx_chain db) (wd_wallet db')"
  shows "w2_inv W cfg db'"
proof -
  have le: "pending_count Q db' \<le> pending_count Q db" for Q
    using total_filter_le [of Q P "wd_unconfirmed db"] assms(3,4) by (simp add: pending_count_def)
  have "pending_count (\<lambda>ft. unat (ft_fee ft) < required_fee cfg j) db' \<le> j" for j
    using assms(1) by (intro order_trans [OF le]) (simp add: w2_inv_def)
  moreover have "set (pending_txs_unordered db') \<subseteq> set (pending_txs_unordered db)"
    unfolding set_pending assms(3,4) by (auto simp: bt_values_def)
  moreover have "tx_chain db' = tx_chain db" "signatures_ok W cfg db' = signatures_ok W cfg db"
    by (simp_all add: tx_chain_def signatures_ok_def assms(3,5,6))
  ultimately show ?thesis
    using assms(1,2,7) unfolding w2_inv_def by auto
qed

lemma claim_output_inv:
  assumes ok: "claim_output W cfg db q out tw ov fee = Ok db'" and inv: "w2_inv W cfg db"
    and ov: "unat ov = unat (to_value out) - unat fee" and le: "unat fee \<le> unat (to_value out)"
    and fee: "required_fee cfg (length (pending_txs_unordered db)) \<le> unat fee"
  shows "w2_inv W cfg db'"
proof (cases "wd_wallet db")
  case None
  then have "tx_chain db = []"
    using inv by (auto simp: w2_inv_def linked_def)
  moreover have "w2_wf db'"
    using claim_output_Ok [OF ok] inv by (simp add: w2_inv_def)
  moreover obtain w where "db' = db\<lparr>wd_wallet := Some w\<rparr>"
    using ok None by (auto simp: claim_output_def)
  ultimately show ?thesis
    by (intro w2_inv_cong [OF inv, of db' "\<lambda>_. True"]) (simp_all add: linked_def)
next
  case (Some w)
  with ok obtain cv d where cv: "unat cv = unat (fw_value w) + unat ov"
    and ext: "extend_chain W cfg db w cv \<lparr>bx_version = 2, bx_lock_time = 0,
        bx_input = [spend_txin (fw_outpoint w), spend_txin q],
        bx_output = [\<lparr>to_value = cv, to_script_pubkey = we_script_pubkey W d\<rparr>]\<rparr>
        [\<lparr>so_value = fw_value w, so_tweak = fw_tweak w\<rparr>, \<lparr>so_value = to_value out, so_tweak = tw\<rparr>]
        (wc_receive_tx_vbytes cfg) fee None = (Ok db' :: (w2_input_error, _) result)"
    by (auto simp: claim_output_def checked_simps Let_def)
  show ?thesis
    by (rule extend_chain_inv [OF ext inv Some _ fee]) (use cv ov le in \<open>simp add: balanced_tx_def\<close>)
qed

lemma w2_input_inv:
  assumes "w2_process_input W cfg db i p = Ok (db', m)" and inv: "w2_inv W cfg db" and base: "wc_feerate_base cfg < 2 ^ 32"
  shows "w2_inv W cfg db'"
  using assms(1)
proof (rule w2_process_input_Ok)
  fix k tweak fee q out rf ov
  let ?db = "db\<lparr>wd_spent := bt_insert k () (wd_spent db)\<rparr>"
  assume rf: "receive_fee cfg ?db = (Ok (Some rf) :: (w2_input_error, _) result)" "rf \<le> fee" and le: "fee \<le> to_value out"
    and ov: "unat ov = unat (to_value out) - unat fee"
    and claim: "claim_output W cfg ?db q out (pk_hash W tweak) ov fee = Ok db'"
  have "w2_inv W cfg ?db"
    using inv by (intro w2_inv_cong [OF inv, of ?db "\<lambda>_. True"]) (simp_all add: w2_inv_def w2_wf_spent)
  moreover have "required_fee cfg (length (pending_txs_unordered ?db)) \<le> unat fee"
    using consensus_fee_required [OF rf(1) [unfolded receive_fee_def] _ base] rf(2) by (simp add: word_le_nat_alt)
  ultimately show ?thesis
    using le by (intro claim_output_inv [OF claim _ ov]) (simp_all add: word_le_nat_alt)
qed

lemma w2_output_inv:
  assumes "w2_process_output W cfg db ot q = Ok (db', a)" and inv: "w2_inv W cfg db" and base: "wc_feerate_base cfg < 2 ^ 32"
  shows "w2_inv W cfg db'"
  using assms(1)
proof (rule w2_process_output_Ok)
  fix w v fee cv s' d sf
  assume w: "wd_wallet db = Some w" and cv: "unat v + unat fee + unat cv = unat (fw_value w)"
    and sf: "send_fee cfg db = (Ok (Some sf) :: (w2_output_error, _) result)" "sf \<le> fee"
    and ext: "extend_chain W cfg db w cv \<lparr>bx_version = 2, bx_lock_time = 0, bx_input = [spend_txin (fw_outpoint w)],
      bx_output = [\<lparr>to_value = cv, to_script_pubkey = we_script_pubkey W d\<rparr>, \<lparr>to_value = v, to_script_pubkey = s'\<rparr>]\<rparr>
      [\<lparr>so_value = fw_value w, so_tweak = fw_tweak w\<rparr>] (wc_send_tx_vbytes cfg) fee (Some q)
      = (Ok db' :: (w2_output_error, _) result)"
  have "required_fee cfg (length (pending_txs_unordered db)) \<le> unat fee"
    using consensus_fee_required [OF sf(1) [unfolded send_fee_def] _ base] sf(2) by (simp add: word_le_nat_alt)
  then show ?thesis
    by (intro extend_chain_inv [OF ext inv w]) (use cv in \<open>simp_all add: balanced_tx_def\<close>)
qed

lemma collected_signatures_wf:
  assumes "bt_wf table"
  shows "bt_wf (collected_signatures txid table)"
    and "bt_get (collected_signatures txid table) p = Some s \<Longrightarrow> bt_get table (txid, p) = Some s"
proof -
  let ?c = "map (\<lambda>((t, p), sigs). (p, sigs)) (filter (\<lambda>((t, p), sigs). t = txid) table)"
  have "sorted_wrt (<) (map fst table)"
    using assms by (rule bt_wf_sorted)
  then have "sorted_wrt (<) (map fst ?c)"
    by (induction table) (auto simp: less_prod_def)
  then have c: "collected_signatures txid table = ?c"
    unfolding collected_signatures_def by (intro bt_of_list_wf) (simp add: bt_wf_def)
  then show "bt_wf (collected_signatures txid table)"
    using \<open>sorted_wrt (<) (map fst ?c)\<close> by (simp add: bt_wf_def)
  show "bt_get table (txid, p) = Some s" if "bt_get (collected_signatures txid table) p = Some s"
    using map_of_SomeD [OF that [unfolded c]] bt.entries_distinct [OF assms] by (auto intro: map_of_is_SomeI)
qed

lemma signature_table_ok:
  assumes "signatures_ok W cfg db" and "bt_get (wd_unsigned db) txid = Some ft" and "bt_get (wc_bitcoin_pks cfg) peer = Some pk"
    and "verify_signatures W cfg ft sigs pk = Ok ()"
  shows "signatures_ok W cfg (db\<lparr>wd_signatures := bt_insert (txid, peer) sigs (wd_signatures db)\<rparr>)"
  using assms by (auto simp: signatures_ok_def map_of_bt_insert)

lemma get_filter_keys: "bt_get (filter (\<lambda>((t, p), s). t \<noteq> txid) m) (t, p) = (if t = txid then None else bt_get m (t, p))"
  by (induction m) auto

lemma finalize_balanced:
  assumes "finalize_tx W cfg ft S = (Ok ft' :: ('e, _) result)" and "balanced_tx ft"
  shows "balanced_tx ft'"
  using assms(1)
proof (rule finalize_tx_Ok)
  fix tx
  assume "ft' = ft\<lparr>ft_tx := tx\<rparr>" and "unwitnessed tx = unwitnessed (ft_tx ft)"
  then show ?thesis
    using assms(2) unwitnessed_simps [of tx "ft_tx ft"] by (simp add: balanced_tx_def)
qed

lemma unsigned_balanced: "w2_inv W cfg db \<Longrightarrow> bt_get (wd_unsigned db) txid = Some ft \<Longrightarrow> balanced_tx ft"
  using map_of_SomeD [of "wd_unsigned db" txid ft] by (force simp: w2_inv_def set_pending bt_values_def)

lemma signatures_inv:
  assumes ok: "process_signatures W cfg db txid sigs peer = Ok db'" and inv: "w2_inv W cfg db" and wf': "w2_wf db'"
  shows "w2_inv W cfg db'"
  using ok
proof (rule process_signatures_Ok)
  fix ft pk
  let ?t = "bt_insert (txid, peer) sigs (wd_signatures db)"
  assume ft: "bt_get (wd_unsigned db) txid = Some ft" and pk: "bt_get (wc_bitcoin_pks cfg) peer = Some pk"
    and ver: "verify_signatures W cfg ft sigs pk = Ok ()"
    and cases: "db' = db\<lparr>wd_signatures := ?t\<rparr> \<and>
           length (collected_signatures txid ?t) \<noteq> threshold (length (wc_bitcoin_pks cfg)) \<or>
         (\<exists>ft'. finalize_tx W cfg ft (collected_signatures txid ?t) = (Ok ft' :: (string, _) result)
           \<and> bt_get (wd_unconfirmed db) txid = None \<and>
           length (collected_signatures txid ?t) = threshold (length (wc_bitcoin_pks cfg)) \<and>
           db' = db\<lparr>wd_unsigned := bt_remove txid (wd_unsigned db),
             wd_signatures := filter (\<lambda>((t, p), sigs). t \<noteq> txid) ?t, wd_unconfirmed := bt_insert txid ft' (wd_unconfirmed db)\<rparr>)"
  have sigs: "signatures_ok W cfg (db\<lparr>wd_signatures := ?t\<rparr>)"
    using inv by (intro signature_table_ok [OF _ ft pk ver]) (simp add: w2_inv_def)
  from cases show ?thesis
  proof (elim disjE exE conjE)
    assume db': "db' = db\<lparr>wd_signatures := ?t\<rparr>"
    then have "pending_txs_unordered db' = pending_txs_unordered db" "tx_chain db' = tx_chain db"
      by (simp_all add: pending_txs_unordered_def tx_chain_def)
    then show ?thesis
      using inv sigs wf' by (simp add: w2_inv_def db' pending_count_eq)
  next
    fix ft'
    assume fin: "finalize_tx W cfg ft (collected_signatures txid ?t) = (Ok ft' :: (string, _) result)"
      and none: "bt_get (wd_unconfirmed db) txid = None"
      and db': "db' = db\<lparr>wd_unsigned := bt_remove txid (wd_unsigned db),
             wd_signatures := filter (\<lambda>((t, p), sigs). t \<noteq> txid) ?t, wd_unconfirmed := bt_insert txid ft' (wd_unconfirmed db)\<rparr>"
    from fin obtain tx where tx: "ft' = ft\<lparr>ft_tx := tx\<rparr>" "unwitnessed tx = unwitnessed (ft_tx ft)"
      by (rule finalize_tx_Ok)
    have wf: "bt_wf (wd_unsigned db)" "bt_wf (wd_unconfirmed db)"
      using inv by (simp_all add: w2_inv_def w2_wf_def)
    have "pending_count (\<lambda>ft. unat (ft_fee ft) < c) db' = pending_count (\<lambda>ft. unat (ft_fee ft) < c) db" for c
      using bt.total_remove [OF wf(1) ft, of "\<lambda>k ft. of_bool (unat (ft_fee ft) < c) :: nat"]
      by (simp add: pending_count_def db' bt.total_insert_new [OF wf(2) none] tx(1))
    moreover have "balanced_tx ft'"
      by (rule finalize_balanced [OF fin unsigned_balanced [OF inv ft]])
    then have "\<forall>ft\<in>set (pending_txs_unordered db'). balanced_tx ft"
      using inv set_bt_values_insert [of txid ft' "wd_unconfirmed db"]
      unfolding w2_inv_def set_pending db' by (auto simp: bt_values_def bt_remove_def)
    moreover have "signatures_ok W cfg db'"
      using sigs by (auto simp: signatures_ok_def db' get_filter_keys map_of_bt_remove)
    moreover have "linked (tx_chain db') (wd_wallet db')"
      using inv by (simp add: w2_inv_def db' tx_chain_def)
    ultimately show ?thesis
      using inv wf' by (simp add: w2_inv_def)
  qed
qed

lemma w2_item_inv:
  assumes ok: "w2_process_consensus_item W cfg rpc db item peer = Ok db'" and inv: "w2_inv W cfg db"
  shows "w2_inv W cfg db'"
proof -
  have wf: "w2_wf db" and link: "linked (tx_chain db) (wd_wallet db)"
    using inv by (simp_all add: w2_inv_def)
  note keeps = w2_item_keeps [OF ok wf]
  show ?thesis
  proof (cases item)
    case (W2BlockCount v)
    obtain items where t: "tracked db items"
      using w2_wf_tracked [OF wf] by blast
    from ok have "process_block_count W cfg rpc db v peer = Ok db'"
      by (simp add: w2_process_consensus_item_def W2BlockCount)
    from process_block_count_Ok [OF this t] obtain outs P where
      "db' = db\<lparr>wd_block_count_votes := bt_insert peer v (wd_block_count_votes db), wd_outputs := outs,
        wd_unconfirmed := filter P (wd_unconfirmed db)\<rparr>"
      by (auto simp: scanned_def)
    then show ?thesis
      using keeps link by (intro w2_inv_cong [OF inv, of db' P]) simp_all
  next
    case (W2Feerate r)
    with ok have "db' = db\<lparr>wd_feerate_votes := bt_insert peer r (wd_feerate_votes db)\<rparr>"
      by (auto simp: w2_process_consensus_item_def insert_entry_def split: if_splits)
    then show ?thesis
      using keeps link by (intro w2_inv_cong [OF inv, of db' "\<lambda>_. True"]) simp_all
  next
    case (W2Signatures txid sigs)
    with ok have "process_signatures W cfg db txid sigs peer = Ok db'"
      by (simp add: w2_process_consensus_item_def)
    from signatures_inv [OF this inv] show ?thesis
      using keeps by blast
  qed (use ok in \<open>simp add: w2_process_consensus_item_def\<close>)
qed

lemma w2_run_inv:
  "w2_run W cfg db evs db' \<Longrightarrow> w2_inv W cfg db \<Longrightarrow> wc_feerate_base cfg < 2 ^ 32 \<Longrightarrow> w2_inv W cfg db'"
proof (induction rule: w2_run.induct)
  case (more db ev db1 evs db')
  then have "w2_inv W cfg db1"
    by (auto elim!: w2_stepE intro: w2_item_inv w2_input_inv w2_output_inv)
  with more show ?case by blast
qed

subsection \<open>Properties\<close>

text \<open>
  C9: the stack of pending transactions. When \<open>n\<close> transactions wait, the next one pays at least the
  base fee rate doubled \<open>n\<close> times; so if every pending transaction paid less than that for \<open>n\<close>, at most
  \<open>n\<close> are pending. For \<open>n = 32\<close> this is the assertion in \<open>consensus_fee\<close>: it can only fail once a
  transaction has paid a fee of \<open>2 ^ 32\<close> times the base fee.
\<close>

theorem walletv2_pending_bounded:
  assumes "w2_run W cfg wallet_db_empty evs db" and "wc_feerate_base cfg < 2 ^ 32"
    and "\<forall>ft\<in>set (pending_txs_unordered db). unat (ft_fee ft) < required_fee cfg n"
  shows "length (pending_txs_unordered db) \<le> n"
proof -
  have "w2_inv W cfg db"
    using w2_run_inv [OF assms(1) w2_inv_empty assms(2)] .
  then have "length (filter (\<lambda>ft. unat (ft_fee ft) < required_fee cfg n) (pending_txs_unordered db)) \<le> n"
    unfolding w2_inv_def pending_count_eq by blast
  then show ?thesis
    using assms(3) by simp
qed

theorem walletv2_pending_bounded_witness:
  "length (pending_txs_unordered sample_w2_final) \<le> 3"
proof -
  have "wc_feerate_base sample_w2_config < 2 ^ 32" "required_fee sample_w2_config 3 = 332"
    by (simp_all add: sample_w2_config_def required_fee_def)
  moreover have "pending_txs_unordered sample_w2_final = [sample_payout [[5]]]"
    by (simp add: w2_eval)
  ultimately show ?thesis
    using walletv2_pending_bounded [OF sample_w2_run, of 3] by (simp add: sample_payout_def)
qed

text \<open>
  C10: a transaction of the federation becomes ready for broadcast only when exactly a threshold of
  guardians have given signatures for every output it spends that verify under their keys; its
  witnesses are built from these signatures, and it creates what it spends less its fee.
\<close>

theorem walletv2_broadcast_signed:
  assumes "w2_run W cfg wallet_db_empty evs db" and "wc_feerate_base cfg < 2 ^ 32"
    and "process_signatures W cfg db txid sigs peer = Ok db'"
    and "bt_get (wd_unconfirmed db) txid = None" and "bt_get (wd_unconfirmed db') txid = Some stx"
  shows "\<exists>ft S. length S = threshold (length (wc_bitcoin_pks cfg)) \<and> bt_wf S
    \<and> (\<forall>p s. bt_get S p = Some s \<longrightarrow> (\<exists>pk. bt_get (wc_bitcoin_pks cfg) p = Some pk \<and> verify_signatures W cfg ft s pk = Ok ()))
    \<and> finalize_tx W cfg ft S = (Ok stx :: (string, _) result) \<and> balanced_tx stx"
proof -
  have inv: "w2_inv W cfg db"
    using w2_run_inv [OF assms(1) w2_inv_empty assms(2)] .
  let ?t = "bt_insert (txid, peer) sigs (wd_signatures db)"
  from assms(3) show ?thesis
  proof (rule process_signatures_Ok)
    fix ft pk
    assume ft: "bt_get (wd_unsigned db) txid = Some ft" and pk: "bt_get (wc_bitcoin_pks cfg) peer = Some pk"
      and ver: "verify_signatures W cfg ft sigs pk = Ok ()"
      and "db' = db\<lparr>wd_signatures := ?t\<rparr> \<and> length (collected_signatures txid ?t) \<noteq> threshold (length (wc_bitcoin_pks cfg)) \<or>
         (\<exists>ft'. finalize_tx W cfg ft (collected_signatures txid ?t) = (Ok ft' :: (string, _) result)
           \<and> bt_get (wd_unconfirmed db) txid = None \<and>
           length (collected_signatures txid ?t) = threshold (length (wc_bitcoin_pks cfg)) \<and>
           db' = db\<lparr>wd_unsigned := bt_remove txid (wd_unsigned db),
             wd_signatures := filter (\<lambda>((t, p), sigs). t \<noteq> txid) ?t, wd_unconfirmed := bt_insert txid ft' (wd_unconfirmed db)\<rparr>)"
    then have fin: "finalize_tx W cfg ft (collected_signatures txid ?t) = (Ok stx :: (string, _) result)"
      and len: "length (collected_signatures txid ?t) = threshold (length (wc_bitcoin_pks cfg))"
      using assms(4,5) by (auto simp: map_of_bt_insert)
    have wf: "bt_wf ?t"
      using inv by (simp add: w2_inv_def w2_wf_def)
    have "signatures_ok W cfg (db\<lparr>wd_signatures := ?t\<rparr>)"
      using inv by (intro signature_table_ok [OF _ ft pk ver]) (simp add: w2_inv_def)
    then have "\<forall>p s. bt_get (collected_signatures txid ?t) p = Some s \<longrightarrow>
        (\<exists>pk. bt_get (wc_bitcoin_pks cfg) p = Some pk \<and> verify_signatures W cfg ft s pk = Ok ())"
      using ft collected_signatures_wf(2) [OF wf, of txid] by (fastforce simp: signatures_ok_def)
    moreover have "balanced_tx stx"
      by (rule finalize_balanced [OF fin unsigned_balanced [OF inv ft]])
    ultimately show ?thesis
      using fin len collected_signatures_wf(1) [OF wf] by blast
  qed
qed

theorem walletv2_broadcast_signed_witness:
  "\<exists>ft S. length S = threshold 1 \<and> bt_wf S
    \<and> finalize_tx sample_w2_env sample_w2_config ft S = (Ok (sample_payout [[5]]) :: (string, _) result)
    \<and> balanced_tx (sample_payout [[5]])"
proof -
  have "w2_run sample_w2_env sample_w2_config wallet_db_empty (butlast sample_w2_events) sample_w2_paid"
    by (rule sample_w2_run_paid)
  moreover have "wc_feerate_base sample_w2_config < 2 ^ 32" "length (wc_bitcoin_pks sample_w2_config) = 1"
    by (simp_all add: sample_w2_config_def)
  moreover have "process_signatures sample_w2_env sample_w2_config sample_w2_paid [2] [[5]] 0 = Ok sample_w2_final"
    by (simp add: w2_eval cong: rbind_weak_cong let_weak_cong)
  moreover have "bt_get (wd_unconfirmed sample_w2_paid) [2] = None"
    "bt_get (wd_unconfirmed sample_w2_final) [2] = Some (sample_payout [[5]])"
    by (simp_all add: w2_eval)
  ultimately show ?thesis
    using walletv2_broadcast_signed [of sample_w2_env sample_w2_config "butlast sample_w2_events" sample_w2_paid "[2]" "[[5]]" 0
        sample_w2_final "sample_payout [[5]]"] by metis
qed

end
