(* ===== verification/Engine.thy ===== *)
theory Engine
  imports Transaction Balance_Sheet BigSize
begin

section \<open>The consensus engine\<close>

text \<open>
  \<open>fedimint-server/src/consensus/engine.rs\<close>, with the session types of
  \<open>fedimint-core/src/session_outcome.rs\<close> and the keychain of \<open>consensus/aleph_bft/keychain.rs\<close>:
  an ordered consensus item is processed in one database transaction, after which every module is
  audited and the net assets have to be non-negative; the accepted items of a session are collected,
  signed by the guardians and stored. The atomic broadcast is a library, and what it and the peers
  deliver is the list of events the session loops receive. Time, metrics and checkpoints of the
  database are left out.
\<close>

subsection \<open>Items and sessions\<close>

datatype ('i, 'o, 'c) consensus_item =
    CITransaction "('i, 'o) transaction"
  | CIModule module_instance_id 'c
  | CIDefault u64 bytes

record ('i, 'o, 'c) accepted_item =
  ac_item :: "('i, 'o, 'c) consensus_item"
  ac_peer :: peer_id

type_synonym ('i, 'o, 'c) session_outcome = "('i, 'o, 'c) accepted_item list"

record ('i, 'o, 'c) signed_session_outcome =
  sso_session_outcome :: "('i, 'o, 'c) session_outcome"
  sso_signatures :: "(peer_id, signature) btree"

datatype ('i, 'o, 'c) session_status =
    SessionInitial
  | SessionPending "('i, 'o, 'c) accepted_item list"
  | SessionComplete "('i, 'o, 'c) session_outcome"

datatype ('i, 'o, 'c) session_status_v2 =
    SessionInitialV2
  | SessionPendingV2 "('i, 'o, 'c) accepted_item list"
  | SessionCompleteV2 "('i, 'o, 'c) signed_session_outcome"

fun session_status_from_v2 :: "('i, 'o, 'c) session_status_v2 \<Rightarrow> ('i, 'o, 'c) session_status" where
  "session_status_from_v2 SessionInitialV2 = SessionInitial"
| "session_status_from_v2 (SessionPendingV2 items) = SessionPending items"
| "session_status_from_v2 (SessionCompleteV2 signed_outcome) = SessionComplete (sso_session_outcome signed_outcome)"

text \<open>
  What the engine is configured with. The hash, the encoders of items and keys, the merkle root of
  the \<open>bitcoin\<close> crate and the Schnorr signatures are given; \<open>en_decode\<close> decodes a batch with the
  decoders of the modules.
\<close>

record ('s, 'i, 'o, 'c, 'ie, 'oe) engine =
  en_tx_env :: "('i, 'o) tx_env"
  en_modules :: "('s, 'i, 'o, 'c, 'ie, 'oe) module_registry"
  en_version :: core_consensus_version
  en_identity :: peer_id
  en_broadcast_public_keys :: "(peer_id, public_key) btree"
  en_broadcast_rounds_per_session :: u16
  en_sha256 :: "bytes \<Rightarrow> bytes"
  en_enc_item :: "('i, 'o, 'c) accepted_item encoder"
  en_calculate_root :: "bytes list \<Rightarrow> bytes option"
  en_decode :: "bytes \<Rightarrow> (decode_error, ('i, 'o, 'c) consensus_item list) result"
  en_sign_schnorr :: "bytes \<Rightarrow> signature"
  en_verify_schnorr :: "signature \<Rightarrow> bytes \<Rightarrow> public_key \<Rightarrow> bool"
  en_signature_from_slice :: "bytes \<Rightarrow> signature option"

record ('s, 'i, 'o, 'c) engine_db =
  ed_modules :: "'s module_dbs"
  ed_accepted_items :: "(u64, ('i, 'o, 'c) accepted_item) btree"
  ed_accepted_txs :: "(txid, module_instance_id list) btree"
  ed_signed_session_outcomes :: "(u64, ('i, 'o, 'c) signed_session_outcome) btree"

subsection \<open>Processing an item\<close>

definition process_consensus_item_with_db_transaction ::
  "('s, 'i, 'o, 'c, 'ie, 'oe) engine \<Rightarrow> ('s, 'i, 'o, 'c) engine_db \<Rightarrow> ('i, 'o, 'c) consensus_item \<Rightarrow> peer_id
    \<Rightarrow> (string, ('s, 'i, 'o, 'c) engine_db) result" where
  "process_consensus_item_with_db_transaction E db consensus_item peer =
     (case consensus_item of
        CIModule instance_id module_item \<Rightarrow>
          rbind (get_expect (en_modules E) instance_id) (\<lambda>m.
          rbind (sm_process_consensus_item m (ed_modules db instance_id) module_item peer) (\<lambda>s.
            Ok (db\<lparr>ed_modules := (ed_modules db)(instance_id := s)\<rparr>)))
      | CITransaction tx \<Rightarrow>
          let txid = tx_hash (en_tx_env E) tx
          in if bt_get (ed_accepted_txs db) txid \<noteq> None then Err ''Transaction is already accepted''
             else
               rbind (map_err (\<lambda>error. ''transaction error'')
                 (process_transaction_with_dbtx (en_tx_env E) (en_modules E) (ed_modules db) tx (en_version E) Consensus)) (\<lambda>dbs.
                 Ok (db\<lparr>ed_modules := dbs,
                        ed_accepted_txs := snd (insert_entry txid (map fst (tx_outputs tx)) (ed_accepted_txs db))\<rparr>))
      | CIDefault variant bytes \<Rightarrow> Err ''Unexpected consensus item type'')"

fun audit_modules ::
  "('s, 'i, 'o, 'c, 'ie, 'oe) module_registry \<Rightarrow> 's module_dbs \<Rightarrow> audit \<Rightarrow> 's module_dbs \<times> audit" where
  "audit_modules [] dbs audit = (dbs, audit)"
| "audit_modules ((instance_id, m) # rest) dbs audit =
     (case sm_audit m (dbs instance_id) audit instance_id of (s, audit) \<Rightarrow>
        audit_modules rest (dbs(instance_id := s)) audit)"

text \<open>
  One attempt: the inner result is the fate of the item, the outer one that of the commit, whose
  outcome is the argument \<open>commit\<close>.
\<close>

definition process_consensus_item_attempt ::
  "('s, 'i, 'o, 'c, 'ie, 'oe) engine \<Rightarrow> (database_error, unit) result \<Rightarrow> ('s, 'i, 'o, 'c) engine_db \<Rightarrow> u64
    \<Rightarrow> ('i, 'o, 'c) consensus_item \<Rightarrow> peer_id \<Rightarrow> (database_error, (string, ('s, 'i, 'o, 'c) engine_db) result) result" where
  "process_consensus_item_attempt E commit db item_index item peer =
     (case bt_get (ed_accepted_items db) item_index of
        Some existing_item \<Rightarrow>
          if ac_item existing_item = item \<and> ac_peer existing_item = peer then Ok (Ok db)
          else Ok (Err ''Item was discarded previously'')
      | None \<Rightarrow>
          (case process_consensus_item_with_db_transaction E db item peer of
             Panic \<Rightarrow> Panic
           | Err err \<Rightarrow> Ok (Err err)
           | Ok db1 \<Rightarrow>
               let db1 = db1\<lparr>ed_accepted_items :=
                     snd (insert_entry item_index \<lparr>ac_item = item, ac_peer = peer\<rparr> (ed_accepted_items db1))\<rparr>;
                   (dbs, audit) = audit_modules (en_modules E) (ed_modules db1) []
               in rbind (expect (net_assets audit)) (\<lambda>net_assets.
                  rbind (rassert (0 \<le> sint (ai_milli_sat net_assets))) (\<lambda>_.
                  rbind commit (\<lambda>_. Ok (Ok (db1\<lparr>ed_modules := dbs\<rparr>)))))))"

definition MAX_ITEM_PROCESSING_ATTEMPTS :: nat where
  "MAX_ITEM_PROCESSING_ATTEMPTS = 10"

text \<open>Attempts are repeated while the snapshot is too old; \<open>commits\<close> is the outcome of each commit.\<close>

function attempt_loop ::
  "('s, 'i, 'o, 'c, 'ie, 'oe) engine \<Rightarrow> (nat \<Rightarrow> (database_error, unit) result) \<Rightarrow> nat \<Rightarrow> ('s, 'i, 'o, 'c) engine_db \<Rightarrow> u64
    \<Rightarrow> ('i, 'o, 'c) consensus_item \<Rightarrow> peer_id \<Rightarrow> (string, ('s, 'i, 'o, 'c) engine_db) result" where
  "attempt_loop E commits attempt db item_index item peer =
     (case process_consensus_item_attempt E (commits attempt) db item_index item peer of
        Ok outcome \<Rightarrow> outcome
      | Err (SnapshotTooOld e) \<Rightarrow>
          if attempt < MAX_ITEM_PROCESSING_ATTEMPTS
          then attempt_loop E commits (attempt + 1) db item_index item peer else Panic
      | Err _ \<Rightarrow> Panic
      | Panic \<Rightarrow> Panic)"
  by pat_completeness auto
termination
  by (relation "measure (\<lambda>(E, commits, attempt, _). MAX_ITEM_PROCESSING_ATTEMPTS - attempt)") auto

declare attempt_loop.simps [simp del]

definition process_consensus_item ::
  "('s, 'i, 'o, 'c, 'ie, 'oe) engine \<Rightarrow> (nat \<Rightarrow> (database_error, unit) result) \<Rightarrow> ('s, 'i, 'o, 'c) engine_db \<Rightarrow> u64
    \<Rightarrow> ('i, 'o, 'c) consensus_item \<Rightarrow> peer_id \<Rightarrow> (string, ('s, 'i, 'o, 'c) engine_db) result" where
  "process_consensus_item E commits db item_index item peer =
     rbind (expect (bt_get (en_broadcast_public_keys E) peer)) (\<lambda>_.
       attempt_loop E commits 1 db item_index item peer)"

subsection \<open>Headers and signatures\<close>

definition session_header ::
  "('s, 'i, 'o, 'c, 'ie, 'oe) engine \<Rightarrow> ('i, 'o, 'c) session_outcome \<Rightarrow> u64 \<Rightarrow> ('e, bytes) result" where
  "session_header E items session_index =
     (case en_calculate_root E (map (consensus_hash (en_sha256 E) (en_enc_item E)) items) of
        Some root \<Rightarrow> Ok (u64_to_be_bytes session_index @ root)
      | None \<Rightarrow> rbind (rassert (items = [])) (\<lambda>_. Ok (u64_to_be_bytes session_index @ replicate 32 0)))"

definition message_tag :: "('s, 'i, 'o, 'c, 'ie, 'oe) engine \<Rightarrow> bytes" where
  "message_tag E = en_sha256 E
     (enc_btree (te_benc (en_tx_env E)) (enc_num (te_benc (en_tx_env E))) enc_array (en_broadcast_public_keys E))"

definition tagged_message :: "('s, 'i, 'o, 'c, 'ie, 'oe) engine \<Rightarrow> bytes \<Rightarrow> bytes" where
  "tagged_message E message = en_sha256 E (message_tag E @ message)"

definition sign_schnorr :: "('s, 'i, 'o, 'c, 'ie, 'oe) engine \<Rightarrow> bytes \<Rightarrow> signature" where
  "sign_schnorr E message = en_sign_schnorr E (tagged_message E message)"

definition verify_schnorr :: "('s, 'i, 'o, 'c, 'ie, 'oe) engine \<Rightarrow> bytes \<Rightarrow> signature \<Rightarrow> peer_id \<Rightarrow> bool" where
  "verify_schnorr E message sig peer =
     (case bt_get (en_broadcast_public_keys E) peer of
        Some public_key \<Rightarrow> en_verify_schnorr E sig (tagged_message E message) public_key
      | None \<Rightarrow> False)"

definition keychain_verify :: "('s, 'i, 'o, 'c, 'ie, 'oe) engine \<Rightarrow> bytes \<Rightarrow> bytes \<Rightarrow> peer_id \<Rightarrow> bool" where
  "keychain_verify E message sig peer =
     (case en_signature_from_slice E sig of Some s \<Rightarrow> verify_schnorr E message s peer | None \<Rightarrow> False)"

definition validate_signed_session_outcome ::
  "('s, 'i, 'o, 'c, 'ie, 'oe) engine \<Rightarrow> ('i, 'o, 'c) signed_session_outcome \<Rightarrow> u64 \<Rightarrow> ('e, bool) result" where
  "validate_signed_session_outcome E outcome session_index =
     (if length (sso_signatures outcome) \<noteq> threshold (length (en_broadcast_public_keys E)) then Ok False
      else rbind (session_header E (sso_session_outcome outcome) session_index) (\<lambda>h.
        Ok (list_all (\<lambda>(peer, sig). verify_schnorr E h sig peer) (sso_signatures outcome))))"

text \<open>
  What the guardian accepts when it asks the others for the outcome of a session: the filter on the
  answer of one of them, after it was decoded. An answer that is rejected is dropped, and the request
  goes on.
\<close>

definition request_signed_session_outcome ::
  "('s, 'i, 'o, 'c, 'ie, 'oe) engine \<Rightarrow> u64 \<Rightarrow> (string, ('i, 'o, 'c) signed_session_outcome) result
    \<Rightarrow> (string, ('i, 'o, 'c) signed_session_outcome) result" where
  "request_signed_session_outcome E index response =
     rbind response (\<lambda>outcome.
     rbind (session_header E (sso_session_outcome outcome) index) (\<lambda>h.
       if length (sso_signatures outcome) = threshold (length (en_broadcast_public_keys E))
          \<and> list_all (\<lambda>(peer, sig). verify_schnorr E h sig peer) (sso_signatures outcome)
       then Ok outcome else Err ''Invalid signatures''))"

text \<open>The check a client makes, with a message that is built in the same way.\<close>

definition signed_session_outcome_verify ::
  "('s, 'i, 'o, 'c, 'ie, 'oe) engine \<Rightarrow> ('i, 'o, 'c) signed_session_outcome \<Rightarrow> u64 \<Rightarrow> ('e, bool) result" where
  "signed_session_outcome_verify E outcome block_index =
     rbind (session_header E (sso_session_outcome outcome) block_index) (\<lambda>h.
     let message = en_sha256 E (message_tag E @ h)
     in if length (sso_signatures outcome) < threshold (length (en_broadcast_public_keys E)) then Ok False
        else Ok (list_all (\<lambda>(peer, sig).
          case bt_get (en_broadcast_public_keys E) peer of
            None \<Rightarrow> False
          | Some pub_key \<Rightarrow> en_verify_schnorr E sig message pub_key) (sso_signatures outcome)))"

subsection \<open>Sessions\<close>

definition pending_accepted_items :: "('s, 'i, 'o, 'c) engine_db \<Rightarrow> ('i, 'o, 'c) accepted_item list" where
  "pending_accepted_items db = bt_values (ed_accepted_items db)"

definition get_finished_session_count :: "('s, 'i, 'o, 'c) engine_db \<Rightarrow> u64" where
  "get_finished_session_count db =
     (case find_by_prefix_sorted_descending (ed_signed_session_outcomes db) of [] \<Rightarrow> 0 | (k, _) # _ \<Rightarrow> k + 1)"

definition complete_session ::
  "('s, 'i, 'o, 'c) engine_db \<Rightarrow> u64 \<Rightarrow> ('i, 'o, 'c) signed_session_outcome \<Rightarrow> ('e, ('s, 'i, 'o, 'c) engine_db) result" where
  "complete_session db session_index outcome =
     (case insert_entry session_index outcome (ed_signed_session_outcomes db) of (prev, sessions) \<Rightarrow>
        rbind (rassert (prev = None)) (\<lambda>_.
          Ok (db\<lparr>ed_accepted_items := [], ed_signed_session_outcomes := sessions\<rparr>)))"

type_synonym commit_outcomes = "u64 \<Rightarrow> nat \<Rightarrow> (database_error, unit) result"

text \<open>The items of a batch; the index counts the accepted items.\<close>

fun process_batch ::
  "('s, 'i, 'o, 'c, 'ie, 'oe) engine \<Rightarrow> commit_outcomes \<Rightarrow> ('i, 'o, 'c) consensus_item list \<Rightarrow> peer_id
    \<Rightarrow> ('s, 'i, 'o, 'c) engine_db \<times> u64 \<Rightarrow> ('e, ('s, 'i, 'o, 'c) engine_db \<times> u64) result" where
  "process_batch E commits [] peer (db, item_index) = Ok (db, item_index)"
| "process_batch E commits (item # items) peer (db, item_index) =
     (case process_consensus_item E (commits item_index) db item_index item peer of
        Ok db \<Rightarrow> process_batch E commits items peer (db, item_index + 1)
      | Err err \<Rightarrow> process_batch E commits items peer (db, item_index)
      | Panic \<Rightarrow> Panic)"

text \<open>The items of a signed session that were not processed yet; rejecting one is a consensus failure.\<close>

fun process_unprocessed ::
  "('s, 'i, 'o, 'c, 'ie, 'oe) engine \<Rightarrow> commit_outcomes \<Rightarrow> ('i, 'o, 'c) accepted_item list \<Rightarrow> u64
    \<Rightarrow> ('s, 'i, 'o, 'c) engine_db \<Rightarrow> ('e, ('s, 'i, 'o, 'c) engine_db) result" where
  "process_unprocessed E commits [] item_index db = Ok db"
| "process_unprocessed E commits (item # items) item_index db =
     rbind (expect_ok (process_consensus_item E (commits item_index) db item_index (ac_item item) (ac_peer item)))
       (process_unprocessed E commits items (item_index + 1))"

definition recover_session ::
  "('s, 'i, 'o, 'c, 'ie, 'oe) engine \<Rightarrow> commit_outcomes \<Rightarrow> ('i, 'o, 'c) signed_session_outcome \<Rightarrow> ('s, 'i, 'o, 'c) engine_db
    \<Rightarrow> ('e, ('s, 'i, 'o, 'c) engine_db) result" where
  "recover_session E commits outcome db =
     (let pending = pending_accepted_items db; n = length pending; items = sso_session_outcome outcome
      in rbind (rassert (n \<le> length items)) (\<lambda>_.
         rbind (rassert (take n items = pending)) (\<lambda>_.
           process_unprocessed E commits (drop n items) (of_nat n) db)))"

datatype unit_data = Batch bytes | UnitSignature bytes

record ordered_unit =
  ou_creator :: peer_id
  ou_round :: u16
  ou_data :: "unit_data option"

text \<open>
  The branch \<open>select!\<close> takes at each turn of the two loops. A branch the loop does not have, like a
  signature of a peer while items are collected, is not taken and leaves the state as it is.
\<close>

datatype ('i, 'o, 'c) session_event =
    OrderedUnitReceived ordered_unit
  | OrderedUnitsClosed
  | OutcomeResponse "(string, ('i, 'o, 'c) signed_session_outcome) result"
  | P2POutcome peer_id "('i, 'o, 'c) signed_session_outcome"
  | P2POutcomesClosed
  | P2PSignature peer_id signature
  | P2PSignaturesClosed
  | IntervalTick

datatype ('s, 'i, 'o, 'c) session_progress =
    Waiting "('s, 'i, 'o, 'c) engine_db"
  | Aborted "('s, 'i, 'o, 'c) engine_db"
  | ItemsCollected "('s, 'i, 'o, 'c) engine_db" u64 "('i, 'o, 'c) session_event list"
  | SessionSigned "('s, 'i, 'o, 'c) engine_db" "('i, 'o, 'c) signed_session_outcome"

fun collect_items ::
  "('s, 'i, 'o, 'c, 'ie, 'oe) engine \<Rightarrow> commit_outcomes \<Rightarrow> u64 \<Rightarrow> ('i, 'o, 'c) session_event list
    \<Rightarrow> ('s, 'i, 'o, 'c) engine_db \<times> u64 \<Rightarrow> ('e, ('s, 'i, 'o, 'c) session_progress) result" where
  "collect_items E commits session_index [] (db, item_index) = Ok (Waiting db)"
| "collect_items E commits session_index (ev # evs) (db, item_index) =
     (case ev of
        OrderedUnitsClosed \<Rightarrow> Ok (Aborted db)
      | P2POutcomesClosed \<Rightarrow> Ok (Aborted db)
      | OrderedUnitReceived u \<Rightarrow>
          if en_broadcast_rounds_per_session E \<le> ou_round u then Ok (ItemsCollected db item_index evs)
          else
            (case ou_data u of
               Some (Batch bytes) \<Rightarrow>
                 (case en_decode E bytes of
                    Ok items \<Rightarrow>
                      rbind (process_batch E commits items (ou_creator u) (db, item_index))
                        (collect_items E commits session_index evs)
                  | Err err \<Rightarrow> collect_items E commits session_index evs (db, item_index)
                  | Panic \<Rightarrow> Panic)
             | _ \<Rightarrow> collect_items E commits session_index evs (db, item_index))
      | OutcomeResponse response \<Rightarrow>
          (case request_signed_session_outcome E session_index response of
             Ok outcome \<Rightarrow> map_ok (\<lambda>db. SessionSigned db outcome) (recover_session E commits outcome db)
           | Err err \<Rightarrow> collect_items E commits session_index evs (db, item_index)
           | Panic \<Rightarrow> Panic)
      | P2POutcome peer outcome \<Rightarrow>
          rbind (validate_signed_session_outcome E outcome session_index) (\<lambda>valid.
            if valid then map_ok (\<lambda>db. SessionSigned db outcome) (recover_session E commits outcome db)
            else collect_items E commits session_index evs (db, item_index))
      | _ \<Rightarrow> collect_items E commits session_index evs (db, item_index))"

fun collect_signatures ::
  "('s, 'i, 'o, 'c, 'ie, 'oe) engine \<Rightarrow> u64 \<Rightarrow> ('i, 'o, 'c) session_outcome \<Rightarrow> bytes \<Rightarrow> ('s, 'i, 'o, 'c) engine_db
    \<Rightarrow> ('i, 'o, 'c) session_event list \<Rightarrow> (peer_id, signature) btree \<Rightarrow> ('e, ('s, 'i, 'o, 'c) session_progress) result" where
  "collect_signatures E session_index items h db evs signatures =
     (if threshold (length (en_broadcast_public_keys E)) \<le> length signatures
      then Ok (SessionSigned db \<lparr>sso_session_outcome = items, sso_signatures = signatures\<rparr>)
      else
        (case evs of
           [] \<Rightarrow> Ok (Waiting db)
         | ev # evs \<Rightarrow>
             (case ev of
                OrderedUnitsClosed \<Rightarrow> Ok (Aborted db)
              | P2POutcomesClosed \<Rightarrow> Ok (Aborted db)
              | P2PSignaturesClosed \<Rightarrow> Ok (Aborted db)
              | OrderedUnitReceived u \<Rightarrow>
                  (case ou_data u of
                     Some (UnitSignature bytes) \<Rightarrow>
                       if keychain_verify E h bytes (ou_creator u)
                       then rbind (expect (en_signature_from_slice E bytes)) (\<lambda>sig.
                              collect_signatures E session_index items h db evs (bt_insert (ou_creator u) sig signatures))
                       else collect_signatures E session_index items h db evs signatures
                   | _ \<Rightarrow> collect_signatures E session_index items h db evs signatures)
              | P2PSignature peer sig \<Rightarrow>
                  collect_signatures E session_index items h db evs
                    (if verify_schnorr E h sig peer then bt_insert peer sig signatures else signatures)
              | OutcomeResponse response \<Rightarrow>
                  (case request_signed_session_outcome E session_index response of
                     Ok outcome \<Rightarrow>
                       rbind (session_header E (sso_session_outcome outcome) session_index) (\<lambda>h'.
                       rbind (rassert (h = h')) (\<lambda>_. Ok (SessionSigned db outcome)))
                   | Err err \<Rightarrow> collect_signatures E session_index items h db evs signatures
                   | Panic \<Rightarrow> Panic)
              | P2POutcome peer outcome \<Rightarrow>
                  rbind (validate_signed_session_outcome E outcome session_index) (\<lambda>valid.
                  if valid
                  then rbind (session_header E (sso_session_outcome outcome) session_index) (\<lambda>h'.
                       rbind (rassert (h = h')) (\<lambda>_. Ok (SessionSigned db outcome)))
                  else collect_signatures E session_index items h db evs signatures)
              | IntervalTick \<Rightarrow> collect_signatures E session_index items h db evs signatures)))"

declare collect_signatures.simps [simp del]

definition complete_signed_session_outcome ::
  "('s, 'i, 'o, 'c, 'ie, 'oe) engine \<Rightarrow> commit_outcomes \<Rightarrow> u64 \<Rightarrow> ('i, 'o, 'c) session_event list \<Rightarrow> ('s, 'i, 'o, 'c) engine_db
    \<Rightarrow> ('e, ('s, 'i, 'o, 'c) session_progress) result" where
  "complete_signed_session_outcome E commits session_index evs db =
     rbind (collect_items E commits session_index evs (db, 0)) (\<lambda>progress.
     case progress of
       ItemsCollected db item_index evs \<Rightarrow>
         let items = pending_accepted_items db
         in rbind (rassert (item_index = of_nat (length items))) (\<lambda>_.
            rbind (session_header E items session_index) (\<lambda>h.
              collect_signatures E session_index items h db evs [(en_identity E, sign_schnorr E h)]))
     | _ \<Rightarrow> Ok progress)"

definition run_session ::
  "('s, 'i, 'o, 'c, 'ie, 'oe) engine \<Rightarrow> commit_outcomes \<Rightarrow> u64 \<Rightarrow> ('i, 'o, 'c) session_event list \<Rightarrow> ('s, 'i, 'o, 'c) engine_db
    \<Rightarrow> ('e, ('s, 'i, 'o, 'c) session_progress) result" where
  "run_session E commits session_index evs db =
     rbind (complete_signed_session_outcome E commits session_index evs db) (\<lambda>progress.
     case progress of
       SessionSigned db outcome \<Rightarrow>
         rbind (validate_signed_session_outcome E outcome session_index) (\<lambda>valid.
         rbind (rassert valid) (\<lambda>_.
           map_ok (\<lambda>db. SessionSigned db outcome) (complete_session db session_index outcome)))
     | _ \<Rightarrow> Ok progress)"

end
