(* ===== verification/Engine_Laws.thy ===== *)
theory Engine_Laws
  imports Engine
begin

section \<open>Laws of the consensus engine\<close>

text \<open>
  The contract \<open>audited_module\<close> adds to \<open>funds_laws\<close> what the engine relies on when it audits the
  modules after every item: consensus items do not lower the balance of a module, and an audit adds
  items worth its balance to the sheet, provided the amounts fit in \<open>i64\<close>. For a registry of such
  modules the assertion that the net assets are not negative holds after every accepted item.
\<close>

subsection \<open>Audited modules\<close>

locale audited_module = funds_laws pin pout balance outs good
  for pin :: "'s \<Rightarrow> 'i \<Rightarrow> in_point \<Rightarrow> ('ie, 's \<times> input_meta) result"
    and pout :: "'s \<Rightarrow> 'o \<Rightarrow> out_point \<Rightarrow> ('oe, 's \<times> transaction_item_amounts) result"
    and balance :: "'s \<Rightarrow> int"
    and outs :: "'s \<Rightarrow> out_point set"
    and good :: "'s \<Rightarrow> bool" +
  fixes pci :: "'s \<Rightarrow> 'c \<Rightarrow> peer_id \<Rightarrow> (string, 's) result"
    and aud :: "'s \<Rightarrow> audit \<Rightarrow> module_instance_id \<Rightarrow> 's \<times> audit"
    and fits :: "'s \<Rightarrow> bool"
  assumes pci_Ok: "good s \<Longrightarrow> pci s c p = Ok s' \<Longrightarrow> good s' \<and> balance s \<le> balance s' \<and> outs s' \<subseteq> outs s"
    and aud_Ok: "good s \<Longrightarrow> fits s \<Longrightarrow> aud s items mid = (s', items') \<Longrightarrow>
      good s' \<and> balance s' = balance s \<and> outs s' \<subseteq> outs s \<and> net items' = net items + balance s"

lemma audited_module_erase:
  assumes m: "audited_module (sm_process_input m) (sm_process_output m) balance outs good
      (sm_process_consensus_item m) (sm_audit m) fits"
    and prj: "\<And>s. project (inject s) = Some s"
  shows "audited_module (dyn_process_input inject project di fi m) (dyn_process_output inject project dt fo m)
    (\<lambda>db. balance (the (project db))) (\<lambda>db. outs (the (project db))) (\<lambda>db. \<exists>s. project db = Some s \<and> good s)
    (dyn_process_consensus_item inject project dc m) (dyn_audit inject project m) (\<lambda>db. fits (the (project db)))"
proof (intro audited_module.intro audited_module_axioms.intro)
  show "funds_laws (dyn_process_input inject project di fi m) (dyn_process_output inject project dt fo m)
    (\<lambda>db. balance (the (project db))) (\<lambda>db. outs (the (project db))) (\<lambda>db. \<exists>s. project db = Some s \<and> good s)"
    by (rule funds_laws_erase [OF audited_module.axioms(1) [OF m]]) (rule prj)
next
  fix db c p db'
  assume "\<exists>s. project db = Some s \<and> good s" and "dyn_process_consensus_item inject project dc m db c p = Ok db'"
  then obtain s c' s' where "project db = Some s" "good s" "sm_process_consensus_item m s c' p = Ok s'" "db' = inject s'"
    by (auto simp: dyn_process_consensus_item_def)
  then show "(\<exists>s. project db' = Some s \<and> good s) \<and> balance (the (project db)) \<le> balance (the (project db'))
      \<and> outs (the (project db')) \<subseteq> outs (the (project db))"
    using audited_module.pci_Ok [OF m] by (simp add: prj)
next
  fix db items mid db' items'
  assume "\<exists>s. project db = Some s \<and> good s" and "fits (the (project db))"
    and "dyn_audit inject project m db items mid = (db', items')"
  then obtain s s' where "project db = Some s" "good s" "fits s" "sm_audit m s items mid = (s', items')" "db' = inject s'"
    by (auto simp: dyn_audit_def split: prod.splits)
  then show "(\<exists>s. project db' = Some s \<and> good s) \<and> balance (the (project db')) = balance (the (project db))
      \<and> outs (the (project db')) \<subseteq> outs (the (project db)) \<and> net items' = net items + balance (the (project db))"
    using audited_module.aud_Ok [OF m] by (simp add: prj)
qed

subsection \<open>What processing an item does\<close>

text \<open>The state that is committed for an item that led to the state \<open>db1\<close>.\<close>

definition committed ::
  "('s, 'i, 'o, 'c, 'ie, 'oe) engine \<Rightarrow> u64 \<Rightarrow> ('i, 'o, 'c) consensus_item \<Rightarrow> peer_id \<Rightarrow> ('s, 'i, 'o, 'c) engine_db
    \<Rightarrow> ('s, 'i, 'o, 'c) engine_db" where
  "committed E item_index item peer db1 =
     db1\<lparr>ed_accepted_items := bt_insert item_index \<lparr>ac_item = item, ac_peer = peer\<rparr> (ed_accepted_items db1),
         ed_modules := fst (audit_modules (en_modules E) (ed_modules db1) [])\<rparr>"

definition audit_passes :: "('s, 'i, 'o, 'c, 'ie, 'oe) engine \<Rightarrow> 's module_dbs \<Rightarrow> bool" where
  "audit_passes E dbs \<longleftrightarrow>
     (\<exists>n. calculate_net_assets (snd (audit_modules (en_modules E) dbs [])) = Some n \<and> 0 \<le> sint n)"

lemma attempt_eq:
  "process_consensus_item_attempt E commit db item_index item peer =
     (case bt_get (ed_accepted_items db) item_index of
        Some x \<Rightarrow> if x = \<lparr>ac_item = item, ac_peer = peer\<rparr> then Ok (Ok db) else Ok (Err ''Item was discarded previously'')
      | None \<Rightarrow>
          (case process_consensus_item_with_db_transaction E db item peer of
             Panic \<Rightarrow> Panic
           | Err err \<Rightarrow> Ok (Err err)
           | Ok db1 \<Rightarrow> if audit_passes E (ed_modules db1) then map_ok (\<lambda>_. Ok (committed E item_index item peer db1)) commit else Panic))"
proof -
  have eq: "x = \<lparr>ac_item = item, ac_peer = peer\<rparr> \<longleftrightarrow> ac_item x = item \<and> ac_peer x = peer" for x :: "('b, 'c, 'd) accepted_item"
    by (cases x) auto
  have ok: "rbind commit (\<lambda>_. Ok y) = map_ok (\<lambda>_. y) commit" for y :: "(string, ('a, 'b, 'c, 'd) engine_db) result"
    by (cases commit) simp_all
  have expect: "expect z = (case z of None \<Rightarrow> Panic | Some y \<Rightarrow> Ok y)" for z :: "audit_item option"
    by (cases z) simp_all
  show ?thesis
    unfolding process_consensus_item_attempt_def eq
    by (auto simp: Let_def insert_entry_def audit_passes_def committed_def net_assets_def ok rassert_def split_beta expect
        split: option.splits result.splits)
qed

text \<open>The outcome of an item does not depend on the commits, unless they fail for good.\<close>

lemma attempt_loop_cases:
  "attempt_loop E commits n db item_index item peer =
     (case process_consensus_item_attempt E (Ok ()) db item_index item peer of Ok outcome \<Rightarrow> outcome | _ \<Rightarrow> Panic)
   \<or> attempt_loop E commits n db item_index item peer = Panic"
proof (induction E commits n db item_index item peer rule: attempt_loop.induct)
  case (1 E commits n db item_index item peer)
  have commit: "process_consensus_item_attempt E c db item_index item peer = Ok outcome \<Longrightarrow>
      process_consensus_item_attempt E (Ok ()) db item_index item peer = Ok outcome" for c outcome
    unfolding attempt_eq by (auto split: option.splits result.splits if_splits)
  show ?case
  proof (cases "process_consensus_item_attempt E (commits n) db item_index item peer")
    case (Ok outcome)
    then show ?thesis
      using commit [OF Ok] by (subst (1 2) attempt_loop.simps) simp
  next
    case (Err e)
    show ?thesis
    proof (cases e)
      case (SnapshotTooOld m)
      then show ?thesis
        using 1 [OF Err SnapshotTooOld] Err by (subst (1 2) attempt_loop.simps) simp
    qed (use Err in \<open>subst attempt_loop.simps, simp\<close>)+
  next
    case Panic
    then show ?thesis
      by (subst (1 2) attempt_loop.simps) simp
  qed
qed

lemma process_consensus_item_cases:
  "process_consensus_item E commits db item_index item peer =
     (case process_consensus_item_attempt E (Ok ()) db item_index item peer of Ok outcome \<Rightarrow> outcome | _ \<Rightarrow> Panic)
   \<or> process_consensus_item E commits db item_index item peer = Panic"
  using attempt_loop_cases [of E commits 1 db item_index item peer]
  by (cases "bt_get (en_broadcast_public_keys E) peer") (simp_all add: process_consensus_item_def)

lemma process_consensus_item_Ok:
  assumes "process_consensus_item E commits db item_index item peer = Ok db'"
  shows "bt_get (ed_accepted_items db) item_index = Some \<lparr>ac_item = item, ac_peer = peer\<rparr> \<and> db' = db \<or>
    (bt_get (ed_accepted_items db) item_index = None \<and>
      (\<exists>db1. process_consensus_item_with_db_transaction E db item peer = Ok db1 \<and> audit_passes E (ed_modules db1)
        \<and> db' = committed E item_index item peer db1))"
  using assms process_consensus_item_cases [of E commits db item_index item peer]
  by (auto simp: attempt_eq split: option.splits result.splits if_splits)

lemma process_consensus_item_Err:
  assumes "process_consensus_item E commits db item_index item peer = Err e"
  shows "(\<exists>x. bt_get (ed_accepted_items db) item_index = Some x \<and> x \<noteq> \<lparr>ac_item = item, ac_peer = peer\<rparr>) \<or>
    (bt_get (ed_accepted_items db) item_index = None \<and> process_consensus_item_with_db_transaction E db item peer = Err e)"
  using assms process_consensus_item_cases [of E commits db item_index item peer]
  by (auto simp: attempt_eq split: option.splits result.splits if_splits)

text \<open>
  The states an engine reaches from \<open>db0\<close> by accepting items and completing sessions, while the states
  that are audited satisfy \<open>fit\<close>.
\<close>

inductive engine_reaches ::
  "('s, 'i, 'o, 'c, 'ie, 'oe) engine \<Rightarrow> ('s module_dbs \<Rightarrow> bool) \<Rightarrow> ('s, 'i, 'o, 'c) engine_db \<Rightarrow> ('s, 'i, 'o, 'c) engine_db \<Rightarrow> bool"
  for E :: "('s, 'i, 'o, 'c, 'ie, 'oe) engine" and fit :: "'s module_dbs \<Rightarrow> bool" and db0 :: "('s, 'i, 'o, 'c) engine_db" where
  start: "engine_reaches E fit db0 db0"
| item: "engine_reaches E fit db0 db \<Longrightarrow> process_consensus_item E commits db item_index item peer = Ok db' \<Longrightarrow>
    (\<And>db1. process_consensus_item_with_db_transaction E db item peer = Ok db1 \<Longrightarrow> fit (ed_modules db1)) \<Longrightarrow>
    engine_reaches E fit db0 db'"
| session: "engine_reaches E fit db0 db \<Longrightarrow> complete_session db session_index outcome = (Ok db' :: (string, _) result) \<Longrightarrow>
    engine_reaches E fit db0 db'"

subsection \<open>Registries of audited modules\<close>

locale audited_registry = conserving_registry modules balance outs good
  for modules :: "('s, 'i, 'o, 'c, 'ie, 'oe) module_registry"
    and balance :: "module_instance_id \<Rightarrow> 's \<Rightarrow> int"
    and outs :: "module_instance_id \<Rightarrow> 's \<Rightarrow> out_point set"
    and good :: "module_instance_id \<Rightarrow> 's \<Rightarrow> bool" +
  fixes fits :: "module_instance_id \<Rightarrow> 's \<Rightarrow> bool"
  assumes reg_audited: "bt_get modules mid = Some m \<Longrightarrow>
      audited_module (sm_process_input m) (sm_process_output m) (balance mid) (outs mid) (good mid)
        (sm_process_consensus_item m) (sm_audit m) (fits mid)"
begin

definition all_fit :: "'s module_dbs \<Rightarrow> bool" where
  "all_fit dbs \<longleftrightarrow> (\<forall>mid. bt_get modules mid \<noteq> None \<longrightarrow> fits mid (dbs mid))"

lemma audit_modules_Ok:
  assumes "set ms \<subseteq> set modules" and "distinct (map fst ms)" and "all_good dbs"
    and "\<forall>mid\<in>fst ` set ms. fits mid (dbs mid)" and "audit_modules ms dbs items = (dbs', items')"
  shows "all_good dbs' \<and> (\<forall>mid. bt_get modules mid \<noteq> None \<longrightarrow> balance mid (dbs' mid) = balance mid (dbs mid))
    \<and> (\<forall>mid. bt_get modules mid \<noteq> None \<longrightarrow> outs mid (dbs' mid) \<subseteq> outs mid (dbs mid))
    \<and> net items' = net items + (\<Sum>(mid, m)\<leftarrow>ms. balance mid (dbs mid))"
  using assms
proof (induction ms arbitrary: dbs items)
  case (Cons p ms)
  obtain k m where p: "p = (k, m)" by (cases p)
  obtain s items1 where aud: "sm_audit m (dbs k) items k = (s, items1)"
    by (cases "sm_audit m (dbs k) items k")
  have m: "bt_get modules k = Some m"
    using Cons.prems(1) bt.entries_distinct [OF reg_wf] by (auto simp: p intro: map_of_is_SomeI)
  then have "good k (dbs k)"
    using Cons.prems(3) by (simp add: all_good_def)
  then have step: "good k s" "balance k s = balance k (dbs k)" "outs k s \<subseteq> outs k (dbs k)"
    "net items1 = net items + balance k (dbs k)"
    using audited_module.aud_Ok [OF reg_audited [OF m] _ _ aud] Cons.prems(4) by (simp_all add: p)
  have others: "(\<Sum>(mid, m)\<leftarrow>ms. balance mid ((dbs(k := s)) mid)) = (\<Sum>(mid, m)\<leftarrow>ms. balance mid (dbs mid))"
    using step(2) by (intro arg_cong [of _ _ sum_list] map_cong refl) auto
  have rest: "audit_modules ms (dbs(k := s)) items1 = (dbs', items')"
    using Cons.prems(5) by (simp add: p aud)
  have "all_good (dbs(k := s))"
    by (rule all_good_upd [OF Cons.prems(3) step(1)])
  moreover have "\<forall>mid\<in>fst ` set ms. fits mid ((dbs(k := s)) mid)"
    using Cons.prems(2,4) by (auto simp: p)
  moreover have "set ms \<subseteq> set modules" "distinct (map fst ms)"
    using Cons.prems(1,2) by auto
  ultimately have IH: "all_good dbs'"
    "\<And>mid. bt_get modules mid \<noteq> None \<Longrightarrow> balance mid (dbs' mid) = balance mid ((dbs(k := s)) mid)"
    "\<And>mid. bt_get modules mid \<noteq> None \<Longrightarrow> outs mid (dbs' mid) \<subseteq> outs mid ((dbs(k := s)) mid)"
    "net items' = net items1 + (\<Sum>(mid, m)\<leftarrow>ms. balance mid ((dbs(k := s)) mid))"
    using Cons.IH [OF _ _ _ _ rest] by blast+
  have upd: "balance mid ((dbs(k := s)) mid) = balance mid (dbs mid)" "outs mid ((dbs(k := s)) mid) \<subseteq> outs mid (dbs mid)" for mid
    using step(2,3) by simp_all
  have "outs mid (dbs' mid) \<subseteq> outs mid (dbs mid)" if "bt_get modules mid \<noteq> None" for mid
    by (rule subset_trans [OF IH(3) [OF that] upd(2)])
  then show ?case
    using IH(1,2,4) step(4) others upd(1) by (simp add: p del: fun_upd_apply)
qed simp

lemma audit_Ok:
  assumes "all_good dbs" and "all_fit dbs" and "audit_modules modules dbs [] = (dbs', items)"
  shows "all_good dbs' \<and> total dbs' = total dbs \<and> net items = total dbs
    \<and> (\<forall>mid. bt_get modules mid \<noteq> None \<longrightarrow> outs mid (dbs' mid) \<subseteq> outs mid (dbs mid))"
proof -
  have d: "distinct (map fst modules)"
    by (rule bt.entries_distinct [OF reg_wf])
  have fit: "\<forall>mid\<in>fst ` set modules. fits mid (dbs mid)"
    using assms(2) by (auto simp: all_fit_def map_of_eq_None_iff)
  note a = audit_modules_Ok [OF subset_refl d assms(1) fit assms(3)]
  have "(\<Sum>(mid, m)\<leftarrow>modules. balance mid (dbs' mid)) = (\<Sum>(mid, m)\<leftarrow>modules. balance mid (dbs mid))"
    using a by (intro arg_cong [of _ _ sum_list] map_cong refl) (auto simp: map_of_eq_None_iff)
  then show ?thesis
    using a by (simp add: total_balance_def)
qed

text \<open>The out points that the modules know are those of accepted transactions.\<close>

definition outs_accepted :: "('s, 'i, 'o, 'c) engine_db \<Rightarrow> bool" where
  "outs_accepted db \<longleftrightarrow> (\<forall>mid. bt_get modules mid \<noteq> None \<longrightarrow>
     fst ` outs mid (ed_modules db mid) \<subseteq> dom (bt_get (ed_accepted_txs db)))"

lemma outs_accepted_mono:
  assumes "outs_accepted db" and "dom (bt_get (ed_accepted_txs db)) \<subseteq> dom (bt_get (ed_accepted_txs db'))"
    and "\<And>mid. bt_get modules mid \<noteq> None \<Longrightarrow>
      outs mid (ed_modules db' mid) \<subseteq> outs mid (ed_modules db mid) \<union> dom (bt_get (ed_accepted_txs db')) \<times> UNIV"
  shows "outs_accepted db'"
  unfolding outs_accepted_def
proof (intro allI impI subsetI)
  fix mid x
  assume m: "bt_get modules mid \<noteq> None" and "x \<in> fst ` outs mid (ed_modules db' mid)"
  then obtain j where "(x, j) \<in> outs mid (ed_modules db' mid)"
    by auto
  then consider "(x, j) \<in> outs mid (ed_modules db mid)" | "x \<in> dom (bt_get (ed_accepted_txs db'))"
    using assms(3) [OF m] by blast
  then show "x \<in> dom (bt_get (ed_accepted_txs db'))"
  proof cases
    case 1
    then have "x \<in> fst ` outs mid (ed_modules db mid)"
      by (rule rev_image_eqI) simp
    then show ?thesis
      using assms(1,2) m unfolding outs_accepted_def by blast
  qed
qed

lemma with_db_transaction_Ok:
  assumes E: "en_modules E = modules" and good: "all_good (ed_modules db)"
    and ok: "process_consensus_item_with_db_transaction E db item peer = Ok db1"
  shows "all_good (ed_modules db1) \<and> total (ed_modules db) \<le> total (ed_modules db1) \<and> (outs_accepted db \<longrightarrow> outs_accepted db1)"
proof (cases item)
  case (CIModule mid c)
  then obtain m s where m: "bt_get modules mid = Some m"
    and s: "sm_process_consensus_item m (ed_modules db mid) c peer = Ok s"
    and db1: "ed_modules db1 = (ed_modules db)(mid := s)"
    using ok by (auto simp: process_consensus_item_with_db_transaction_def E get_expect_def)
  have "good mid (ed_modules db mid)"
    using good m by (simp add: all_good_def)
  then have step: "good mid s" "balance mid (ed_modules db mid) \<le> balance mid s" "outs mid s \<subseteq> outs mid (ed_modules db mid)"
    using audited_module.pci_Ok [OF reg_audited [OF m] _ s] by simp_all
  have "ed_accepted_txs db1 = ed_accepted_txs db"
    using ok by (auto simp: CIModule process_consensus_item_with_db_transaction_def)
  then have "outs_accepted db1" if "outs_accepted db"
    using that step(3) by (rule_tac outs_accepted_mono) (auto simp: db1)
  then show ?thesis
    using step all_good_upd [OF good] total_balance_upd [OF reg_wf m, of balance "ed_modules db" s] by (simp add: db1)
next
  case (CITransaction tx)
  then obtain dbs where dbs: "process_transaction_with_dbtx (en_tx_env E) modules (ed_modules db) tx (en_version E) Consensus = Ok dbs"
    and db1: "ed_modules db1 = dbs"
    and txs: "dom (bt_get (ed_accepted_txs db1)) = insert (tx_hash (en_tx_env E) tx) (dom (bt_get (ed_accepted_txs db)))"
    using ok by (auto simp: process_consensus_item_with_db_transaction_def Let_def E insert_entry_def dom_bt_insert
        split: if_splits)
  note tx = transaction_Ok [OF good dbs]
  have "outs_accepted db1" if "outs_accepted db"
    using that tx txs by (rule_tac outs_accepted_mono) (auto simp: db1)
  then show ?thesis
    using tx by (simp add: db1)
qed (use ok in \<open>simp add: process_consensus_item_with_db_transaction_def\<close>)

text \<open>The audit of a state whose amounts fit in \<open>i64\<close> passes when the balance is not negative.\<close>

lemma audit_passes:
  assumes "en_modules E = modules" and "all_good dbs" and "all_fit dbs" and "0 \<le> total dbs"
    and "(\<Sum>item\<leftarrow>snd (audit_modules modules dbs []). \<bar>sint (ai_milli_sat item)\<bar>) < 2 ^ 63"
  shows "audit_passes E dbs"
proof -
  obtain n where n: "calculate_net_assets (snd (audit_modules modules dbs [])) = Some n"
    and "sint n = net (snd (audit_modules modules dbs []))"
    using calculate_net_assets_eq [OF assms(5)] .
  moreover have "net (snd (audit_modules modules dbs [])) = total dbs"
    using audit_Ok [OF assms(2,3)] by (metis prod.collapse)
  ultimately show ?thesis
    using assms(1,4) by (auto simp: audit_passes_def)
qed

lemma committed_Ok:
  assumes "en_modules E = modules" and "all_good (ed_modules db1)" and "all_fit (ed_modules db1)"
  shows "all_good (ed_modules (committed E i item peer db1))
    \<and> total (ed_modules (committed E i item peer db1)) = total (ed_modules db1)
    \<and> (outs_accepted db1 \<longrightarrow> outs_accepted (committed E i item peer db1))"
proof -
  have audit: "all_good (ed_modules (committed E i item peer db1))"
    "total (ed_modules (committed E i item peer db1)) = total (ed_modules db1)"
    "\<forall>mid. bt_get modules mid \<noteq> None \<longrightarrow> outs mid (ed_modules (committed E i item peer db1) mid) \<subseteq> outs mid (ed_modules db1 mid)"
    using audit_Ok [OF assms(2,3) surjective_pairing] assms(1) by (simp_all add: committed_def)
  have txs: "ed_accepted_txs (committed E i item peer db1) = ed_accepted_txs db1"
    by (simp add: committed_def)
  have "outs_accepted (committed E i item peer db1)" if "outs_accepted db1"
    by (rule outs_accepted_mono [OF that]) (use audit(3) in \<open>auto simp only: txs\<close>)
  then show ?thesis
    using audit by blast
qed

lemma reaches_Ok:
  assumes E: "en_modules E = modules" and fit: "\<And>dbs. fit dbs \<Longrightarrow> all_fit dbs"
    and start: "all_good (ed_modules db0)" "0 \<le> total (ed_modules db0)" "outs_accepted db0"
    and "engine_reaches E fit db0 db"
  shows "all_good (ed_modules db) \<and> 0 \<le> total (ed_modules db) \<and> outs_accepted db"
  using assms(6)
proof induction
  case start
  then show ?case using assms(3-5) by blast
next
  case (item db commits i it peer db')
  from process_consensus_item_Ok [OF item(2)] show ?case
  proof (elim disjE conjE exE)
    fix db1
    assume db1: "process_consensus_item_with_db_transaction E db it peer = Ok db1" and db': "db' = committed E i it peer db1"
    have "all_good (ed_modules db1)" "0 \<le> total (ed_modules db1)" "outs_accepted db1"
      using with_db_transaction_Ok [OF E _ db1] item.IH by auto
    then show ?thesis
      using committed_Ok [OF E _ fit [OF item(3) [OF db1]]] by (simp add: db')
  qed (use item.IH in simp)
next
  case (session db s outcome db')
  then have "ed_modules db' = ed_modules db" "ed_accepted_txs db' = ed_accepted_txs db"
    by (auto simp: complete_session_def insert_entry_def)
  then show ?case
    using session.IH by (simp add: outs_accepted_def)
qed

text \<open>The assertion on the balance sheet holds for every item that the modules accept.\<close>

lemma accepted_item_commits:
  assumes E: "en_modules E = modules" and good: "all_good (ed_modules db)" "0 \<le> total (ed_modules db)"
    and peer: "bt_get (en_broadcast_public_keys E) peer \<noteq> None" and free: "bt_get (ed_accepted_items db) i = None"
    and db1: "process_consensus_item_with_db_transaction E db item peer = Ok db1" and fits: "all_fit (ed_modules db1)"
    and small: "(\<Sum>x\<leftarrow>snd (audit_modules modules (ed_modules db1) []). \<bar>sint (ai_milli_sat x)\<bar>) < 2 ^ 63"
  shows "process_consensus_item E (\<lambda>_. Ok ()) db i item peer = Ok (committed E i item peer db1)
    \<and> 0 \<le> total (ed_modules (committed E i item peer db1))"
proof -
  have "all_good (ed_modules db1)" "0 \<le> total (ed_modules db1)"
    using with_db_transaction_Ok [OF E good(1) db1] good(2) by simp_all
  moreover from this have "audit_passes E (ed_modules db1)"
    using audit_passes [OF E _ fits _ small] by blast
  ultimately show ?thesis
    using committed_Ok [OF E _ fits, of i item peer] peer free db1
    by (auto simp: process_consensus_item_def attempt_loop.simps attempt_eq)
qed

end

end
