(* ===== verification/Module_Audits.thy ===== *)
theory Module_Audits
  imports Engine_Laws Mint_Server Lnv2_Laws Mintv2_Server Walletv2_Laws
begin

section \<open>The modules keep the contract of the engine\<close>

text \<open>
  The two mints, the lightning module and the wallet are \<open>audited_module\<close>s: their consensus items do
  not change their balance, and their audits report it as long as the amounts fit in \<open>i64\<close>.
\<close>

subsection \<open>Mint\<close>

definition mint_fits :: "'g1 mint_db \<Rightarrow> bool" where
  "mint_fits db \<longleftrightarrow> issued (md_audit db) < 2 ^ 63 \<and> redeemed (md_audit db) < 2 ^ 63"

interpretation mint_audited: audited_module "mint_process_input h M" "mint_process_output C h M"
  mint_balance mint_outs "mint_good M" mint_process_consensus_item mint_audit mint_fits
  for C :: "('s, 'g1::linorder, 'g2, 'gt) curve" and h M
proof
  fix db :: "'g1 mint_db" and items mid db' items'
  assume good: "mint_good M db" and fits: "mint_fits db" and audit: "mint_audit db items mid = (db', items')"
  have wf: "mint_wf db"
    using good by (simp add: mint_good_def)
  show "mint_good M db' \<and> mint_balance db' = mint_balance db \<and> mint_outs db' \<subseteq> mint_outs db
      \<and> net items' = net items + mint_balance db"
    using mint_audit_reports_balance [OF wf _ _ audit] mint_audit_wf [OF wf audit] good fits
    by (auto simp: mint_good_def mint_fits_def mint_outs_def)
qed (simp_all add: mint_process_consensus_item_def)

subsection \<open>Lightning\<close>

definition lnv2_fits :: "('g1, 'g2) lnv2_db \<Rightarrow> bool" where
  "lnv2_fits db \<longleftrightarrow> list_all (\<lambda>(q, c). unat (oc_amount c) < 2 ^ 63) (ld_outgoing db)
     \<and> list_all (\<lambda>(q, c). unat (cm_amount (ic_commitment c)) < 2 ^ 63) (ld_incoming db)"

lemma lnv2_item_keeps:
  assumes "lnv2_process_consensus_item db c p = Ok db'" and "lnv2_good E L db"
  shows "lnv2_good E L db' \<and> lnv2_balance db' = lnv2_balance db \<and> lnv2_outs db' = lnv2_outs db"
  using assms(1) by (cases rule: process_item_cases)
    (use assms(2) in \<open>simp_all add: lnv2_good_def lnv2_wf_def lnv2_balance_def lnv2_outs_def\<close>)

interpretation lnv2_audited: audited_module "lnv2_process_input E L" "lnv2_process_output E L"
  lnv2_balance lnv2_outs "lnv2_good E L" lnv2_process_consensus_item lnv2_audit lnv2_fits
  for E L
proof
  fix db items mid db' items'
  assume "lnv2_good E L db" and "lnv2_fits db" and "lnv2_audit db items mid = (db', items')"
  then show "lnv2_good E L db' \<and> lnv2_balance db' = lnv2_balance db \<and> lnv2_outs db' \<subseteq> lnv2_outs db
      \<and> net items' = net items + lnv2_balance db"
    using lnv2_audit_reports_balance [of db items mid db' items'] by (simp add: lnv2_fits_def list_all_iff)
qed (use lnv2_item_keeps in fastforce)

subsection \<open>Mint, version 2\<close>

text \<open>The audit has one unit only, so the notes of the mint have to be bitcoin.\<close>

definition mintv2_fits :: "('s, 'g2) mintv2_config \<Rightarrow> 'g1 mintv2_db \<Rightarrow> bool" where
  "mintv2_fits cfg db \<longleftrightarrow> vc_amount_unit cfg = BITCOIN
     \<and> list_all (\<lambda>(d, c). unat (denomination_amount d) * unat c < 2 ^ 63) (vd_counters db)"

lemma sint_minus_product:
  assumes "unat a * unat c < 2 ^ 63"
  shows "sint (- (a * c) :: i64) = - (int (unat a) * int (unat c))"
proof -
  have "a * c = (of_nat (unat a * unat c) :: i64)"
    by simp
  then show ?thesis
    using sint_minus_of_nat_small [OF assms] by (simp only: of_nat_mult)
qed

lemma mintv2_audit_reports_balance:
  assumes "mintv2_fits cfg db" and "v2_audit db items mid = (db', items')"
  shows "db' = db \<and> net items' = net items + mintv2_balance cfg db"
proof -
  have "list_all (\<lambda>(d, c). unat (denomination_amount d) * unat c < 2 ^ 63) t \<Longrightarrow>
      (\<Sum>(d, c)\<leftarrow>t. sint (- (denomination_amount d * c) :: i64)) = bt.total circulating_value t" for t
    by (induction t) (auto simp: bt.total_def circulating_value_def sint_minus_product)
  then show ?thesis
    using assms by (auto simp: mintv2_fits_def v2_audit_def net_add_items mintv2_balance_def)
qed

interpretation mintv2_audited: audited_module "v2_process_input C h cfg" "v2_process_output C h cfg"
  "mintv2_balance cfg" mintv2_outs mintv2_wf v2_process_consensus_item v2_audit "mintv2_fits cfg"
  for C :: "('s, 'g1::linorder, 'g2, 'gt) curve" and h cfg
proof
  fix db :: "'g1 mintv2_db" and items mid db' items'
  assume "mintv2_wf db" and fits: "mintv2_fits cfg db" and audit: "v2_audit db items mid = (db', items')"
  then show "mintv2_wf db' \<and> mintv2_balance cfg db' = mintv2_balance cfg db \<and> mintv2_outs db' \<subseteq> mintv2_outs db
      \<and> net items' = net items + mintv2_balance cfg db"
    using mintv2_audit_reports_balance [OF fits audit] by simp
qed (simp_all add: v2_process_consensus_item_def)

subsection \<open>Wallet\<close>

definition w2_fits :: "wallet_db \<Rightarrow> bool" where
  "w2_fits db \<longleftrightarrow> (case wd_wallet db of None \<Rightarrow> True | Some w \<Rightarrow> 1000 * unat (fw_value w) < 2 ^ 63)"

lemma sint_thousand:
  assumes "1000 * unat v < 2 ^ 63"
  shows "sint (1000 * v :: i64) = 1000 * int (unat v)"
proof -
  have "1000 * v = (of_nat (1000 * unat v) :: i64)"
    by simp
  then show ?thesis
    using sint_of_nat_small [OF assms] by (simp only: of_nat_mult of_nat_numeral)
qed

interpretation w2_audited: audited_module "w2_process_input W cfg" "w2_process_output W cfg"
  w2_balance w2_outs w2_wf "w2_process_consensus_item W cfg rpc" w2_audit w2_fits
  for W cfg rpc
proof
  fix db c p db'
  assume "w2_wf db" and "w2_process_consensus_item W cfg rpc db c p = Ok db'"
  then show "w2_wf db' \<and> w2_balance db \<le> w2_balance db' \<and> w2_outs db' \<subseteq> w2_outs db"
    using w2_item_keeps [of W cfg rpc db c p db'] by (simp add: w2_balance_def w2_outs_def)
next
  fix db items mid db' items'
  assume "w2_wf db" and "w2_fits db" and "w2_audit db items mid = (db', items')"
  then show "w2_wf db' \<and> w2_balance db' = w2_balance db \<and> w2_outs db' \<subseteq> w2_outs db
      \<and> net items' = net items + w2_balance db"
    by (auto simp: w2_audit_def net_add_items w2_fits_def w2_balance_def sint_thousand split: option.splits)
qed

end
