(* ===== verification/Engine_Replay.thy ===== *)
theory Engine_Replay
  imports Engine_Laws Index_Log
begin

section \<open>Crash recovery\<close>

text \<open>
  After a restart the broadcast delivers the session again from its first unit on. The items that
  were accepted before the crash are in the database, numbered from 0; items that were rejected are
  not, and are told apart only because processing them again fails again. The session therefore
  continues in the state and at the index where it stopped.
\<close>

subsection \<open>One item\<close>

lemma get_index_log_last:
  assumes "length acc < 2 ^ 64"
  shows "bt_get (index_log (acc @ [a])) (of_nat (length acc)) = Some a"
proof -
  have "index_log (acc @ [a]) = bt_insert (of_nat (length acc)) a (index_log acc)"
    by (simp only: insert_index_log(2) [OF assms])
  then show ?thesis
    by (simp only: map_of_bt_insert fun_upd_same)
qed

lemma with_db_transaction_accepted:
  "process_consensus_item_with_db_transaction E db item peer = Ok db1 \<Longrightarrow> ed_accepted_items db1 = ed_accepted_items db"
  by (auto simp: process_consensus_item_with_db_transaction_def Let_def split: consensus_item.splits if_splits)

lemma process_consensus_item_peer:
  "process_consensus_item E commits db i item peer \<noteq> Panic \<Longrightarrow> bt_get (en_broadcast_public_keys E) peer \<noteq> None"
  by (cases "bt_get (en_broadcast_public_keys E) peer") (simp_all add: process_consensus_item_def)

lemma process_consensus_item_existing:
  assumes "bt_get (en_broadcast_public_keys E) peer \<noteq> None" and "bt_get (ed_accepted_items db) i = Some x"
  shows "process_consensus_item E commits db i item peer =
    (if x = \<lparr>ac_item = item, ac_peer = peer\<rparr> then Ok db else Err ''Item was discarded previously'')"
  using assms by (auto simp: process_consensus_item_def attempt_loop.simps attempt_eq)

lemma process_consensus_item_rejected:
  assumes "bt_get (en_broadcast_public_keys E) peer \<noteq> None" and "bt_get (ed_accepted_items db) i = None"
    and "process_consensus_item_with_db_transaction E db item peer = Err e"
  shows "process_consensus_item E commits db i item peer = Err e"
  using assms by (auto simp: process_consensus_item_def attempt_loop.simps attempt_eq)

text \<open>Items are numbered without gaps.\<close>

lemma process_consensus_item_log:
  assumes "ed_accepted_items db = index_log acc" and "length acc < 2 ^ 64"
    and "process_consensus_item E commits db (of_nat (length acc)) item peer = Ok db'"
  shows "ed_accepted_items db' = index_log (acc @ [\<lparr>ac_item = item, ac_peer = peer\<rparr>])
    \<and> (\<exists>db1. process_consensus_item_with_db_transaction E db item peer = Ok db1)"
  using process_consensus_item_Ok [OF assms(3)] insert_index_log [OF assms(2)] assms(1)
  by (auto simp: committed_def dest: with_db_transaction_accepted)

subsection \<open>A sequence of items\<close>

fun process_ordered ::
  "('s, 'i, 'o, 'c, 'ie, 'oe) engine \<Rightarrow> commit_outcomes \<Rightarrow> (('i, 'o, 'c) consensus_item \<times> peer_id) list
    \<Rightarrow> ('s, 'i, 'o, 'c) engine_db \<times> u64 \<Rightarrow> ('e, ('s, 'i, 'o, 'c) engine_db \<times> u64) result" where
  "process_ordered E commits [] st = Ok st"
| "process_ordered E commits ((item, peer) # xs) st =
     rbind (process_batch E commits [item] peer st) (process_ordered E commits xs)"

lemma process_batch_ordered:
  "process_batch E commits items peer st = process_ordered E commits (map (\<lambda>item. (item, peer)) items) st"
proof (induction items arbitrary: st)
  case (Cons item items)
  then show ?case
    by (cases st) (auto split: result.splits)
next
  case Nil
  then show ?case by (cases st) simp
qed

lemma process_ordered_append:
  "process_ordered E commits (xs @ ys) st = (rbind (process_ordered E commits xs st) (process_ordered E commits ys) :: ('e, _) result)"
proof (induction xs arbitrary: st)
  case (Cons x xs)
  then have "process_ordered E commits (xs @ ys) =
      (\<lambda>st. rbind (process_ordered E commits xs st) (process_ordered E commits ys) :: ('e, _) result)"
    by (intro ext)
  then show ?case
    by (cases x) (simp add: rbind_assoc)
qed simp

lemma process_ordered_ConsE:
  assumes "process_ordered E commits ((item, peer) # xs) (db, i) = (Ok (db1, n) :: ('e, _) result)"
  obtains (accepted) db' where "process_consensus_item E (commits i) db i item peer = Ok db'"
      and "process_ordered E commits xs (db', i + 1) = (Ok (db1, n) :: ('e, _) result)"
    | (rejected) e where "process_consensus_item E (commits i) db i item peer = Err e"
      and "process_ordered E commits xs (db, i) = (Ok (db1, n) :: ('e, _) result)"
  using assms by (auto split: result.splits)

lemma process_ordered_peer:
  assumes "process_ordered E commits ((item, peer) # xs) (db, i) = (Ok (db1, n) :: ('e, _) result)"
  shows "bt_get (en_broadcast_public_keys E) peer \<noteq> None"
  using assms process_consensus_item_peer [of E "commits i" db i item peer]
  by (cases rule: process_ordered_ConsE) simp_all

text \<open>
  A later database of the same session: its log extends the earlier one, and the first item it adds
  was acceptable in the earlier database. This is all a replay depends on.
\<close>

definition grown ::
  "('s, 'i, 'o, 'c, 'ie, 'oe) engine \<Rightarrow> ('i, 'o, 'c) accepted_item list \<Rightarrow> ('s, 'i, 'o, 'c) engine_db
    \<Rightarrow> ('i, 'o, 'c) accepted_item list \<Rightarrow> ('s, 'i, 'o, 'c) engine_db \<Rightarrow> bool" where
  "grown E acc db new db' \<longleftrightarrow> ed_accepted_items db = index_log acc \<and> ed_accepted_items db' = index_log (acc @ new)
     \<and> length (acc @ new) < 2 ^ 64 \<and> (new = [] \<longrightarrow> db' = db)
     \<and> (\<forall>a rest. new = a # rest \<longrightarrow> (\<exists>db1. process_consensus_item_with_db_transaction E db (ac_item a) (ac_peer a) = Ok db1))"

lemma grown_refl: "ed_accepted_items db = index_log acc \<Longrightarrow> length acc < 2 ^ 64 \<Longrightarrow> grown E acc db [] db"
  by (simp add: grown_def)

lemma grown_trans: "grown E acc db new db1 \<Longrightarrow> grown E (acc @ new) db1 new' db2 \<Longrightarrow> grown E acc db (new @ new') db2"
  by (cases new) (simp_all add: grown_def)

lemma grown_trans_log:
  assumes "grown E acc db new db1" and "grown E acc1 db1 new1 db2"
  shows "grown E acc db (new @ new1) db2"
proof -
  have "index_log acc1 = index_log (acc @ new)"
    using assms by (simp add: grown_def)
  then have "acc1 = acc @ new"
    by (rule index_log_inj)
  then show ?thesis
    using grown_trans assms by blast
qed

lemma grown_item:
  assumes "ed_accepted_items db = index_log acc" and "Suc (length acc) < 2 ^ 64"
    and "process_consensus_item E commits db (of_nat (length acc)) item peer = Ok db'"
  shows "grown E acc db [\<lparr>ac_item = item, ac_peer = peer\<rparr>] db'"
  using process_consensus_item_log [OF assms(1) _ assms(3)] assms(1,2) by (simp add: grown_def)

lemma get_index_log:
  assumes "i < length acc" and "length acc < 2 ^ 64"
  shows "bt_get (index_log acc) (of_nat i) = Some (acc ! i)"
proof -
  have acc: "acc = (take i acc @ [acc ! i]) @ drop (Suc i) acc"
    using id_take_nth_drop [OF assms(1)] by simp
  have "bt_get (index_log (take i acc @ [acc ! i])) (of_nat i) = Some (acc ! i)"
    using get_index_log_last [of "take i acc" "acc ! i"] assms by simp
  then show ?thesis
    by (subst acc) (rule get_index_log_append)
qed

lemma get_grown:
  assumes "grown E acc db new db'" and "i < length (acc @ new)"
  shows "bt_get (ed_accepted_items db') (of_nat i) = Some ((acc @ new) ! i)"
  using assms get_index_log [OF assms(2)] by (simp add: grown_def)

text \<open>
  The next item of a run at the index \<open>i\<close>: below the end of the log it is compared with the logged
  one, at the end of the log it is processed.
\<close>

lemma process_ordered_itemE:
  assumes run: "process_ordered E commits ((item, peer) # xs) (db, of_nat i) = (Ok (db1, n) :: ('e, _) result)"
    and log: "ed_accepted_items db = index_log acc" and i: "i \<le> length acc" "length acc < 2 ^ 64"
  obtains (logged) "i < length acc" "acc ! i = \<lparr>ac_item = item, ac_peer = peer\<rparr>"
      "process_ordered E commits xs (db, of_nat (Suc i)) = (Ok (db1, n) :: ('e, _) result)"
    | (discarded) "i < length acc" "acc ! i \<noteq> \<lparr>ac_item = item, ac_peer = peer\<rparr>"
      "process_ordered E commits xs (db, of_nat i) = (Ok (db1, n) :: ('e, _) result)"
    | (accepted) db' where "i = length acc" "process_consensus_item E (commits (of_nat i)) db (of_nat i) item peer = Ok db'"
      "process_ordered E commits xs (db', of_nat (Suc i)) = (Ok (db1, n) :: ('e, _) result)"
    | (rejected) e where "i = length acc" "process_consensus_item_with_db_transaction E db item peer = Err e"
      "process_ordered E commits xs (db, of_nat i) = (Ok (db1, n) :: ('e, _) result)"
proof (cases "i < length acc")
  case True
  have "bt_get (ed_accepted_items db) (of_nat i) = Some (acc ! i)"
    using get_index_log [OF True i(2)] by (simp add: log)
  note existing = process_consensus_item_existing [OF process_ordered_peer [OF run] this, of "commits (of_nat i)" item]
  from run show ?thesis
  proof (cases rule: process_ordered_ConsE)
    case (accepted db')
    then show ?thesis
      using existing True logged by (auto simp: ac_simps split: if_splits)
  next
    case (rejected e)
    then show ?thesis
      using existing True discarded by (auto split: if_splits)
  qed
next
  case False
  then have i': "i = length acc"
    using i(1) by simp
  have free: "bt_get (ed_accepted_items db) (of_nat i) = None"
    using insert_index_log(1) [OF i(2)] by (simp add: log i')
  from run show ?thesis
  proof (cases rule: process_ordered_ConsE)
    case (accepted db')
    then show ?thesis
      using i' that(3) by (simp add: ac_simps)
  next
    case (rejected e)
    then show ?thesis
      using i' that(4) process_consensus_item_Err [OF rejected(1)] free by simp
  qed
qed

lemma process_ordered_grown:
  assumes "process_ordered E commits xs (db, of_nat i) = (Ok (db1, n) :: ('e, _) result)"
    and "ed_accepted_items db = index_log acc" and "i \<le> length acc" "length acc < 2 ^ 64" "i + length xs < 2 ^ 64"
  shows "\<exists>new. grown E acc db new db1 \<and> (i = length acc \<longrightarrow> n = of_nat (length (acc @ new)))"
  using assms
proof (induction xs arbitrary: db acc i)
  case Nil
  then show ?case
    by (intro exI [of _ "[]"]) (auto intro: grown_refl)
next
  case (Cons x xs)
  obtain item peer where x: "x = (item, peer)" by (cases x)
  from Cons.prems(1) [unfolded x] Cons.prems(2-4) show ?case
  proof (cases rule: process_ordered_itemE)
    case logged
    then show ?thesis
      using Cons.IH [OF logged(3) Cons.prems(2)] Cons.prems(4,5) by auto
  next
    case discarded
    then show ?thesis
      using Cons.IH [OF discarded(3) Cons.prems(2)] Cons.prems(4,5) by auto
  next
    case (accepted db')
    have g: "grown E acc db [\<lparr>ac_item = item, ac_peer = peer\<rparr>] db'"
      using grown_item [OF Cons.prems(2)] accepted(1,2) Cons.prems(5) by simp
    then obtain new where "grown E (acc @ [\<lparr>ac_item = item, ac_peer = peer\<rparr>]) db' new db1"
      "n = of_nat (length ((acc @ [\<lparr>ac_item = item, ac_peer = peer\<rparr>]) @ new))"
      using Cons.IH [OF accepted(3), of "acc @ [\<lparr>ac_item = item, ac_peer = peer\<rparr>]"] accepted(1) Cons.prems(5)
      by (auto simp: grown_def)
    then show ?thesis
      using grown_trans [OF g] by (intro exI [of _ "[\<lparr>ac_item = item, ac_peer = peer\<rparr>] @ new"]) simp
  next
    case (rejected e)
    then show ?thesis
      using Cons.IH [OF rejected(3) Cons.prems(2)] Cons.prems(4,5) by auto
  qed
qed

text \<open>An item that was rejected at the end of the log is rejected again on a later database.\<close>

lemma grown_rejects:
  assumes g: "grown E acc db new db'" and peer: "bt_get (en_broadcast_public_keys E) peer \<noteq> None"
    and err: "process_consensus_item_with_db_transaction E db item peer = Err e"
  shows "\<exists>e. process_consensus_item E commits db' (of_nat (length acc)) item peer = Err e"
proof (cases new)
  case Nil
  have "bt_get (ed_accepted_items db) (of_nat (length acc)) = None"
    using g insert_index_log(1) [of acc] by (simp add: grown_def)
  then show ?thesis
    using g Nil process_consensus_item_rejected [OF peer _ err] by (simp add: grown_def)
next
  case (Cons b rest)
  then have "b \<noteq> \<lparr>ac_item = item, ac_peer = peer\<rparr>"
    using g err by (auto simp: grown_def)
  then show ?thesis
    using process_consensus_item_existing [OF peer get_grown [OF g]] Cons by simp
qed

text \<open>A run that is repeated on a later database of the session changes nothing and ends at the same index.\<close>

lemma process_ordered_replay:
  assumes "process_ordered E commits xs (db, of_nat i) = (Ok (db1, n) :: ('e, _) result)"
    and "ed_accepted_items db = index_log acc" and "i \<le> length acc" "length acc < 2 ^ 64" "i + length xs < 2 ^ 64"
    and "grown E acc1 db1 new1 db2"
  shows "process_ordered E commits' xs (db2, of_nat i) = (Ok (db2, n) :: ('f, _) result)"
  using assms(1-5)
proof (induction xs arbitrary: db acc i)
  case (Cons x xs)
  obtain item peer where x: "x = (item, peer)" by (cases x)
  let ?a = "\<lparr>ac_item = item, ac_peer = peer\<rparr>" and ?i = "of_nat i :: u64"
  note peer = process_ordered_peer [OF Cons.prems(1) [unfolded x]]
  obtain new where all: "grown E acc db new db2"
    using process_ordered_grown [OF Cons.prems] grown_trans_log [OF _ assms(6)] by blast
  from Cons.prems(1) [unfolded x] Cons.prems(2-4) show ?case
  proof (cases rule: process_ordered_itemE)
    case logged
    then have "process_consensus_item E (commits' ?i) db2 ?i item peer = Ok db2"
      using process_consensus_item_existing [OF peer get_grown [OF all]] by (simp add: nth_append)
    then show ?thesis
      using Cons.IH [OF logged(3) Cons.prems(2)] logged(1) Cons.prems(4,5) by (simp add: x ac_simps)
  next
    case discarded
    then have "\<exists>e. process_consensus_item E (commits' ?i) db2 ?i item peer = Err e"
      using process_consensus_item_existing [OF peer get_grown [OF all]] by (simp add: nth_append)
    then show ?thesis
      using Cons.IH [OF discarded(3) Cons.prems(2)] discarded(1) Cons.prems(4,5) by (auto simp: x)
  next
    case (accepted db')
    have log: "ed_accepted_items db' = index_log (acc @ [?a])"
      using process_consensus_item_log [OF Cons.prems(2,4) accepted(2) [unfolded accepted(1)]] by simp
    have later: "process_ordered E commits xs (db', of_nat (Suc i)) = (Ok (db1, n) :: ('e, _) result)"
      "Suc i \<le> length (acc @ [?a])" "length (acc @ [?a]) < 2 ^ 64" "Suc i + length xs < 2 ^ 64"
      using accepted Cons.prems(5) by simp_all
    obtain new' where g: "grown E (acc @ [?a]) db' new' db2"
      using process_ordered_grown [OF later(1) log later(2-4)] grown_trans_log [OF _ assms(6)] by blast
    have "process_consensus_item E (commits' ?i) db2 ?i item peer = Ok db2"
      using process_consensus_item_existing [OF peer get_grown [OF g]] accepted(1) by (simp add: nth_append)
    then show ?thesis
      using Cons.IH [OF later(1) log later(2-4)] by (simp add: x ac_simps)
  next
    case (rejected e)
    then have "\<exists>e. process_consensus_item E (commits' ?i) db2 ?i item peer = Err e"
      using grown_rejects [OF all peer rejected(2)] by simp
    then show ?thesis
      using Cons.IH [OF rejected(3) Cons.prems(2)] rejected(1) Cons.prems(4,5) by (auto simp: x)
  qed
qed simp

subsection \<open>The units of a session\<close>

text \<open>An ordered unit below the last round whose batch does not crash the decoder, or a tick of the timer.\<close>

fun in_session :: "('s, 'i, 'o, 'c, 'ie, 'oe) engine \<Rightarrow> ('i, 'o, 'c) session_event \<Rightarrow> bool" where
  "in_session E (OrderedUnitReceived u) \<longleftrightarrow> ou_round u < en_broadcast_rounds_per_session E \<and>
     (case ou_data u of Some (Batch bytes) \<Rightarrow> en_decode E bytes \<noteq> Panic | _ \<Rightarrow> True)"
| "in_session E IntervalTick \<longleftrightarrow> True"
| "in_session E ev \<longleftrightarrow> False"

fun ordered_items ::
  "('s, 'i, 'o, 'c, 'ie, 'oe) engine \<Rightarrow> ('i, 'o, 'c) session_event list \<Rightarrow> (('i, 'o, 'c) consensus_item \<times> peer_id) list" where
  "ordered_items E [] = []"
| "ordered_items E (OrderedUnitReceived u # evs) =
     (case ou_data u of
        Some (Batch bytes) \<Rightarrow> (case en_decode E bytes of Ok items \<Rightarrow> map (\<lambda>item. (item, ou_creator u)) items | _ \<Rightarrow> [])
      | _ \<Rightarrow> []) @ ordered_items E evs"
| "ordered_items E (ev # evs) = ordered_items E evs"

lemma collect_items_ordered:
  assumes "list_all (in_session E) evs"
  shows "collect_items E commits s (evs @ evs') st =
    (rbind (process_ordered E commits (ordered_items E evs) st) (collect_items E commits s evs') :: ('e, _) result)"
  using assms
proof (induction E evs arbitrary: st rule: ordered_items.induct)
  case (2 E u evs)
  obtain db i where st: "st = (db, i)" by (cases st)
  have round: "\<not> en_broadcast_rounds_per_session E \<le> ou_round u"
    using "2.prems" by (simp add: not_le)
  have IH: "collect_items E commits s (evs @ evs') =
      (\<lambda>st. rbind (process_ordered E commits (ordered_items E evs) st) (collect_items E commits s evs') :: ('e, _) result)"
    using 2 by (intro ext) simp
  show ?case
    using "2.prems" round
    by (auto simp: st IH process_batch_ordered process_ordered_append rbind_assoc
        split: option.splits unit_data.splits result.splits)
qed (auto simp: list_all_iff)

lemma collect_items_Nil [simp]: "collect_items E commits s [] st = Ok (Waiting (fst st))"
  by (cases st) simp

lemma pending_accepted_items_index_log: "ed_accepted_items db = index_log acc \<Longrightarrow> pending_accepted_items db = acc"
  by (simp add: pending_accepted_items_def bt_values_def index_log_def comp_def map_nth)

lemma length_pending_accepted_items: "ed_accepted_items db = index_log acc \<Longrightarrow> length (pending_accepted_items db) = length acc"
  by (simp add: pending_accepted_items_def bt_values_def)

text \<open>
  C5: a guardian that crashes in a session and replays it from the first unit reaches the state and the item index at
  which it stopped and continues from there, as if it had not crashed, whatever the commits of the
  replay do.
\<close>

theorem crash_recovery:
  assumes "list_all (in_session E) evs" and "length (ordered_items E evs) < 2 ^ 64"
    and "ed_accepted_items db0 = []" and "collect_items E commits s evs (db0, 0) = (Ok (Waiting db1) :: ('e, _) result)"
  shows "collect_items E commits' s (evs @ later) (db1, 0)
      = (collect_items E commits' s later (db1, of_nat (length (pending_accepted_items db1))) :: ('f, _) result)
    \<and> collect_items E commits s (evs @ later) (db0, 0)
      = (collect_items E commits s later (db1, of_nat (length (pending_accepted_items db1))) :: ('e, _) result)"
proof -
  let ?xs = "ordered_items E evs"
  have log: "ed_accepted_items db0 = index_log []"
    using assms(3) by simp
  have room: "0 + length ?xs < 2 ^ 64"
    using assms(2) by simp
  obtain n where run: "process_ordered E commits ?xs (db0, of_nat 0) = (Ok (db1, n) :: ('e, _) result)"
    using collect_items_ordered [OF assms(1), of commits s "[]" "(db0, 0)", where 'e = 'e] assms(4)
    by (cases "process_ordered E commits ?xs (db0, 0) :: ('e, _) result") (auto simp: prod_eq_iff)
  obtain new where g: "grown E [] db0 new db1" and "n = of_nat (length new)"
    using process_ordered_grown [OF run log _ _ room] by auto
  then have n: "n = of_nat (length (pending_accepted_items db1))"
    using length_pending_accepted_items [of db1 new] by (simp add: grown_def)
  have "grown E new db1 [] db1"
    using g by (intro grown_refl) (simp_all add: grown_def)
  from process_ordered_replay [OF run log _ _ room this]
  have "process_ordered E commits' ?xs (db1, 0) = (Ok (db1, n) :: ('f, _) result)"
    by simp
  then show ?thesis
    using run by (simp add: collect_items_ordered [OF assms(1)] n)
qed

text \<open>A guardian of a federation of one, and a batch with the same transaction twice.\<close>

definition sample_item :: "(u8, unit, unit) consensus_item" where
  "sample_item = CITransaction (sample_tx [[7, 1, 3, 7, 1, 3, 0, 0, 0, 0, 0, 0, 0, 1]])"

definition sample_engine :: "(unit, u8, unit, unit, unit, unit) engine" where
  "sample_engine =
     \<lparr>en_tx_env = sample_env, en_modules = [(3, sample_module)], en_version = (2, 1), en_identity = 0,
      en_broadcast_public_keys = [(0, [7])], en_broadcast_rounds_per_session = 2, en_sha256 = \<lambda>bs. bs,
      en_enc_item = \<lambda>_. [5], en_calculate_root = \<lambda>hs. case hs of [] \<Rightarrow> None | h # _ \<Rightarrow> Some h,
      en_decode = \<lambda>_. Ok [sample_item, sample_item], en_sign_schnorr = \<lambda>m. m,
      en_verify_schnorr = \<lambda>sig m pk. sig = m, en_signature_from_slice = Some\<rparr>"

definition sample_engine_db :: "(u64, (u8, unit, unit) accepted_item) btree \<Rightarrow> (unit, u8, unit, unit) engine_db" where
  "sample_engine_db acc =
     \<lparr>ed_modules = \<lambda>_. (), ed_accepted_items = acc,
      ed_accepted_txs = if acc = [] then [] else [([1, 3, 7, 1, 3, 0, 0, 0, 0, 0, 0, 0, 1], [3])],
      ed_signed_session_outcomes = []\<rparr>"

abbreviation sample_accepted :: "(u64, (u8, unit, unit) accepted_item) btree" where
  "sample_accepted \<equiv> [(0, \<lparr>ac_item = sample_item, ac_peer = 0\<rparr>)]"

abbreviation sample_unit :: "u16 \<Rightarrow> (u8, unit, unit) session_event" where
  "sample_unit r \<equiv> OrderedUnitReceived \<lparr>ou_creator = 0, ou_round = r, ou_data = Some (Batch [1])\<rparr>"

lemma sample_engine_sel [simp]:
  "en_tx_env sample_engine = sample_env" "en_modules sample_engine = [(3, sample_module)]" "en_version sample_engine = (2, 1)"
  "en_broadcast_public_keys sample_engine = [(0, [7])]" "en_broadcast_rounds_per_session sample_engine = 2"
  "en_identity sample_engine = 0" "en_decode sample_engine bs = Ok [sample_item, sample_item]"
  by (simp_all add: sample_engine_def)

lemma sample_item_accepted:
  "process_consensus_item sample_engine (\<lambda>_. Ok ()) (sample_engine_db []) 0 sample_item 0 = Ok (sample_engine_db sample_accepted)"
proof -
  have "process_consensus_item_with_db_transaction sample_engine (sample_engine_db []) sample_item 0 =
      Ok (sample_engine_db []\<lparr>ed_accepted_txs := [([1, 3, 7, 1, 3, 0, 0, 0, 0, 0, 0, 0, 1], [3])]\<rparr>)"
    by (simp add: process_consensus_item_with_db_transaction_def sample_item_def sample_tx_hash Let_def
        sample_tx_accepted sample_engine_db_def insert_entry_def) (simp add: sample_tx_def)
  moreover have "audit_modules [(3, sample_module)] (\<lambda>_. ()) [] = (\<lambda>_. (), [])"
    by (simp add: fun_eq_iff sample_module_def)
  ultimately show ?thesis
    by (simp add: process_consensus_item_def attempt_loop.simps attempt_eq audit_passes_def committed_def
        sample_engine_db_def calculate_net_assets_def)
qed

lemma sample_item_rejected:
  "process_consensus_item sample_engine (\<lambda>_. Ok ()) (sample_engine_db sample_accepted) 1 sample_item 0
    = Err ''Transaction is already accepted''"
proof -
  have "process_consensus_item_with_db_transaction sample_engine (sample_engine_db sample_accepted) sample_item 0 =
      Err ''Transaction is already accepted''"
    by (simp add: process_consensus_item_with_db_transaction_def sample_item_def sample_tx_hash Let_def sample_engine_db_def)
  then show ?thesis
    by (simp add: process_consensus_item_def attempt_loop.simps attempt_eq) (simp add: sample_engine_db_def)
qed

lemma sample_collected:
  "collect_items sample_engine (\<lambda>_ _. Ok ()) 0 [sample_unit 0, IntervalTick] (sample_engine_db [], 0)
    = Ok (Waiting (sample_engine_db sample_accepted))"
  by (simp add: sample_item_accepted sample_item_rejected)

theorem crash_recovery_witness:
  "collect_items sample_engine (\<lambda>_ _. Ok ()) 0 [sample_unit 0, IntervalTick, sample_unit 2] (sample_engine_db sample_accepted, 0)
    = (Ok (ItemsCollected (sample_engine_db sample_accepted) 1 []) :: (unit, _) result)"
proof -
  have "list_all (in_session sample_engine) [sample_unit 0, IntervalTick]"
    "length (ordered_items sample_engine [sample_unit 0, IntervalTick]) < 2 ^ 64" "ed_accepted_items (sample_engine_db []) = []"
    by (simp_all add: sample_engine_db_def)
  note replay = crash_recovery [where 'f = unit, OF this sample_collected, of "\<lambda>_ _. Ok ()" "[sample_unit 2]", THEN conjunct1]
  have "length (pending_accepted_items (sample_engine_db sample_accepted)) = 1"
    by (simp add: pending_accepted_items_def bt_values_def sample_engine_db_def)
  then show ?thesis
    using replay by (simp del: collect_items.simps) (simp only: collect_items.simps, simp)
qed

end
