(* ===== verification/Engine_Sessions.thy ===== *)
theory Engine_Sessions
  imports Engine_Replay Peers "HOL-Library.Sublist"
begin

section \<open>Signed sessions\<close>

text \<open>
  The guardians agree on the header of a session because its signatures come from a quorum. The
  session loops only return an outcome that passes the final validation.
\<close>

subsection \<open>Validation\<close>

lemma session_header_prefix: "session_header E items s = Ok h \<Longrightarrow> take 8 h = u64_to_be_bytes s"
  by (auto simp: session_header_def rassert_def u64_to_be_bytes_def split: option.splits if_splits)

text \<open>Computing a header has no error of its own.\<close>

lemma session_header_any:
  "session_header E items s = (Ok h :: ('e, bytes) result) \<Longrightarrow> session_header E items s = (Ok h :: ('f, bytes) result)"
  by (auto simp: session_header_def rassert_def split: option.splits if_splits)

lemma validate_iff:
  "validate_signed_session_outcome E outcome s = (Ok True :: ('e, bool) result) \<longleftrightarrow>
    length (sso_signatures outcome) = threshold (length (en_broadcast_public_keys E)) \<and>
    (\<exists>h. session_header E (sso_session_outcome outcome) s = (Ok h :: ('e, bytes) result) \<and>
      (\<forall>(peer, sig)\<in>set (sso_signatures outcome). verify_schnorr E h sig peer))"
  by (auto simp: validate_signed_session_outcome_def list_all_iff)

lemma verify_schnorr_peer: "verify_schnorr E h sig peer \<Longrightarrow> peer \<in> dom (bt_get (en_broadcast_public_keys E))"
  by (auto simp: verify_schnorr_def split: option.splits)

definition signers :: "('i, 'o, 'c) signed_session_outcome \<Rightarrow> peer_id set" where
  "signers outcome = fst ` set (sso_signatures outcome)"

lemma card_signers: "bt_wf (sso_signatures outcome) \<Longrightarrow> card (signers outcome) = length (sso_signatures outcome)"
  using bt.entries_distinct [of "sso_signatures outcome"] distinct_card [of "map fst (sso_signatures outcome)"]
  by (simp add: signers_def)

lemma card_dom_bt: "bt_wf m \<Longrightarrow> card (dom (bt_get m)) = length m"
  using bt.entries_distinct [of m] distinct_card [of "map fst m"] by (simp add: dom_map_of_conv_image_fst)

text \<open>Two validated outcomes of one session share a signer that is not evil.\<close>

lemma validated_outcomes_share_signer:
  assumes keys: "bt_wf (en_broadcast_public_keys E)" "en_broadcast_public_keys E \<noteq> []"
    and evil: "finite F" "card F \<le> max_evil (length (en_broadcast_public_keys E))"
    and wf: "bt_wf (sso_signatures o1)" "bt_wf (sso_signatures o2)"
    and valid: "validate_signed_session_outcome E o1 s = (Ok True :: ('e, bool) result)"
      "validate_signed_session_outcome E o2 s = (Ok True :: ('e, bool) result)"
  obtains p sig1 sig2 h1 h2 where "p \<notin> F" "p \<in> dom (bt_get (en_broadcast_public_keys E))"
    and "(p, sig1) \<in> set (sso_signatures o1)" "(p, sig2) \<in> set (sso_signatures o2)"
    and "session_header E (sso_session_outcome o1) s = (Ok h1 :: ('e, bytes) result)"
      "session_header E (sso_session_outcome o2) s = (Ok h2 :: ('e, bytes) result)"
    and "verify_schnorr E h1 sig1 p" "verify_schnorr E h2 sig2 p"
proof -
  let ?P = "dom (bt_get (en_broadcast_public_keys E))" and ?n = "length (en_broadcast_public_keys E)"
  obtain h1 h2 where h: "session_header E (sso_session_outcome o1) s = (Ok h1 :: ('e, bytes) result)"
    "session_header E (sso_session_outcome o2) s = (Ok h2 :: ('e, bytes) result)"
    and sigs: "\<And>peer sig. (peer, sig) \<in> set (sso_signatures o1) \<Longrightarrow> verify_schnorr E h1 sig peer"
      "\<And>peer sig. (peer, sig) \<in> set (sso_signatures o2) \<Longrightarrow> verify_schnorr E h2 sig peer"
    and len: "length (sso_signatures o1) = threshold ?n" "length (sso_signatures o2) = threshold ?n"
    using valid unfolding validate_iff by blast
  have "signers o1 \<subseteq> ?P" "signers o2 \<subseteq> ?P"
    using sigs verify_schnorr_peer by (fastforce simp: signers_def)+
  then have "(signers o1 \<inter> signers o2) - F \<noteq> {}"
    using quorums_share_honest [of ?n ?P F "signers o1" "signers o2"] evil len keys card_signers [OF wf(1)] card_signers [OF wf(2)]
    by (simp add: card_dom_bt finite_dom_map_of Suc_le_eq)
  then obtain p sig1 sig2 where "p \<notin> F" "(p, sig1) \<in> set (sso_signatures o1)" "(p, sig2) \<in> set (sso_signatures o2)"
    by (fastforce simp: signers_def)
  then show thesis
    using that h sigs verify_schnorr_peer by metis
qed

subsection \<open>The loops only return validated outcomes\<close>

definition verified_signatures ::
  "('s, 'i, 'o, 'c, 'ie, 'oe) engine \<Rightarrow> bytes \<Rightarrow> (peer_id, signature) btree \<Rightarrow> bool" where
  "verified_signatures E h sigs \<longleftrightarrow> length sigs \<le> threshold (length (en_broadcast_public_keys E)) \<and>
     (\<forall>(peer, sig)\<in>set sigs. verify_schnorr E h sig peer)"

lemma length_bt_insert_le: "length (bt_insert k v m) \<le> Suc (length m)"
  by (induction k v m rule: bt_insert.induct) auto

lemma verified_signatures_insert:
  assumes "verified_signatures E h sigs" and "verify_schnorr E h sig peer"
    and "length sigs < threshold (length (en_broadcast_public_keys E))"
  shows "verified_signatures E h (bt_insert peer sig sigs)"
  using assms length_bt_insert_le [of peer sig sigs] set_bt_insert_subset [of peer sig sigs]
  by (fastforce simp: verified_signatures_def)

text \<open>An answer that passes the filter of the request passes the validation.\<close>

lemma request_signed_session_outcome_valid:
  assumes "request_signed_session_outcome E s response = Ok outcome"
  shows "validate_signed_session_outcome E outcome s = (Ok True :: ('e, bool) result)"
proof -
  obtain h where "session_header E (sso_session_outcome outcome) s = (Ok h :: (string, bytes) result)"
    "length (sso_signatures outcome) = threshold (length (en_broadcast_public_keys E))"
    "list_all (\<lambda>(peer, sig). verify_schnorr E h sig peer) (sso_signatures outcome)"
    using assms by (auto simp: request_signed_session_outcome_def split: if_splits)
  moreover from this(1) have "session_header E (sso_session_outcome outcome) s = (Ok h :: ('e, bytes) result)"
    by (rule session_header_any)
  ultimately show ?thesis
    by (simp add: validate_signed_session_outcome_def)
qed

lemma collect_signatures_valid:
  assumes "collect_signatures E s items h db evs sigs = (Ok (SessionSigned db' outcome) :: ('e, _) result)"
    and "verified_signatures E h sigs" and "session_header E items s = (Ok h :: ('e, bytes) result)"
  shows "validate_signed_session_outcome E outcome s = (Ok True :: ('e, bool) result) \<and> db' = db"
  using assms
proof (induction evs arbitrary: sigs)
  case Nil
  then show ?case
    by (auto simp: collect_signatures.simps [of _ _ _ _ _ "[]"] validate_iff verified_signatures_def split: if_splits)
next
  case (Cons ev evs)
  show ?case
  proof (cases "threshold (length (en_broadcast_public_keys E)) \<le> length sigs")
    case True
    then show ?thesis
      using Cons.prems by (auto simp: collect_signatures.simps [of _ _ _ _ _ "ev # evs"] validate_iff verified_signatures_def)
  next
    case False
    have IH: "collect_signatures E s items h db evs sigs' = (Ok (SessionSigned db' outcome) :: ('e, _) result) \<Longrightarrow>
      verified_signatures E h sigs' \<Longrightarrow>
      validate_signed_session_outcome E outcome s = (Ok True :: ('e, bool) result) \<and> db' = db" for sigs'
      using Cons.IH [OF _ _ Cons.prems(3)] by simp
    note IHs = IH [THEN conjunct1] IH [THEN conjunct2]
    have ins: "verify_schnorr E h sig peer \<Longrightarrow> verified_signatures E h (bt_insert peer sig sigs)" for sig peer
      using verified_signatures_insert [OF Cons.prems(2)] False by (simp add: not_le)
    note run = Cons.prems(1) [unfolded collect_signatures.simps [of _ _ _ _ _ "ev # evs"] if_not_P [OF False] list.case]
    show ?thesis
    proof (cases ev)
      case (OrderedUnitReceived u)
      show ?thesis
        using run by (auto simp: OrderedUnitReceived keychain_verify_def intro: IHs ins Cons.prems(2)
            split: option.splits unit_data.splits if_splits)
    next
      case (P2PSignature peer sig)
      then show ?thesis
        using run by (auto intro: IHs ins Cons.prems(2) split: if_splits)
    next
      case (P2POutcome peer outcome')
      then show ?thesis
        using run by (auto simp: rassert_def intro: IHs Cons.prems(2) split: if_splits)
    next
      case (OutcomeResponse response)
      then show ?thesis
        using run request_signed_session_outcome_valid [of E s response outcome, where 'e = 'e]
        by (auto simp: rassert_def intro: IHs Cons.prems(2) split: result.splits if_splits)
    qed (use run in \<open>auto intro: IHs Cons.prems(2)\<close>)
  qed
qed

lemma collect_items_valid:
  assumes "collect_items E commits s evs st = (Ok (SessionSigned db outcome) :: ('e, _) result)"
  shows "validate_signed_session_outcome E outcome s = (Ok True :: ('e, bool) result)"
  using assms
proof (induction evs arbitrary: st)
  case (Cons ev evs)
  obtain db0 i where st: "st = (db0, i)" by (cases st)
  show ?case
  proof (cases ev)
    case (P2POutcome peer outcome')
    then show ?thesis
      using Cons.prems Cons.IH by (auto simp: st split: if_splits)
  next
    case (OutcomeResponse response)
    then show ?thesis
      using Cons.prems Cons.IH request_signed_session_outcome_valid [of E s response outcome, where 'e = 'e]
      by (auto simp: st split: result.splits)
  qed (use Cons.prems Cons.IH in \<open>auto simp: st split: if_splits option.splits unit_data.splits result.splits\<close>)
qed (cases st, simp)

text \<open>
  C6: every outcome that the loops of a session return passes the validation that the engine asserts
  before it completes the session, whatever units, outcomes and signatures the peers sent, and whatever
  they answered to the request for the outcome; the signatures of the guardian itself have to verify.
\<close>

theorem session_outcome_valid:
  assumes "\<And>h. verify_schnorr E h (sign_schnorr E h) (en_identity E)"
    and "complete_signed_session_outcome E commits s evs db = (Ok (SessionSigned db' outcome) :: ('e, _) result)"
  shows "validate_signed_session_outcome E outcome s = (Ok True :: ('e, bool) result)"
proof -
  obtain progress where run: "collect_items E commits s evs (db, 0) = (Ok progress :: ('e, _) result)"
    and rest: "(case progress of
       ItemsCollected db item_index evs \<Rightarrow>
         let items = pending_accepted_items db
         in rbind (rassert (item_index = of_nat (length items))) (\<lambda>_.
            rbind (session_header E items s) (\<lambda>h.
              collect_signatures E s items h db evs [(en_identity E, sign_schnorr E h)]))
     | _ \<Rightarrow> Ok progress) = (Ok (SessionSigned db' outcome) :: ('e, _) result)"
    using assms(2) by (auto simp: complete_signed_session_outcome_def)
  have "en_broadcast_public_keys E \<noteq> []"
    using verify_schnorr_peer [OF assms(1)] by auto
  then have "1 \<le> threshold (length (en_broadcast_public_keys E))"
    by (intro threshold_bounds(1)) (simp add: Suc_le_eq)
  then have own: "verified_signatures E h [(en_identity E, sign_schnorr E h)]" for h
    using assms(1) by (simp add: verified_signatures_def)
  show ?thesis
  proof (cases progress)
    case (ItemsCollected db1 i evs')
    then obtain h where h: "session_header E (pending_accepted_items db1) s = (Ok h :: ('e, bytes) result)"
      and sigs: "collect_signatures E s (pending_accepted_items db1) h db1 evs' [(en_identity E, sign_schnorr E h)]
        = (Ok (SessionSigned db' outcome) :: ('e, _) result)"
      using rest by (auto simp: Let_def)
    then show ?thesis
      using collect_signatures_valid [OF sigs own h] by simp
  qed (use rest run collect_items_valid in auto)
qed

text \<open>A guardian differs from the others in its identity and key only, on which validation does not depend.\<close>

lemma validate_guardian:
  "validate_signed_session_outcome (E\<lparr>en_identity := p, en_sign_schnorr := k\<rparr>) outcome s
    = validate_signed_session_outcome E outcome s"
proof -
  have "verify_schnorr (E\<lparr>en_identity := p, en_sign_schnorr := k\<rparr>) = verify_schnorr E"
    by (intro ext) (simp add: verify_schnorr_def tagged_message_def message_tag_def split: option.split)
  then show ?thesis
    by (simp add: validate_signed_session_outcome_def session_header_def)
qed

lemma client_accepts:
  assumes "validate_signed_session_outcome E outcome s = (Ok True :: ('e, bool) result)"
  shows "signed_session_outcome_verify E outcome s = (Ok True :: ('e, bool) result)"
  using assms unfolding validate_iff signed_session_outcome_verify_def Let_def list_all_iff verify_schnorr_def tagged_message_def
  by auto

lemma run_session_signed:
  assumes "run_session E commits s evs db = (Ok (SessionSigned db' outcome) :: ('e, _) result)"
  shows "validate_signed_session_outcome E outcome s = (Ok True :: ('e, bool) result)"
    and "bt_get (ed_signed_session_outcomes db') s = Some outcome" and "ed_accepted_items db' = []"
proof -
  obtain db1 valid where "validate_signed_session_outcome E outcome s = (Ok valid :: ('e, bool) result)"
    "rassert valid = (Ok () :: ('e, unit) result)" "complete_session db1 s outcome = (Ok db' :: ('e, _) result)"
  proof (cases "complete_signed_session_outcome E commits s evs db :: ('e, _) result")
    case (Ok progress)
    then show ?thesis
      using assms that by (cases progress) (auto simp: run_session_def)
  qed (use assms in \<open>simp_all add: run_session_def\<close>)
  then show "validate_signed_session_outcome E outcome s = (Ok True :: ('e, bool) result)"
    "bt_get (ed_signed_session_outcomes db') s = Some outcome" "ed_accepted_items db' = []"
    by (auto simp: rassert_def complete_session_def insert_entry_def map_of_bt_insert split: if_splits)
qed

subsection \<open>A guardian signs one header per session\<close>

fun ordered_units :: "('i, 'o, 'c) session_event list \<Rightarrow> ordered_unit list" where
  "ordered_units [] = []"
| "ordered_units (OrderedUnitReceived u # evs) = u # ordered_units evs"
| "ordered_units (ev # evs) = ordered_units evs"

text \<open>The items of a session are those of the units before the first one of the last round.\<close>

definition broadcast_items ::
  "('s, 'i, 'o, 'c, 'ie, 'oe) engine \<Rightarrow> ordered_unit list \<Rightarrow> (('i, 'o, 'c) consensus_item \<times> peer_id) list" where
  "broadcast_items E us =
     ordered_items E (map OrderedUnitReceived (takeWhile (\<lambda>u. ou_round u < en_broadcast_rounds_per_session E) us))"

lemma collect_items_collected:
  assumes "collect_items E commits s evs st = (Ok (ItemsCollected db' n rest) :: ('e, _) result)"
  shows "process_ordered E commits (broadcast_items E (ordered_units evs)) st = (Ok (db', n) :: ('e, _) result)
    \<and> (\<exists>u\<in>set (ordered_units evs). \<not> ou_round u < en_broadcast_rounds_per_session E)"
  using assms
proof (induction evs arbitrary: st)
  case (Cons ev evs)
  obtain db i where st: "st = (db, i)" by (cases st)
  show ?case
  proof (cases ev)
    case (OrderedUnitReceived u)
    show ?thesis
    proof (cases "ou_round u < en_broadcast_rounds_per_session E")
      case True
      then have "\<not> en_broadcast_rounds_per_session E \<le> ou_round u"
        by simp
      then obtain st' where
        "process_ordered E commits (ordered_items E [OrderedUnitReceived u]) st = (Ok st' :: ('e, _) result)"
        "collect_items E commits s evs st' = (Ok (ItemsCollected db' n rest) :: ('e, _) result)"
        using Cons.prems by (auto simp: st OrderedUnitReceived process_batch_ordered
            split: option.splits unit_data.splits result.splits)
      moreover have "broadcast_items E (u # us) = ordered_items E [OrderedUnitReceived u] @ broadcast_items E us" for us
        using True by (simp add: broadcast_items_def)
      ultimately show ?thesis
        using Cons.IH [of st'] by (auto simp: OrderedUnitReceived process_ordered_append)
    next
      case False
      then have "en_broadcast_rounds_per_session E \<le> ou_round u"
        by simp
      then show ?thesis
        using Cons.prems False by (simp add: st OrderedUnitReceived broadcast_items_def)
    qed
  next
    case (P2POutcome peer outcome)
    then show ?thesis
      using Cons by (auto simp: st split: if_splits)
  qed (use Cons in \<open>auto simp: st split: result.splits\<close>)
qed (cases st, simp)

text \<open>
  The header a guardian signs when it runs a session over the events \<open>evs\<close> from the database \<open>db\<close>, if it
  gets that far, and the database it then has. \<open>signed_header_run\<close> and \<open>unsigned_run\<close> tie it to the
  code: the run goes on with the signature of that header, and it makes no other use of the key.
\<close>

definition signed_header ::
  "('s, 'i, 'o, 'c, 'ie, 'oe) engine \<Rightarrow> commit_outcomes \<Rightarrow> u64 \<Rightarrow> ('i, 'o, 'c) session_event list \<Rightarrow> ('s, 'i, 'o, 'c) engine_db
    \<Rightarrow> (('s, 'i, 'o, 'c) engine_db \<times> bytes) option" where
  "signed_header E commits s evs db =
     (case collect_items E commits s evs (db, 0) :: (unit, _) result of
        Ok (ItemsCollected db' i rest) \<Rightarrow>
          if i = of_nat (length (pending_accepted_items db'))
          then (case session_header E (pending_accepted_items db') s :: (unit, _) result of
                  Ok h \<Rightarrow> Some (db', h) | _ \<Rightarrow> None)
          else None
      | _ \<Rightarrow> None)"

lemma signed_headerE:
  assumes "signed_header E commits s evs db = Some (db', h)"
  obtains i rest where "collect_items E commits s evs (db, 0) = (Ok (ItemsCollected db' i rest) :: (unit, _) result)"
    and "i = of_nat (length (pending_accepted_items db'))"
    and "session_header E (pending_accepted_items db') s = (Ok h :: (unit, bytes) result)"
  using assms by (auto simp: signed_header_def split: result.splits session_progress.splits if_splits)

lemma signed_header_run:
  assumes "signed_header E commits s evs db = Some (db', h)"
  shows "\<exists>rest. complete_signed_session_outcome E commits s evs db =
    (collect_signatures E s (pending_accepted_items db') h db' rest [(en_identity E, sign_schnorr E h)] :: (unit, _) result)"
  using assms by (elim signed_headerE) (intro exI, simp add: complete_signed_session_outcome_def Let_def)

lemma unsigned_run:
  assumes "signed_header E commits s evs db = None"
  shows "complete_signed_session_outcome E commits s evs db = (Panic :: (unit, _) result) \<or>
    complete_signed_session_outcome E commits s evs db = (collect_items E commits s evs (db, 0) :: (unit, _) result)"
  using assms by (auto simp: signed_header_def complete_signed_session_outcome_def Let_def rassert_def session_header_def
      split: result.splits session_progress.splits option.splits if_splits)

text \<open>
  What happens to the database of a guardian during a session, and the headers it signs. The database
  changes one committed item at a time: items from the broadcast or from a signed outcome, in a life
  of the guardian that crashes at any point. Each life that collects all items signs a header. The
  broadcast delivers the same units \<open>us\<close> in every life.
\<close>

inductive guardian_session ::
  "('s, 'i, 'o, 'c, 'ie, 'oe) engine \<Rightarrow> u64 \<Rightarrow> ordered_unit list \<Rightarrow> ('s, 'i, 'o, 'c) engine_db \<Rightarrow> bytes list
    \<Rightarrow> ('s, 'i, 'o, 'c) engine_db \<Rightarrow> bool" for E s us db0 where
  start: "guardian_session E s us db0 [] db0"
| item: "guardian_session E s us db0 hs db
    \<Longrightarrow> process_consensus_item E commits db (of_nat (length (pending_accepted_items db))) item peer = Ok db'
    \<Longrightarrow> Suc (length (pending_accepted_items db)) < 2 ^ 64 \<Longrightarrow> guardian_session E s us db0 hs db'"
| sign: "guardian_session E s us db0 hs db \<Longrightarrow> prefix (ordered_units evs) us
    \<Longrightarrow> signed_header E commits s evs db = Some (db', h) \<Longrightarrow> guardian_session E s us db0 (h # hs) db'"

text \<open>Every life is covered: wherever the processing of the ordered items or of a signed outcome stops.\<close>

lemma guardian_session_ordered:
  assumes "guardian_session E s us db0 hs db" and "ed_accepted_items db = index_log acc"
    and "process_ordered E commits xs (db, of_nat i) = (Ok (db', n) :: ('e, _) result)"
    and "i \<le> length acc" "length acc < 2 ^ 64" "i + length xs < 2 ^ 64"
  shows "guardian_session E s us db0 hs db'"
  using assms
proof (induction xs arbitrary: db acc i)
  case (Cons x xs)
  obtain item peer where x: "x = (item, peer)" by (cases x)
  from Cons.prems(3) [unfolded x] Cons.prems(2,4,5) show ?case
  proof (cases rule: process_ordered_itemE)
    case logged
    then show ?thesis
      using Cons.IH [OF Cons.prems(1,2) logged(3)] Cons.prems(5,6) by simp
  next
    case discarded
    then show ?thesis
      using Cons.IH [OF Cons.prems(1,2) discarded(3)] Cons.prems(5,6) by simp
  next
    case (accepted db1)
    have g: "grown E acc db [\<lparr>ac_item = item, ac_peer = peer\<rparr>] db1"
      using grown_item [OF Cons.prems(2)] accepted(1,2) Cons.prems(6) by simp
    have "guardian_session E s us db0 hs db1"
      using guardian_session.item [OF Cons.prems(1)] accepted(1,2) length_pending_accepted_items [OF Cons.prems(2)]
        Cons.prems(6) by simp
    then show ?thesis
      using Cons.IH [OF _ _ accepted(3), of "acc @ [\<lparr>ac_item = item, ac_peer = peer\<rparr>]"] g accepted(1) Cons.prems(6)
      by (simp add: grown_def)
  next
    case (rejected e)
    then show ?thesis
      using Cons.IH [OF Cons.prems(1,2) rejected(3)] Cons.prems(5,6) by simp
  qed
qed simp

lemma guardian_session_unprocessed:
  assumes "guardian_session E s us db0 hs db" and "ed_accepted_items db = index_log acc"
    and "process_unprocessed E commits items (of_nat (length acc)) db = (Ok db' :: ('e, _) result)"
    and "length acc + length items < 2 ^ 64"
  shows "guardian_session E s us db0 hs db'"
  using assms
proof (induction items arbitrary: db acc)
  case (Cons a items)
  obtain db1 where run: "process_consensus_item E (commits (of_nat (length acc))) db (of_nat (length acc)) (ac_item a) (ac_peer a) = Ok db1"
    and rest: "process_unprocessed E commits items (of_nat (Suc (length acc))) db1 = (Ok db' :: ('e, _) result)"
    using Cons.prems(3) by (auto simp: ac_simps elim: expect_ok.elims)
  have "\<lparr>ac_item = ac_item a, ac_peer = ac_peer a\<rparr> = a"
    by simp
  then have "grown E acc db [a] db1"
    using grown_item [OF Cons.prems(2) _ run] Cons.prems(4) by (simp only:) simp
  moreover have "guardian_session E s us db0 hs db1"
    using guardian_session.item [OF Cons.prems(1)] run length_pending_accepted_items [OF Cons.prems(2)] Cons.prems(4) by simp
  ultimately show ?case
    using Cons.IH [of db1 "acc @ [a]"] rest Cons.prems(4) by (simp add: grown_def)
qed simp

text \<open>
  Once a header is signed, the items of the session replay to the end of the log as it then was.
  Another life signs only if its log ends there too, so it signs the same header.
\<close>

definition settled ::
  "('s, 'i, 'o, 'c, 'ie, 'oe) engine \<Rightarrow> u64 \<Rightarrow> ordered_unit list \<Rightarrow> ('i, 'o, 'c) accepted_item list
    \<Rightarrow> ('s, 'i, 'o, 'c) engine_db \<Rightarrow> bytes \<Rightarrow> bool" where
  "settled E s us acc db h \<longleftrightarrow> (\<exists>n\<le>length acc. session_header E (take n acc) s = (Ok h :: (unit, bytes) result)
     \<and> (\<forall>commits. process_ordered E commits (broadcast_items E us) (db, 0) = (Ok (db, of_nat n) :: (unit, _) result)))"

lemma settled_grown:
  assumes "settled E s us acc db h" and g: "grown E acc db new db'" and "length (broadcast_items E us) < 2 ^ 64"
  shows "settled E s us (acc @ new) db' h"
proof -
  obtain n where n: "n \<le> length acc" "session_header E (take n acc) s = (Ok h :: (unit, bytes) result)"
    and run: "process_ordered E (\<lambda>_ _. Ok ()) (broadcast_items E us) (db, of_nat 0) = (Ok (db, of_nat n) :: (unit, _) result)"
    using assms(1) by (auto simp: settled_def)
  have log: "ed_accepted_items db = index_log acc" "length acc < 2 ^ 64"
    using g by (simp_all add: grown_def)
  have "process_ordered E commits (broadcast_items E us) (db', 0) = (Ok (db', of_nat n) :: (unit, _) result)" for commits
    using process_ordered_replay [where 'f = unit, OF run log(1) _ log(2) _ g] assms(3) by simp
  then show ?thesis
    using n unfolding settled_def by (intro exI [of _ n]) simp
qed

lemma signed_header_settled:
  assumes log: "ed_accepted_items db = index_log acc" "length acc < 2 ^ 64" and us: "length (broadcast_items E us) < 2 ^ 64"
    and life: "prefix (ordered_units evs) us" "signed_header E commits s evs db = Some (db', h)"
  obtains new where "grown E acc db new db'" and "settled E s us (acc @ new) db' h"
    and "\<And>h'. settled E s us acc db h' \<Longrightarrow> h' = h"
proof -
  obtain i rest where items: "collect_items E commits s evs (db, 0) = (Ok (ItemsCollected db' i rest) :: (unit, _) result)"
    and i: "i = of_nat (length (pending_accepted_items db'))"
    and h: "session_header E (pending_accepted_items db') s = (Ok h :: (unit, bytes) result)"
    by (rule signed_headerE [OF life(2)])
  have "broadcast_items E (ordered_units evs) = broadcast_items E us"
    using life(1) collect_items_collected [OF items] by (auto simp: broadcast_items_def prefix_def takeWhile_append1)
  then have run: "process_ordered E commits (broadcast_items E us) (db, of_nat 0) = (Ok (db', i) :: (unit, _) result)"
    using collect_items_collected [OF items] by simp
  obtain new where g: "grown E acc db new db'"
    using process_ordered_grown [OF run log(1) _ log(2)] us by auto
  then have pending: "pending_accepted_items db' = acc @ new" and refl: "grown E (acc @ new) db' [] db'"
    by (simp_all add: grown_def pending_accepted_items_index_log)
  have "process_ordered E commits' (broadcast_items E us) (db', 0) = (Ok (db', i) :: (unit, _) result)" for commits'
    using process_ordered_replay [where 'f = unit, OF run log(1) _ log(2) _ refl] us by simp
  then have "settled E s us (acc @ new) db' h"
    using h i unfolding settled_def by (intro exI [of _ "length (acc @ new)"]) (simp add: pending)
  moreover have "h' = h" if h': "settled E s us acc db h'" for h'
  proof -
    obtain n where n: "n \<le> length acc" "session_header E (take n acc) s = (Ok h' :: (unit, bytes) result)"
      "process_ordered E commits (broadcast_items E us) (db, 0) = (Ok (db, of_nat n) :: (unit, _) result)"
      using h' by (auto simp: settled_def)
    then have eq: "db' = db" "(of_nat n :: u64) = of_nat (length (acc @ new))"
      using run i by (simp_all add: pending)
    have "index_log (acc @ new) = ed_accepted_items db'" "index_log acc = ed_accepted_items db"
      using g by (simp_all add: grown_def)
    then have new: "new = []"
      using index_log_inj [of "acc @ new" acc] eq(1) by simp
    then have "(of_nat n :: u64) = of_nat (length acc)"
      using eq(2) by simp
    then have "n = length acc"
      using unat_of_nat_u64 [OF le_less_trans [OF n(1) log(2)]] unat_of_nat_u64 [OF log(2)] by metis
    then show ?thesis
      using n(2) h new by (simp add: pending)
  qed
  ultimately show thesis
    using g that by blast
qed

lemma guardian_session_settled:
  assumes "guardian_session E s us db0 hs db" and "ed_accepted_items db0 = []" and us: "length (broadcast_items E us) < 2 ^ 64"
  shows "\<exists>acc. ed_accepted_items db = index_log acc \<and> length acc < 2 ^ 64 \<and> (\<forall>h\<in>set hs. settled E s us acc db h)
    \<and> (\<forall>h\<in>set hs. \<forall>h'\<in>set hs. h = h')"
  using assms(1)
proof (induction rule: guardian_session.induct)
  case start
  then show ?case
    using assms(2) by (intro exI [of _ "[]"]) simp
next
  case (item hs db commits item peer db')
  then obtain acc where log: "ed_accepted_items db = index_log acc"
    and hs: "\<forall>h\<in>set hs. settled E s us acc db h" "\<forall>h\<in>set hs. \<forall>h'\<in>set hs. h = h'"
    by blast
  have g: "grown E acc db [\<lparr>ac_item = item, ac_peer = peer\<rparr>] db'"
    using grown_item [OF log] item.hyps(2,3) length_pending_accepted_items [OF log] by simp
  have "ed_accepted_items db' = index_log (acc @ [\<lparr>ac_item = item, ac_peer = peer\<rparr>])"
    "length (acc @ [\<lparr>ac_item = item, ac_peer = peer\<rparr>]) < 2 ^ 64"
    using g by (simp_all only: grown_def)
  then show ?case
    using hs settled_grown [OF _ g us] by blast
next
  case (sign hs db evs commits db' h)
  then obtain acc where log: "ed_accepted_items db = index_log acc" "length acc < 2 ^ 64"
    and hs: "\<forall>h\<in>set hs. settled E s us acc db h"
    by blast
  obtain new where g: "grown E acc db new db'" and h: "settled E s us (acc @ new) db' h"
    and same: "\<And>h'. settled E s us acc db h' \<Longrightarrow> h' = h"
    using signed_header_settled [OF log us sign.hyps(2,3)] by blast
  have eq: "h' = h" if "h' \<in> set (h # hs)" for h'
    using that hs same by auto
  have "ed_accepted_items db' = index_log (acc @ new)" "length (acc @ new) < 2 ^ 64"
    using g by (simp_all only: grown_def)
  moreover have "\<forall>h'\<in>set (h # hs). settled E s us (acc @ new) db' h'"
    using eq h by blast
  moreover have "\<forall>h1\<in>set (h # hs). \<forall>h2\<in>set (h # hs). h1 = h2"
    using eq by blast
  ultimately show ?case
    by blast
qed

lemma guardian_signs_once:
  assumes "guardian_session E s us db0 hs db" and "ed_accepted_items db0 = []" and "length (broadcast_items E us) < 2 ^ 64"
    and "h \<in> set hs" and "h' \<in> set hs"
  shows "h = h'"
  using guardian_session_settled [OF assms(1-3)] assms(4,5) by blast

text \<open>A guardian that follows the code in the session \<open>s\<close>, with the headers \<open>hs\<close> it signs.\<close>

definition honest_guardian ::
  "('s, 'i, 'o, 'c, 'ie, 'oe) engine \<Rightarrow> u64 \<Rightarrow> peer_id \<Rightarrow> bytes list \<Rightarrow> bool" where
  "honest_guardian E s p hs \<longleftrightarrow> (\<exists>sk us db0 db. ed_accepted_items db0 = [] \<and> length (broadcast_items E us) < 2 ^ 64
     \<and> guardian_session (E\<lparr>en_identity := p, en_sign_schnorr := sk\<rparr>) s us db0 hs db)"

lemma ordered_items_guardian:
  "ordered_items (E\<lparr>en_identity := p, en_sign_schnorr := k\<rparr>) evs = ordered_items E evs"
  by (induction E evs rule: ordered_items.induct) (simp_all split: option.split unit_data.split)

lemma honest_guardian_once: "honest_guardian E s p hs \<Longrightarrow> h \<in> set hs \<Longrightarrow> h' \<in> set hs \<Longrightarrow> h = h'"
  by (auto simp: honest_guardian_def broadcast_items_def ordered_items_guardian intro: guardian_signs_once)

text \<open>
  C4: two guardians of one federation that complete a session agree on its header, and the outcomes
  they store are accepted by the check of the clients. At most \<open>max_evil\<close> guardians are evil, and the
  others follow the code, through any number of crashes, on the units the broadcast delivers to each.
  The signatures of the two outcomes are not forged: one that verifies a header for a guardian that is
  not evil was made when that guardian signed the header (the broadcast signs its messages with the
  same key, but these are not headers). That the guardian signs no second header is a fact of the code.
\<close>

theorem session_agreement:
  assumes keys: "bt_wf (en_broadcast_public_keys E)" "en_broadcast_public_keys E \<noteq> []"
    and evil: "finite F" "card F \<le> max_evil (length (en_broadcast_public_keys E))"
    and honest: "\<And>p. p \<in> dom (bt_get (en_broadcast_public_keys E)) \<Longrightarrow> p \<notin> F \<Longrightarrow> honest_guardian E s p (hs p)"
    and unforged: "\<And>outcome p sig h. outcome \<in> {o1, o2} \<Longrightarrow> (p, sig) \<in> set (sso_signatures outcome) \<Longrightarrow> p \<notin> F
      \<Longrightarrow> session_header E (sso_session_outcome outcome) s = (Ok h :: ('e, bytes) result)
      \<Longrightarrow> verify_schnorr E h sig p \<Longrightarrow> h \<in> set (hs p)"
    and wf: "bt_wf (sso_signatures o1)" "bt_wf (sso_signatures o2)"
    and run1: "run_session (E\<lparr>en_identity := p1, en_sign_schnorr := k1\<rparr>) commits1 s evs1 db1
      = (Ok (SessionSigned db1' o1) :: ('e, _) result)"
    and run2: "run_session (E\<lparr>en_identity := p2, en_sign_schnorr := k2\<rparr>) commits2 s evs2 db2
      = (Ok (SessionSigned db2' o2) :: ('e, _) result)"
  shows "session_header E (sso_session_outcome o1) s = (session_header E (sso_session_outcome o2) s :: ('e, bytes) result)
    \<and> signed_session_outcome_verify E o1 s = (Ok True :: ('e, bool) result)
    \<and> bt_get (ed_signed_session_outcomes db1') s = Some o1 \<and> ed_accepted_items db1' = []"
proof -
  have valid: "validate_signed_session_outcome E o1 s = (Ok True :: ('e, bool) result)"
      "validate_signed_session_outcome E o2 s = (Ok True :: ('e, bool) result)"
    and stored: "bt_get (ed_signed_session_outcomes db1') s = Some o1" "ed_accepted_items db1' = []"
    using run_session_signed [OF run1] run_session_signed [OF run2] by (simp_all add: validate_guardian)
  obtain p sig1 sig2 h1 h2 where p: "p \<notin> F" "p \<in> dom (bt_get (en_broadcast_public_keys E))"
    and sig: "(p, sig1) \<in> set (sso_signatures o1)" "(p, sig2) \<in> set (sso_signatures o2)"
    and h: "session_header E (sso_session_outcome o1) s = (Ok h1 :: ('e, bytes) result)"
      "session_header E (sso_session_outcome o2) s = (Ok h2 :: ('e, bytes) result)"
    and verify: "verify_schnorr E h1 sig1 p" "verify_schnorr E h2 sig2 p"
    by (rule validated_outcomes_share_signer [OF keys evil wf valid])
  have "h1 \<in> set (hs p)" "h2 \<in> set (hs p)"
    using unforged [OF _ sig(1) p(1) h(1) verify(1)] unforged [OF _ sig(2) p(1) h(2) verify(2)] by simp_all
  then have "h1 = h2"
    using honest_guardian_once [OF honest [OF p(2,1)]] by blast
  then show ?thesis
    using h client_accepts [OF valid(1)] stored by simp
qed

text \<open>A session of the federation of one with one transaction. Its verifier accepts a signature of every message.\<close>

abbreviation sample_session_header :: bytes where
  "sample_session_header \<equiv> u64_to_be_bytes 0 @ [5]"

abbreviation sample_signed_db :: "(unit, u8, unit, unit) engine_db" where
  "sample_signed_db \<equiv> sample_engine_db sample_accepted"

definition sample_outcome :: "(u8, unit, unit) signed_session_outcome" where
  "sample_outcome = \<lparr>sso_session_outcome = [\<lparr>ac_item = sample_item, ac_peer = 0\<rparr>],
     sso_signatures = [(0, tagged_message sample_engine sample_session_header)]\<rparr>"

lemma sample_tagged [simp]: "tagged_message sample_engine h = message_tag sample_engine @ h"
  by (simp add: tagged_message_def sample_engine_def)

lemma sample_sign [simp]: "sign_schnorr sample_engine h = tagged_message sample_engine h"
  by (simp add: sign_schnorr_def sample_engine_def)

lemma sample_verify [simp]: "verify_schnorr sample_engine h sig p \<longleftrightarrow> p = 0 \<and> sig = tagged_message sample_engine h"
  by (simp add: verify_schnorr_def) (simp add: sample_engine_def)

lemma sample_threshold [simp]: "threshold (Suc 0) = 1"
  by (simp add: threshold_eq)

lemma sample_pending [simp]: "pending_accepted_items sample_signed_db = sso_session_outcome sample_outcome"
  by (simp add: pending_accepted_items_def sample_engine_db_def bt_values_def sample_outcome_def)

lemma sample_no_items: "pending_accepted_items (sample_engine_db []) = []" "ed_accepted_items (sample_engine_db []) = []"
  by (simp_all add: pending_accepted_items_def sample_engine_db_def bt_values_def)

lemma sample_header: "session_header sample_engine (sso_session_outcome sample_outcome) 0 = Ok sample_session_header"
  by (simp add: session_header_def sample_outcome_def consensus_hash_def) (simp add: sample_engine_def)

lemma sample_valid: "validate_signed_session_outcome sample_engine sample_outcome 0 = Ok True"
  by (simp add: validate_signed_session_outcome_def sample_header) (simp add: sample_outcome_def)

lemma sample_items_collected:
  "collect_items sample_engine (\<lambda>_ _. Ok ()) 0 [sample_unit 0, sample_unit 2] (sample_engine_db [], 0)
    = Ok (ItemsCollected sample_signed_db 1 [])"
  by (simp add: sample_item_accepted sample_item_rejected)

lemma sample_items_replayed:
  "collect_items sample_engine (\<lambda>_ _. Ok ()) 0 [sample_unit 0, sample_unit 2] (sample_signed_db, 0)
    = Ok (ItemsCollected sample_signed_db 1 [])"
proof -
  have "process_consensus_item sample_engine (\<lambda>_. Ok ()) sample_signed_db 0 sample_item 0 = Ok sample_signed_db"
    by (subst process_consensus_item_existing) (simp_all add: sample_engine_db_def)
  then show ?thesis
    by (simp add: sample_item_rejected)
qed

lemma sample_session_run:
  "complete_signed_session_outcome sample_engine (\<lambda>_ _. Ok ()) 0 [sample_unit 0, sample_unit 2] (sample_engine_db [])
    = Ok (SessionSigned sample_signed_db sample_outcome)"
proof -
  have "length (sso_session_outcome sample_outcome) = 1"
    by (simp add: sample_outcome_def)
  then show ?thesis
    unfolding complete_signed_session_outcome_def sample_items_collected
    by (simp add: sample_header collect_signatures.simps Let_def) (simp add: sample_outcome_def)
qed

lemma sample_recovered: "recover_session sample_engine (\<lambda>_ _. Ok ()) sample_outcome (sample_engine_db []) = Ok sample_signed_db"
  using sample_no_items by (simp add: recover_session_def sample_outcome_def sample_item_accepted Let_def)

text \<open>A forged answer to the request for the outcome is dropped, and the genuine one is recovered.\<close>

lemma sample_session_requested:
  "complete_signed_session_outcome sample_engine (\<lambda>_ _. Ok ()) 0
      [OutcomeResponse (Ok (sample_outcome\<lparr>sso_signatures := [(0, [])]\<rparr>)), OutcomeResponse (Ok sample_outcome)] (sample_engine_db [])
    = Ok (SessionSigned sample_signed_db sample_outcome)"
proof -
  have "request_signed_session_outcome sample_engine 0 (Ok (sample_outcome\<lparr>sso_signatures := [(0, [])]\<rparr>)) = Err ''Invalid signatures''"
    by (simp add: request_signed_session_outcome_def sample_header u64_to_be_bytes_def)
  moreover have "request_signed_session_outcome sample_engine 0 (Ok sample_outcome) = Ok sample_outcome"
    by (simp add: request_signed_session_outcome_def sample_header) (simp add: sample_outcome_def)
  ultimately show ?thesis
    by (simp add: complete_signed_session_outcome_def sample_recovered)
qed

lemma sample_run_session:
  "run_session (sample_engine\<lparr>en_identity := 0, en_sign_schnorr := \<lambda>m. m\<rparr>) (\<lambda>_ _. Ok ()) 0 [sample_unit 0, sample_unit 2] (sample_engine_db [])
    = Ok (SessionSigned (sample_signed_db\<lparr>ed_accepted_items := [], ed_signed_session_outcomes := [(0, sample_outcome)]\<rparr>) sample_outcome)"
proof -
  have "sample_engine\<lparr>en_identity := 0, en_sign_schnorr := \<lambda>m. m\<rparr> = sample_engine"
    by (simp add: sample_engine_def)
  then show ?thesis
    by (simp add: run_session_def sample_session_run sample_valid complete_session_def insert_entry_def)
      (simp add: sample_engine_db_def)
qed

theorem session_outcome_valid_witness:
  "validate_signed_session_outcome sample_engine sample_outcome 0 = (Ok True :: (unit, bool) result)"
  by (rule session_outcome_valid [OF _ sample_session_requested]) simp

text \<open>The guardian crashes after the transaction, replays the session and signs, crashes again and signs again.\<close>

lemma sample_guardian_honest: "honest_guardian sample_engine 0 0 [sample_session_header, sample_session_header]"
proof -
  let ?us = "ordered_units [sample_unit 0, sample_unit 2]"
  have E: "sample_engine\<lparr>en_identity := 0, en_sign_schnorr := \<lambda>m. m\<rparr> = sample_engine"
    by (simp add: sample_engine_def)
  have "signed_header sample_engine (\<lambda>_ _. Ok ()) 0 [sample_unit 0, sample_unit 2] sample_signed_db
      = Some (sample_signed_db, sample_session_header)"
    unfolding signed_header_def sample_items_replayed by (simp add: sample_header) (simp add: sample_outcome_def)
  then have sign: "guardian_session sample_engine 0 ?us (sample_engine_db []) hs sample_signed_db
      \<Longrightarrow> guardian_session sample_engine 0 ?us (sample_engine_db []) (sample_session_header # hs) sample_signed_db" for hs
    by (rule guardian_session.sign [rotated 2]) simp_all
  have "guardian_session sample_engine 0 ?us (sample_engine_db []) [] sample_signed_db"
    using guardian_session.item [OF guardian_session.start, of sample_engine "\<lambda>_. Ok ()" "sample_engine_db []" sample_item 0]
      sample_item_accepted by (simp add: sample_no_items)
  then have "guardian_session sample_engine 0 ?us (sample_engine_db []) [sample_session_header, sample_session_header] sample_signed_db"
    by (intro sign)
  moreover have "length (broadcast_items sample_engine ?us) < 2 ^ 64"
    by (simp add: broadcast_items_def)
  ultimately show ?thesis
    unfolding honest_guardian_def using E sample_no_items(2) by metis
qed

theorem session_agreement_witness:
  "signed_session_outcome_verify sample_engine sample_outcome 0 = (Ok True :: (unit, bool) result)"
proof -
  let ?hs = "\<lambda>_ :: peer_id. [sample_session_header, sample_session_header]"
  have "bt_wf (en_broadcast_public_keys sample_engine)" "en_broadcast_public_keys sample_engine \<noteq> []"
    "card ({} :: peer_id set) \<le> max_evil (length (en_broadcast_public_keys sample_engine))"
    "bt_wf (sso_signatures sample_outcome)"
    by (simp_all add: bt_wf_Cons sample_outcome_def)
  moreover have "honest_guardian sample_engine 0 p (?hs p)" if "p \<in> dom (bt_get (en_broadcast_public_keys sample_engine))" for p
    using that sample_guardian_honest by (auto split: if_splits)
  moreover have "h \<in> set (?hs p)" if "outcome \<in> {sample_outcome, sample_outcome}"
    "session_header sample_engine (sso_session_outcome outcome) 0 = (Ok h :: (unit, bytes) result)" for outcome h p
    using that by (simp add: sample_header)
  ultimately show ?thesis
    using session_agreement [where 'e = unit and hs = ?hs and F = "{}", OF _ _ _ _ _ _ _ _ sample_run_session sample_run_session]
    by blast
qed

end
