(* ===== verification/Federation.thy ===== *)
theory Federation
  imports Module_Audits Engine_Sessions
begin

section \<open>A guardian with its modules\<close>

text \<open>
  \<open>run\<close> in \<open>fedimint-server/src/consensus/mod.rs\<close> initialises one module per entry of the consensus
  configuration and hands the registry to the engine. Here the initialisers of the two mints, of
  the lightning module and of the wallet are present. Their types are erased into the sums below,
  as \<open>DynServerModule\<close> does with trait objects. The engine on such a registry keeps every module
  well-formed and the federation solvent, and transactions over the mint and the lightning module
  never crash it.
\<close>

subsection \<open>Erased types\<close>

datatype ('g1, 'g2) fed_state =
    MintState "'g1 mint_db"
  | LightningState "('g1, 'g2) lnv2_db"
  | Mintv2State "'g1 mintv2_db"
  | WalletState wallet_db

datatype 'g1 fed_input =
    MintIn "'g1 mint_input"
  | LightningIn "'g1 lightning_input"
  | Mintv2In "'g1 v2_mint_input"
  | WalletIn w2_input

datatype ('g1, 'g2) fed_output =
    MintOut "'g1 mint_output"
  | LightningOut "('g1, 'g2) lightning_output"
  | Mintv2Out "'g1 v2_mint_output"
  | WalletOut w2_output

datatype fed_item =
    MintItem mint_consensus_item
  | LightningItem lightning_consensus_item
  | Mintv2Item v2_mint_consensus_item
  | WalletItem w2_consensus_item

datatype fed_input_error =
    MintInputErr mint_input_error
  | LightningInputErr lightning_input_error
  | Mintv2InputErr v2_mint_input_error
  | WalletInputErr w2_input_error

datatype fed_output_error =
    MintOutputErr mint_output_error
  | LightningOutputErr lightning_output_error
  | Mintv2OutputErr v2_mint_output_error
  | WalletOutputErr w2_output_error

fun mint_of :: "('g1, 'g2) fed_state \<Rightarrow> 'g1 mint_db option" where
  "mint_of (MintState db) = Some db"
| "mint_of _ = None"

fun lightning_of :: "('g1, 'g2) fed_state \<Rightarrow> ('g1, 'g2) lnv2_db option" where
  "lightning_of (LightningState db) = Some db"
| "lightning_of _ = None"

fun mintv2_of :: "('g1, 'g2) fed_state \<Rightarrow> 'g1 mintv2_db option" where
  "mintv2_of (Mintv2State db) = Some db"
| "mintv2_of _ = None"

fun wallet_of :: "('g1, 'g2) fed_state \<Rightarrow> wallet_db option" where
  "wallet_of (WalletState db) = Some db"
| "wallet_of _ = None"

fun mint_in :: "'g1 fed_input \<Rightarrow> 'g1 mint_input option" where
  "mint_in (MintIn i) = Some i"
| "mint_in _ = None"

fun lightning_in :: "'g1 fed_input \<Rightarrow> 'g1 lightning_input option" where
  "lightning_in (LightningIn i) = Some i"
| "lightning_in _ = None"

fun mintv2_in :: "'g1 fed_input \<Rightarrow> 'g1 v2_mint_input option" where
  "mintv2_in (Mintv2In i) = Some i"
| "mintv2_in _ = None"

fun wallet_in :: "'g1 fed_input \<Rightarrow> w2_input option" where
  "wallet_in (WalletIn i) = Some i"
| "wallet_in _ = None"

fun mint_out :: "('g1, 'g2) fed_output \<Rightarrow> 'g1 mint_output option" where
  "mint_out (MintOut ot) = Some ot"
| "mint_out _ = None"

fun lightning_out :: "('g1, 'g2) fed_output \<Rightarrow> ('g1, 'g2) lightning_output option" where
  "lightning_out (LightningOut ot) = Some ot"
| "lightning_out _ = None"

fun mintv2_out :: "('g1, 'g2) fed_output \<Rightarrow> 'g1 v2_mint_output option" where
  "mintv2_out (Mintv2Out ot) = Some ot"
| "mintv2_out _ = None"

fun wallet_out :: "('g1, 'g2) fed_output \<Rightarrow> w2_output option" where
  "wallet_out (WalletOut ot) = Some ot"
| "wallet_out _ = None"

fun mint_item :: "fed_item \<Rightarrow> mint_consensus_item option" where
  "mint_item (MintItem c) = Some c"
| "mint_item _ = None"

fun lightning_item :: "fed_item \<Rightarrow> lightning_consensus_item option" where
  "lightning_item (LightningItem c) = Some c"
| "lightning_item _ = None"

fun mintv2_item :: "fed_item \<Rightarrow> v2_mint_consensus_item option" where
  "mintv2_item (Mintv2Item c) = Some c"
| "mintv2_item _ = None"

fun wallet_item :: "fed_item \<Rightarrow> w2_consensus_item option" where
  "wallet_item (WalletItem c) = Some c"
| "wallet_item _ = None"

subsection \<open>Initialising the modules\<close>

text \<open>
  What the modules take from other crates and from the bitcoin node. \<open>fe_prepare_db\<close> is the outcome
  of the migrations of a module's database, of its integrity check and of the commit of both;
  \<open>fe_start\<close> is the outcome of reading the configuration of the module and of what its initialiser
  does outside the registry.
\<close>

record ('s, 'g1, 'g2, 'gt) fed_env =
  fe_curve :: "('s, 'g1, 'g2, 'gt) curve"
  fe_hash160 :: "bytes \<Rightarrow> bytes"
  fe_lnv2 :: "('s, 'g1, 'g2, 'gt) lnv2_env"
  fe_wallet :: w2_env
  fe_rpc :: bitcoin_rpc
  fe_prepare_db :: "module_instance_id \<Rightarrow> (string, unit) result"
  fe_start :: "module_instance_id \<Rightarrow> (string, unit) result"

datatype ('s, 'g1, 'g2) fed_config =
    MintConf "('s, 'g2) mint"
  | LightningConf "('s, 'g1) lightning"
  | Mintv2Conf "('s, 'g2) mintv2_config"
  | WalletConf wallet_config
  | OtherConf string

type_synonym ('g1, 'g2) fed_module =
  "(('g1, 'g2) fed_state, 'g1 fed_input, ('g1, 'g2) fed_output, fed_item, fed_input_error, fed_output_error) server_module"

type_synonym ('g1, 'g2) fed_registry =
  "(('g1, 'g2) fed_state, 'g1 fed_input, ('g1, 'g2) fed_output, fed_item, fed_input_error, fed_output_error) module_registry"

fun init_module ::
  "('s, 'g1::linorder, 'g2, 'gt) fed_env \<Rightarrow> ('s, 'g1, 'g2) fed_config \<Rightarrow> ('g1, 'g2) fed_module option" where
  "init_module env (MintConf M) =
     Some (erase_module MintState mint_of mint_in mint_out mint_item MintInputErr MintOutputErr
       (mint_module (fe_curve env) (fe_hash160 env) M))"
| "init_module env (LightningConf L) =
     Some (erase_module LightningState lightning_of lightning_in lightning_out lightning_item LightningInputErr LightningOutputErr
       (lnv2_module (fe_lnv2 env) L))"
| "init_module env (Mintv2Conf cfg) =
     Some (erase_module Mintv2State mintv2_of mintv2_in mintv2_out mintv2_item Mintv2InputErr Mintv2OutputErr
       (mintv2_module (fe_curve env) (fe_hash160 env) cfg))"
| "init_module env (WalletConf cfg) =
     Some (erase_module WalletState wallet_of wallet_in wallet_out wallet_item WalletInputErr WalletOutputErr
       (walletv2_module (fe_wallet env) cfg (fe_rpc env)))"
| "init_module env (OtherConf kind) = None"

fun init_modules ::
  "('s, 'g1::linorder, 'g2, 'gt) fed_env \<Rightarrow> (module_instance_id \<times> ('s, 'g1, 'g2) fed_config) list
    \<Rightarrow> ('g1, 'g2) fed_registry \<Rightarrow> (string, ('g1, 'g2) fed_registry) result" where
  "init_modules env [] modules = Ok modules"
| "init_modules env ((module_id, module_cfg) # cfgs) modules =
     (case init_module env module_cfg of
        Some m \<Rightarrow>
          rbind (fe_prepare_db env module_id) (\<lambda>_.
          rbind (fe_start env module_id) (\<lambda>_.
            init_modules env cfgs (bt_insert module_id m modules)))
      | None \<Rightarrow> Err ''Detected configuration for unsupported module id'')"

text \<open>An empty database has one of these states under the prefix of a module.\<close>

fun initial_state :: "('s, 'g1::linorder, 'g2) fed_config \<Rightarrow> ('g1, 'g2) fed_state" where
  "initial_state (MintConf M) = MintState mint_db_empty"
| "initial_state (LightningConf L) = LightningState lnv2_db_empty"
| "initial_state (Mintv2Conf cfg) = Mintv2State mintv2_db_empty"
| "initial_state (WalletConf cfg) = WalletState wallet_db_empty"
| "initial_state (OtherConf kind) = WalletState wallet_db_empty"

subsection \<open>The contract, per kind of module\<close>

fun fed_balance :: "('s, 'g1::linorder, 'g2) fed_config \<Rightarrow> ('g1, 'g2) fed_state \<Rightarrow> int" where
  "fed_balance (MintConf M) s = mint_balance (the (mint_of s))"
| "fed_balance (LightningConf L) s = lnv2_balance (the (lightning_of s))"
| "fed_balance (Mintv2Conf cfg) s = mintv2_balance cfg (the (mintv2_of s))"
| "fed_balance (WalletConf cfg) s = w2_balance (the (wallet_of s))"
| "fed_balance (OtherConf kind) s = 0"

fun fed_outs :: "('s, 'g1::linorder, 'g2) fed_config \<Rightarrow> ('g1, 'g2) fed_state \<Rightarrow> out_point set" where
  "fed_outs (MintConf M) s = mint_outs (the (mint_of s))"
| "fed_outs (LightningConf L) s = lnv2_outs (the (lightning_of s))"
| "fed_outs (Mintv2Conf cfg) s = mintv2_outs (the (mintv2_of s))"
| "fed_outs (WalletConf cfg) s = w2_outs (the (wallet_of s))"
| "fed_outs (OtherConf kind) s = {}"

text \<open>The state has the type of the module and satisfies its invariant.\<close>

fun fed_good ::
  "('s, 'g1::linorder, 'g2, 'gt) fed_env \<Rightarrow> ('s, 'g1, 'g2) fed_config \<Rightarrow> ('g1, 'g2) fed_state \<Rightarrow> bool" where
  "fed_good env (MintConf M) s \<longleftrightarrow> (\<exists>db. mint_of s = Some db \<and> mint_good M db)"
| "fed_good env (LightningConf L) s \<longleftrightarrow> (\<exists>db. lightning_of s = Some db \<and> lnv2_good (fe_lnv2 env) L db)"
| "fed_good env (Mintv2Conf cfg) s \<longleftrightarrow> (\<exists>db. mintv2_of s = Some db \<and> mintv2_wf db)"
| "fed_good env (WalletConf cfg) s \<longleftrightarrow> (\<exists>db. wallet_of s = Some db \<and> w2_wf db)"
| "fed_good env (OtherConf kind) s \<longleftrightarrow> True"

fun fed_fits :: "('s, 'g1::linorder, 'g2) fed_config \<Rightarrow> ('g1, 'g2) fed_state \<Rightarrow> bool" where
  "fed_fits (MintConf M) s \<longleftrightarrow> mint_fits (the (mint_of s))"
| "fed_fits (LightningConf L) s \<longleftrightarrow> lnv2_fits (the (lightning_of s))"
| "fed_fits (Mintv2Conf cfg) s \<longleftrightarrow> mintv2_fits cfg (the (mintv2_of s))"
| "fed_fits (WalletConf cfg) s \<longleftrightarrow> w2_fits (the (wallet_of s))"
| "fed_fits (OtherConf kind) s \<longleftrightarrow> True"

lemma erased_audited:
  assumes "audited_module (sm_process_input k) (sm_process_output k) bal ots gd (sm_process_consensus_item k) (sm_audit k) ft"
    and "\<And>s. project (inject s) = Some s" and "m = erase_module inject project di dt dc fi fo k"
    and "\<And>s. fb s = bal (the (project s))" and "\<And>s. fouts s = ots (the (project s))"
    and "\<And>s. fg s \<longleftrightarrow> (\<exists>x. project s = Some x \<and> gd x)" and "\<And>s. ff s \<longleftrightarrow> ft (the (project s))"
  shows "audited_module (sm_process_input m) (sm_process_output m) fb fouts fg (sm_process_consensus_item m) (sm_audit m) ff"
proof -
  have "fb = (\<lambda>s. bal (the (project s)))" "fouts = (\<lambda>s. ots (the (project s)))"
    "fg = (\<lambda>s. \<exists>x. project s = Some x \<and> gd x)" "ff = (\<lambda>s. ft (the (project s)))"
    using assms(4-7) by auto
  then show ?thesis
    using audited_module_erase [where project = project and inject = inject, OF assms(1,2)]
    by (simp add: assms(3) erase_module_def)
qed

lemma init_module_audited:
  assumes "init_module env cfg = Some m"
  shows "audited_module (sm_process_input m) (sm_process_output m) (fed_balance cfg) (fed_outs cfg) (fed_good env cfg)
    (sm_process_consensus_item m) (sm_audit m) (fed_fits cfg)"
proof (cases cfg)
  case (MintConf M)
  have "audited_module (sm_process_input (mint_module (fe_curve env) (fe_hash160 env) M))
      (sm_process_output (mint_module (fe_curve env) (fe_hash160 env) M)) mint_balance mint_outs (mint_good M)
      (sm_process_consensus_item (mint_module (fe_curve env) (fe_hash160 env) M))
      (sm_audit (mint_module (fe_curve env) (fe_hash160 env) M)) mint_fits"
    using mint_audited.audited_module_axioms by (simp add: mint_module_def)
  then show ?thesis
    by (rule erased_audited [where inject = MintState and project = mint_of]) (use assms MintConf in auto)
next
  case (LightningConf L)
  have "audited_module (sm_process_input (lnv2_module (fe_lnv2 env) L)) (sm_process_output (lnv2_module (fe_lnv2 env) L))
      lnv2_balance lnv2_outs (lnv2_good (fe_lnv2 env) L) (sm_process_consensus_item (lnv2_module (fe_lnv2 env) L))
      (sm_audit (lnv2_module (fe_lnv2 env) L)) lnv2_fits"
    using lnv2_audited.audited_module_axioms by (simp add: lnv2_module_def)
  then show ?thesis
    by (rule erased_audited [where inject = LightningState and project = lightning_of]) (use assms LightningConf in auto)
next
  case (Mintv2Conf c)
  have "audited_module (sm_process_input (mintv2_module (fe_curve env) (fe_hash160 env) c))
      (sm_process_output (mintv2_module (fe_curve env) (fe_hash160 env) c)) (mintv2_balance c) mintv2_outs mintv2_wf
      (sm_process_consensus_item (mintv2_module (fe_curve env) (fe_hash160 env) c))
      (sm_audit (mintv2_module (fe_curve env) (fe_hash160 env) c)) (mintv2_fits c)"
    using mintv2_audited.audited_module_axioms by (simp add: mintv2_module_def)
  then show ?thesis
    by (rule erased_audited [where inject = Mintv2State and project = mintv2_of]) (use assms Mintv2Conf in auto)
next
  case (WalletConf c)
  have "audited_module (sm_process_input (walletv2_module (fe_wallet env) c (fe_rpc env)))
      (sm_process_output (walletv2_module (fe_wallet env) c (fe_rpc env))) w2_balance w2_outs w2_wf
      (sm_process_consensus_item (walletv2_module (fe_wallet env) c (fe_rpc env)))
      (sm_audit (walletv2_module (fe_wallet env) c (fe_rpc env))) w2_fits"
    using w2_audited.audited_module_axioms by (simp add: walletv2_module_def)
  then show ?thesis
    by (rule erased_audited [where inject = WalletState and project = wallet_of]) (use assms WalletConf in auto)
qed (use assms in simp)

text \<open>
  Inputs and outputs of the mint and of the lightning module, which never panic. The other two
  modules have assertions that depend on the outside, so none of their items are counted here.
\<close>

fun fed_used :: "('s, 'g1::linorder, 'g2) fed_config \<Rightarrow> ('g1, 'g2) fed_state \<Rightarrow> nat" where
  "fed_used (MintConf M) s = mint_used (the (mint_of s))"
| "fed_used _ s = 0"

fun fed_tin :: "('s, 'g1::linorder, 'g2) fed_config \<Rightarrow> 'g1 fed_input \<Rightarrow> bool" where
  "fed_tin (MintConf M) i \<longleftrightarrow> mint_in i \<noteq> None"
| "fed_tin (LightningConf L) i \<longleftrightarrow> lightning_in i \<noteq> None"
| "fed_tin _ i \<longleftrightarrow> False"

fun fed_tout :: "('s, 'g1::linorder, 'g2) fed_config \<Rightarrow> ('g1, 'g2) fed_output \<Rightarrow> bool" where
  "fed_tout (MintConf M) ot \<longleftrightarrow> mint_out ot \<noteq> None"
| "fed_tout (LightningConf L) ot \<longleftrightarrow> lightning_out ot \<noteq> None"
| "fed_tout _ ot \<longleftrightarrow> False"

lemma erased_funded:
  assumes "funds_module (sm_process_input k) (sm_process_output k) bal ots gd us (\<lambda>_. True) (\<lambda>_. True)"
    and "\<And>s. project (inject s) = Some s" and "m = erase_module inject project di dt dc fi fo k"
    and "\<And>s. fb s = bal (the (project s))" and "\<And>s. fouts s = ots (the (project s))"
    and "\<And>s. fg s \<longleftrightarrow> (\<exists>x. project s = Some x \<and> gd x)" and "\<And>s. fu s = us (the (project s))"
    and "\<And>i. ti i \<longleftrightarrow> di i \<noteq> None" and "\<And>ot. tt ot \<longleftrightarrow> dt ot \<noteq> None"
  shows "funds_module (sm_process_input m) (sm_process_output m) fb fouts fg fu ti tt"
proof -
  have "fb = (\<lambda>s. bal (the (project s)))" "fouts = (\<lambda>s. ots (the (project s)))"
    "fg = (\<lambda>s. \<exists>x. project s = Some x \<and> gd x)" "fu = (\<lambda>s. us (the (project s)))"
    "ti = (\<lambda>i. \<exists>x. di i = Some x \<and> True)" "tt = (\<lambda>ot. \<exists>x. dt ot = Some x \<and> True)"
    using assms(4-9) by auto
  then show ?thesis
    using funds_module_erase [where project = project and inject = inject, OF assms(1,2)]
    by (simp add: assms(3) erase_module_def)
qed

lemma init_module_funded:
  assumes "init_module env cfg = Some m"
  shows "funds_module (sm_process_input m) (sm_process_output m) (fed_balance cfg) (fed_outs cfg) (fed_good env cfg)
    (fed_used cfg) (fed_tin cfg) (fed_tout cfg)"
proof -
  have laws: "funds_laws (sm_process_input m) (sm_process_output m) (fed_balance cfg) (fed_outs cfg) (fed_good env cfg)"
    by (rule audited_module.axioms(1) [OF init_module_audited [OF assms]])
  show ?thesis
  proof (cases cfg)
    case (MintConf M)
    have "funds_module (sm_process_input (mint_module (fe_curve env) (fe_hash160 env) M))
        (sm_process_output (mint_module (fe_curve env) (fe_hash160 env) M)) mint_balance mint_outs (mint_good M)
        mint_used (\<lambda>_. True) (\<lambda>_. True)"
      using mint_funds.funds_module_axioms by (simp add: mint_module_def)
    then show ?thesis
      by (rule erased_funded [where inject = MintState and project = mint_of and di = mint_in and dt = mint_out])
        (use assms MintConf in auto)
  next
    case (LightningConf L)
    have "funds_module (sm_process_input (lnv2_module (fe_lnv2 env) L)) (sm_process_output (lnv2_module (fe_lnv2 env) L))
        lnv2_balance lnv2_outs (lnv2_good (fe_lnv2 env) L) (\<lambda>_. 0) (\<lambda>_. True) (\<lambda>_. True)"
      using lnv2_funds.funds_module_axioms by (simp add: lnv2_module_def)
    then show ?thesis
      by (rule erased_funded [where inject = LightningState and project = lightning_of and di = lightning_in and dt = lightning_out])
        (use assms LightningConf in auto)
  qed (use laws in \<open>auto intro!: funds_module.intro funds_module_axioms.intro\<close>)
qed

lemma init_module_verify:
  assumes "init_module env cfg = Some m" and "fed_tin cfg i"
  shows "sm_verify_input m i \<noteq> Panic"
proof (cases cfg)
  case (MintConf M)
  then show ?thesis
    using assms by (auto simp: erase_module_def dyn_verify_input_def mint_module_def mint_verify_input_def map_err_eq_Panic
        rbind_eq_Panic split: mint_input.splits if_splits)
next
  case (LightningConf L)
  then show ?thesis
    using assms by (auto simp: erase_module_def dyn_verify_input_def lnv2_module_def)
qed (use assms in auto)

subsection \<open>The registry\<close>

definition fed_modules ::
  "('s, 'g1::linorder, 'g2, 'gt) fed_env \<Rightarrow> (module_instance_id \<times> ('s, 'g1, 'g2) fed_config) list \<Rightarrow> ('g1, 'g2) fed_registry" where
  "fed_modules env cfgs = (case init_modules env cfgs [] of Ok modules \<Rightarrow> modules | _ \<Rightarrow> [])"

text \<open>The configuration of an instance; the keys of a configuration are distinct, else the last entry counts.\<close>

definition conf :: "(module_instance_id \<times> ('s, 'g1, 'g2) fed_config) list \<Rightarrow> module_instance_id \<Rightarrow> ('s, 'g1, 'g2) fed_config" where
  "conf cfgs mid = the (map_of (rev cfgs) mid)"

lemma init_modules_Ok:
  assumes "init_modules env cfgs modules = Ok modules'" and "bt_wf modules"
  shows "bt_wf modules' \<and> (\<forall>mid. bt_get modules' mid =
    (case map_of (rev cfgs) mid of None \<Rightarrow> bt_get modules mid | Some c \<Rightarrow> init_module env c))"
  using assms
proof (induction env cfgs modules rule: init_modules.induct)
  case (2 env k c cfgs modules)
  then obtain m where m: "init_module env c = Some m" "init_modules env cfgs (bt_insert k m modules) = Ok modules'"
    and u: "fe_prepare_db env k = Ok ()" "fe_start env k = Ok ()"
    by (auto split: option.splits)
  have IH: "bt_wf modules'" "\<And>mid. bt_get modules' mid =
      (case map_of (rev cfgs) mid of None \<Rightarrow> bt_get (bt_insert k m modules) mid | Some c \<Rightarrow> init_module env c)"
    using "2.IH" [OF m(1) u m(2)] "2.prems"(2) by (simp_all add: bt_wf_insert)
  show ?case
    using IH m(1) by (auto simp: map_of_bt_insert map_add_def split: option.splits)
qed simp

lemma fed_modules_wf: "bt_wf (fed_modules env cfgs)"
  using init_modules_Ok [of env cfgs "[]"] by (auto simp: fed_modules_def split: result.splits)

lemma fed_modules_get:
  assumes "bt_get (fed_modules env cfgs) mid = Some m"
  shows "init_module env (conf cfgs mid) = Some m"
  using assms init_modules_Ok [of env cfgs "[]"]
  by (auto simp: fed_modules_def conf_def split: result.splits option.splits)

interpretation fed: audited_registry "fed_modules env cfgs" "\<lambda>mid. fed_balance (conf cfgs mid)"
  "\<lambda>mid. fed_outs (conf cfgs mid)" "\<lambda>mid. fed_good env (conf cfgs mid)" "\<lambda>mid. fed_fits (conf cfgs mid)"
  for env :: "('s, 'g1::linorder, 'g2, 'gt) fed_env" and cfgs
proof (intro audited_registry.intro conserving_registry.intro audited_registry_axioms.intro)
  fix mid m
  assume "bt_get (fed_modules env cfgs) mid = Some m"
  note a = init_module_audited [OF fed_modules_get [OF this]]
  show "audited_module (sm_process_input m) (sm_process_output m) (fed_balance (conf cfgs mid)) (fed_outs (conf cfgs mid))
      (fed_good env (conf cfgs mid)) (sm_process_consensus_item m) (sm_audit m) (fed_fits (conf cfgs mid))"
    by (rule a)
  show "funds_laws (sm_process_input m) (sm_process_output m) (fed_balance (conf cfgs mid)) (fed_outs (conf cfgs mid))
      (fed_good env (conf cfgs mid))"
    by (rule audited_module.axioms(1) [OF a])
qed (rule fed_modules_wf)

interpretation fed_funds: funded_registry "fed_modules env cfgs" "\<lambda>mid. fed_balance (conf cfgs mid)"
  "\<lambda>mid. fed_outs (conf cfgs mid)" "\<lambda>mid. fed_good env (conf cfgs mid)" "\<lambda>mid. fed_used (conf cfgs mid)"
  "\<lambda>mid. fed_tin (conf cfgs mid)" "\<lambda>mid. fed_tout (conf cfgs mid)"
  for env :: "('s, 'g1::linorder, 'g2, 'gt) fed_env" and cfgs
  by (intro funded_registry.intro funded_registry_axioms.intro fed.conserving_registry_axioms)
    (auto intro: init_module_funded dest: fed_modules_get init_module_verify)

subsection \<open>The state of a guardian\<close>

definition fed_wf ::
  "('s, 'g1::linorder, 'g2, 'gt) fed_env \<Rightarrow> (module_instance_id \<times> ('s, 'g1, 'g2) fed_config) list
    \<Rightarrow> ('g1, 'g2) fed_state module_dbs \<Rightarrow> bool" where
  "fed_wf env cfgs dbs \<longleftrightarrow> list_all (\<lambda>(mid, m). fed_good env (conf cfgs mid) (dbs mid)) (fed_modules env cfgs)"

definition fed_fit ::
  "('s, 'g1::linorder, 'g2, 'gt) fed_env \<Rightarrow> (module_instance_id \<times> ('s, 'g1, 'g2) fed_config) list
    \<Rightarrow> ('g1, 'g2) fed_state module_dbs \<Rightarrow> bool" where
  "fed_fit env cfgs dbs \<longleftrightarrow> list_all (\<lambda>(mid, m). fed_fits (conf cfgs mid) (dbs mid)) (fed_modules env cfgs)"

text \<open>What the federation holds less what it owes, in millisatoshis.\<close>

definition net_worth ::
  "('s, 'g1::linorder, 'g2, 'gt) fed_env \<Rightarrow> (module_instance_id \<times> ('s, 'g1, 'g2) fed_config) list
    \<Rightarrow> ('g1, 'g2) fed_state module_dbs \<Rightarrow> int" where
  "net_worth env cfgs dbs = (\<Sum>(mid, m)\<leftarrow>fed_modules env cfgs. fed_balance (conf cfgs mid) (dbs mid))"

definition outs_known ::
  "('s, 'g1::linorder, 'g2, 'gt) fed_env \<Rightarrow> (module_instance_id \<times> ('s, 'g1, 'g2) fed_config) list
    \<Rightarrow> (('g1, 'g2) fed_state, 'g1 fed_input, ('g1, 'g2) fed_output, fed_item) engine_db \<Rightarrow> bool" where
  "outs_known env cfgs db \<longleftrightarrow> list_all (\<lambda>(mid, m). fst ` fed_outs (conf cfgs mid) (ed_modules db mid)
     \<subseteq> dom (bt_get (ed_accepted_txs db))) (fed_modules env cfgs)"

lemma all_in_registry:
  "list_all (\<lambda>(mid, m). P mid) (fed_modules env cfgs) \<longleftrightarrow> (\<forall>mid. bt_get (fed_modules env cfgs) mid \<noteq> None \<longrightarrow> P mid)"
  by (auto simp: list_all_iff map_of_eq_None_iff)

lemma fed_all_good: "fed_wf env cfgs dbs \<longleftrightarrow> fed.all_good TYPE(_) TYPE(_) env cfgs dbs"
  unfolding fed_wf_def fed.all_good_def all_in_registry ..

lemma fed_all_fit: "fed_fit env cfgs dbs \<longleftrightarrow> fed.all_fit TYPE(_) TYPE(_) env cfgs dbs"
  unfolding fed_fit_def fed.all_fit_def all_in_registry ..

lemma fed_outs_accepted: "outs_known env cfgs db \<longleftrightarrow> fed.outs_accepted TYPE(_) TYPE(_) env cfgs db"
  unfolding outs_known_def fed.outs_accepted_def all_in_registry ..

lemma net_worth_total: "net_worth env cfgs dbs = total_balance (\<lambda>mid. fed_balance (conf cfgs mid)) (fed_modules env cfgs) dbs"
  by (simp add: net_worth_def total_balance_def)

text \<open>The configurations a guardian accepts, and its database before the first session.\<close>

fun config_ok :: "('s, 'g1::linorder, 'g2) fed_config \<Rightarrow> bool" where
  "config_ok (MintConf M) \<longleftrightarrow> mint_fee_ok (mc_fee_consensus (m_cfg M))"
| "config_ok (LightningConf L) \<longleftrightarrow> lightning_ok L"
| "config_ok _ \<longleftrightarrow> True"

definition fresh_db ::
  "(module_instance_id \<times> ('s, 'g1::linorder, 'g2) fed_config) list
    \<Rightarrow> (('g1, 'g2) fed_state, 'g1 fed_input, ('g1, 'g2) fed_output, fed_item) engine_db" where
  "fresh_db cfgs = \<lparr>ed_modules = \<lambda>mid. initial_state (conf cfgs mid), ed_accepted_items = [], ed_accepted_txs = [],
     ed_signed_session_outcomes = []\<rparr>"

lemma initial_state_good:
  assumes "config_ok c"
  shows "fed_good env c (initial_state c)" and "fed_balance c (initial_state c) = 0" and "fed_outs c (initial_state c) = {}"
  using assms mintv2_wf_empty w2_wf_empty
  by (cases c; auto simp: mint_good_def mint_wf_def mint_db_empty_def lnv2_good_def lnv2_wf_def lnv2_db_empty_def
      mint_balance_def lnv2_balance_def mintv2_balance_def w2_balance_def bt.total_def mintv2_db_empty_def wallet_db_empty_def
      mint_outs_def lnv2_outs_def mintv2_outs_def w2_outs_def intro!: exI [of _ "[]"])+

lemma conf_ok:
  assumes "list_all (\<lambda>(mid, c). config_ok c) cfgs" and "bt_get (fed_modules env cfgs) mid \<noteq> None"
  shows "config_ok (conf cfgs mid)"
proof -
  obtain c where "map_of (rev cfgs) mid = Some c"
    using assms(2) init_modules_Ok [of env cfgs "[]"] by (auto simp: fed_modules_def split: result.splits option.splits)
  then show ?thesis
    using assms(1) by (auto simp: conf_def list_all_iff dest!: map_of_SomeD)
qed

lemma fresh_db_Ok:
  assumes "list_all (\<lambda>(mid, c). config_ok c) cfgs"
  shows "fed.all_good TYPE(_) TYPE(_) env cfgs (ed_modules (fresh_db cfgs))" and "net_worth env cfgs (ed_modules (fresh_db cfgs)) = 0"
    and "fed.outs_accepted TYPE(_) TYPE(_) env cfgs (fresh_db cfgs)"
proof -
  note ok = initial_state_good [OF conf_ok [OF assms, of env]]
  show "fed.all_good TYPE(_) TYPE(_) env cfgs (ed_modules (fresh_db cfgs))" "fed.outs_accepted TYPE(_) TYPE(_) env cfgs (fresh_db cfgs)"
    using ok by (auto simp: fed.all_good_def fed.outs_accepted_def fresh_db_def)
  have "fed_balance (conf cfgs mid) (initial_state (conf cfgs mid)) = 0" if "(mid, m) \<in> set (fed_modules env cfgs)" for mid m
  proof (rule ok(2))
    show "bt_get (fed_modules env cfgs) mid \<noteq> None"
      using weak_map_of_SomeI [OF that] by auto
  qed
  then show "net_worth env cfgs (ed_modules (fresh_db cfgs)) = 0"
    unfolding net_worth_def fresh_db_def by (subst map_cong [OF refl, where g = "\<lambda>_. 0"]) auto
qed

end
