(* ===== verification/Federation_Safety.thy ===== *)
theory Federation_Safety
  imports Federation Walletv2_Chain
begin

section \<open>Safety of a federation\<close>

text \<open>
  The properties of a guardian that span its engine and its modules, along every sequence of
  accepted items and completed sessions from an empty database.
\<close>

lemma fed_modules_init: "init_modules env cfgs [] = Ok modules \<Longrightarrow> fed_modules env cfgs = modules"
  by (simp add: fed_modules_def)

lemma reaches_invariant:
  assumes "init_modules env cfgs [] = Ok (en_modules E)" and "list_all (\<lambda>(mid, c). config_ok c) cfgs"
    and "engine_reaches E (fed_fit env cfgs) (fresh_db cfgs) db"
  shows "fed.all_good TYPE(_) TYPE(_) env cfgs (ed_modules db)" and "0 \<le> net_worth env cfgs (ed_modules db)"
    and "fed.outs_accepted TYPE(_) TYPE(_) env cfgs db"
proof -
  have E: "en_modules E = fed_modules env cfgs"
    using fed_modules_init [OF assms(1)] by simp
  note start = fresh_db_Ok [OF assms(2), of env]
  have "0 \<le> total_balance (\<lambda>mid. fed_balance (conf cfgs mid)) (fed_modules env cfgs) (ed_modules (fresh_db cfgs))"
    using start(2) by (simp add: net_worth_total)
  from fed.reaches_Ok [OF E _ start(1) this start(3) assms(3)]
  show "fed.all_good TYPE(_) TYPE(_) env cfgs (ed_modules db)" "0 \<le> net_worth env cfgs (ed_modules db)"
    "fed.outs_accepted TYPE(_) TYPE(_) env cfgs db"
    by (simp_all add: fed_all_fit net_worth_total)
qed

text \<open>
  C1: the balance sheet of a federation never becomes negative. Whatever items were accepted before,
  an item that the modules accept passes the audit that follows it, so the engine commits it and
  does not stop at its assertion, and what the federation holds still covers what it owes. The
  amounts have to fit in \<open>i64\<close>.
\<close>

theorem federation_solvent:
  assumes modules: "init_modules env cfgs [] = Ok (en_modules E)" and conf: "list_all (\<lambda>(mid, c). config_ok c) cfgs"
    and reach: "engine_reaches E (fed_fit env cfgs) (fresh_db cfgs) db"
    and peer: "bt_get (en_broadcast_public_keys E) peer \<noteq> None" and free: "bt_get (ed_accepted_items db) i = None"
    and db1: "process_consensus_item_with_db_transaction E db item peer = Ok db1"
    and fit: "fed_fit env cfgs (ed_modules db1)"
    and small: "(\<Sum>x\<leftarrow>snd (audit_modules (en_modules E) (ed_modules db1) []). \<bar>sint (ai_milli_sat x)\<bar>) < 2 ^ 63"
  shows "process_consensus_item E (\<lambda>_. Ok ()) db i item peer = Ok (committed E i item peer db1)
    \<and> 0 \<le> net_worth env cfgs (ed_modules db) \<and> 0 \<le> net_worth env cfgs (ed_modules (committed E i item peer db1))"
proof -
  have E: "en_modules E = fed_modules env cfgs"
    using fed_modules_init [OF modules] by simp
  note inv = reaches_invariant [OF modules conf reach]
  show ?thesis
    using fed.accepted_item_commits [OF E inv(1) _ peer free db1 _ small [unfolded E]] inv(2) fit
    by (simp add: fed_all_fit net_worth_total)
qed

text \<open>
  C2: the database of a guardian stays well-typed: under the prefix of every module instance is a
  state of that module's type that satisfies the invariant of the module, and the out points the
  modules know belong to accepted transactions.
\<close>

theorem federation_well_typed:
  assumes "init_modules env cfgs [] = Ok (en_modules E)" and "list_all (\<lambda>(mid, c). config_ok c) cfgs"
    and "engine_reaches E (fed_fit env cfgs) (fresh_db cfgs) db"
  shows "fed_wf env cfgs (ed_modules db) \<and> outs_known env cfgs db"
  using reaches_invariant [OF assms] by (simp add: fed_all_good fed_outs_accepted)

text \<open>
  C3: no transaction over the mint and the lightning module makes a guardian panic: each one is
  accepted or rejected with an error. The counters of the modules must have room for its items.
\<close>

theorem federation_transaction_safe:
  assumes modules: "init_modules env cfgs [] = Ok (en_modules E)" and conf: "list_all (\<lambda>(mid, c). config_ok c) cfgs"
    and reach: "engine_reaches E (fed_fit env cfgs) (fresh_db cfgs) db"
    and inputs: "\<forall>(mid, x)\<in>set (tx_inputs tx). bt_get (en_modules E) mid \<noteq> None \<and> fed_tin (conf cfgs mid) x"
    and outputs: "\<forall>(mid, x)\<in>set (tx_outputs tx). bt_get (en_modules E) mid \<noteq> None \<and> fed_tout (conf cfgs mid) x"
    and room: "\<forall>mid. fed_used (conf cfgs mid) (ed_modules db mid) + length (tx_inputs tx) + length (tx_outputs tx) < 2 ^ 64 - 1"
  shows "process_consensus_item_with_db_transaction E db (CITransaction tx) peer \<noteq> Panic"
proof -
  have E: "en_modules E = fed_modules env cfgs"
    using fed_modules_init [OF modules] by simp
  note inv = reaches_invariant [OF modules conf reach]
  have "process_transaction_with_dbtx (en_tx_env E) (fed_modules env cfgs) (ed_modules db) tx (en_version E) Consensus \<noteq> Panic"
    if new: "bt_get (ed_accepted_txs db) (tx_hash (en_tx_env E) tx) = None"
  proof (rule fed_funds.transaction_safe [OF inv(1) inputs [unfolded E] outputs [unfolded E] room])
    show "\<forall>mid. bt_get (fed_modules env cfgs) mid \<noteq> None \<longrightarrow>
        tx_hash (en_tx_env E) tx \<notin> fst ` fed_outs (conf cfgs mid) (ed_modules db mid)"
      using inv(3) new unfolding fed.outs_accepted_def by blast
  qed
  then show ?thesis
    by (auto simp: process_consensus_item_with_db_transaction_def E Let_def rbind_eq_Panic map_err_eq_Panic)
qed

subsection \<open>A federation with three modules\<close>

definition sample_fed_env :: "(rat, rat, rat, rat) fed_env" where
  "sample_fed_env = \<lparr>fe_curve = rat_curve, fe_hash160 = \<lambda>b. b, fe_lnv2 = sample_lnv2_env, fe_wallet = sample_w2_env,
     fe_rpc = sample_rpc, fe_prepare_db = \<lambda>_. Ok (), fe_start = \<lambda>_. Ok ()\<rparr>"

lemma sample_fed_env_sel [simp]: "fe_prepare_db sample_fed_env mid = Ok ()" "fe_start sample_fed_env mid = Ok ()"
  by (simp_all add: sample_fed_env_def)

definition sample_confs :: "(module_instance_id \<times> (rat, rat, rat) fed_config) list" where
  "sample_confs = [(0, MintConf sample_mint), (1, LightningConf sample_lightning), (2, WalletConf sample_w2_config)]"

type_synonym sample_fed = "((rat, rat) fed_state, rat fed_input, (rat, rat) fed_output, fed_item, fed_input_error, fed_output_error) engine"

definition sample_fed_engine :: sample_fed where
  "sample_fed_engine =
     \<lparr>en_tx_env = \<lparr>te_hash = \<lambda>b. b, te_benc = \<lambda>n. [], te_enc_input = \<lambda>_. [], te_enc_output = \<lambda>_. [],
        te_verify_schnorr = \<lambda>_ _ _. True\<rparr>,
      en_modules = fed_modules sample_fed_env sample_confs, en_version = (2, 1), en_identity = 0,
      en_broadcast_public_keys = [(0, [7])], en_broadcast_rounds_per_session = 2, en_sha256 = \<lambda>b. b,
      en_enc_item = \<lambda>_. [], en_calculate_root = \<lambda>_. None, en_decode = \<lambda>_. Ok [], en_sign_schnorr = \<lambda>m. m,
      en_verify_schnorr = \<lambda>_ _ _. True, en_signature_from_slice = Some\<rparr>"

lemma sample_fed_engine_sel [simp]:
  "en_modules sample_fed_engine = fed_modules sample_fed_env sample_confs" "en_broadcast_public_keys sample_fed_engine = [(0, [7])]"
  by (simp_all add: sample_fed_engine_def)

lemma sample_fed_modules:
  "init_modules sample_fed_env sample_confs [] = Ok (en_modules sample_fed_engine)"
  "map fst (fed_modules sample_fed_env sample_confs) = [0, 1, 2]"
  by (simp_all add: fed_modules_def sample_confs_def)

lemma sample_conf [simp]:
  "conf sample_confs 0 = MintConf sample_mint" "conf sample_confs 1 = LightningConf sample_lightning"
  "conf sample_confs 2 = WalletConf sample_w2_config"
  by (simp_all add: conf_def sample_confs_def)

lemma sample_confs_ok: "list_all (\<lambda>(mid, c). config_ok c) sample_confs"
proof -
  have "mint_fee_new 0 = Ok \<lparr>fc_base = 100, fc_ppm = 0\<rparr>"
    by (simp add: mint_fee_new_def from_msats_def)
  then have "mint_fee_ok (mc_fee_consensus (m_cfg sample_mint))"
    by (auto simp: mint_fee_ok_def sample_mint_def)
  moreover have "lightning_ok sample_lightning"
    by (simp add: lightning_ok_def lnv2_fee_ok_def sample_lightning_def)
  ultimately show ?thesis
    by (simp add: sample_confs_def)
qed

text \<open>A vote of the lightning module is accepted and committed.\<close>

abbreviation sample_vote :: "(rat fed_input, (rat, rat) fed_output, fed_item) consensus_item" where
  "sample_vote \<equiv> CIModule 1 (LightningItem (BlockCountVote 5))"

definition sample_voted_db :: "((rat, rat) fed_state, rat fed_input, (rat, rat) fed_output, fed_item) engine_db" where
  "sample_voted_db = fresh_db sample_confs\<lparr>ed_modules := (ed_modules (fresh_db sample_confs))
     (1 := LightningState (lnv2_db_empty\<lparr>ld_block_count_votes := [(0, 5)]\<rparr>))\<rparr>"

lemma sample_fed_registry:
  "fed_modules sample_fed_env sample_confs =
    [(0, the (init_module sample_fed_env (MintConf sample_mint))), (1, the (init_module sample_fed_env (LightningConf sample_lightning))),
     (2, the (init_module sample_fed_env (WalletConf sample_w2_config)))]"
  by (simp add: fed_modules_def sample_confs_def)

lemma sample_vote_accepted:
  "process_consensus_item_with_db_transaction sample_fed_engine (fresh_db sample_confs) sample_vote 0 = Ok sample_voted_db"
proof -
  have "get_expect (fed_modules sample_fed_env sample_confs) 1
      = (Ok (the (init_module sample_fed_env (LightningConf sample_lightning))) :: (string, _) result)"
    by (simp add: get_expect_def sample_fed_registry)
  moreover have "sm_process_consensus_item (the (init_module sample_fed_env (LightningConf sample_lightning)))
      (LightningState lnv2_db_empty) (LightningItem (BlockCountVote 5)) 0
      = Ok (LightningState (lnv2_db_empty\<lparr>ld_block_count_votes := [(0, 5)]\<rparr>))"
    by (simp add: erase_module_def dyn_process_consensus_item_def lnv2_module_def lnv2_process_consensus_item_def
        insert_entry_def lnv2_db_empty_def)
  ultimately show ?thesis
    by (simp add: process_consensus_item_with_db_transaction_def sample_voted_db_def fresh_db_def del: init_module.simps)
qed

lemma sample_voted_states [simp]:
  "ed_modules sample_voted_db 0 = MintState mint_db_empty"
  "ed_modules sample_voted_db 1 = LightningState (lnv2_db_empty\<lparr>ld_block_count_votes := [(0, 5)]\<rparr>)"
  "ed_modules sample_voted_db 2 = WalletState wallet_db_empty"
  by (simp_all add: sample_voted_db_def fresh_db_def)

lemma sample_voted_fit: "fed_fit sample_fed_env sample_confs (ed_modules sample_voted_db)"
  by (simp add: fed_fit_def sample_fed_registry mint_fits_def mint_db_empty_def issued_def redeemed_def lnv2_fits_def
      lnv2_db_empty_def w2_fits_def wallet_db_empty_def del: init_module.simps)

lemma sample_voted_audit:
  "map ai_milli_sat (snd (audit_modules (fed_modules sample_fed_env sample_confs) (ed_modules sample_voted_db) [])) = [0, 0]"
proof -
  have mint: "sm_audit (the (init_module sample_fed_env (MintConf sample_mint))) (MintState mint_db_empty) items mid
      = (MintState (fst (mint_audit (mint_db_empty :: rat mint_db) items mid)), snd (mint_audit (mint_db_empty :: rat mint_db) items mid))"
    for items mid
    by (simp add: erase_module_def dyn_audit_def mint_module_def split: prod.splits)
  have lightning: "sm_audit (the (init_module sample_fed_env (LightningConf sample_lightning)))
      (LightningState (lnv2_db_empty\<lparr>ld_block_count_votes := v\<rparr>)) items mid
      = (LightningState (lnv2_db_empty\<lparr>ld_block_count_votes := v\<rparr>), items)" for items mid v
    by (simp add: erase_module_def dyn_audit_def lnv2_module_def lnv2_audit_def lnv2_db_empty_def add_items_def)
  have wallet: "sm_audit (the (init_module sample_fed_env (WalletConf sample_w2_config))) (WalletState wallet_db_empty) items mid
      = (WalletState wallet_db_empty, items)" for items mid
    by (simp add: erase_module_def dyn_audit_def walletv2_module_def w2_audit_def wallet_db_empty_def add_items_def)
  have "map ai_milli_sat (snd (mint_audit (mint_db_empty :: rat mint_db) [] 0)) = [0, 0]"
    by (subst mint_audit_eq) (simp_all add: mint_db_empty_def issued_def redeemed_def)
  then show ?thesis
    by (simp add: sample_fed_registry mint lightning wallet del: init_module.simps)
qed

lemma sample_voted_small:
  "(\<Sum>x\<leftarrow>snd (audit_modules (en_modules sample_fed_engine) (ed_modules sample_voted_db) []). \<bar>sint (ai_milli_sat x)\<bar>) < 2 ^ 63"
proof -
  have "map (\<lambda>x. \<bar>sint (ai_milli_sat x)\<bar>) (snd (audit_modules (en_modules sample_fed_engine) (ed_modules sample_voted_db) []))
      = map (\<lambda>a. \<bar>sint a\<bar>) [0, 0]"
    using arg_cong [OF sample_voted_audit, of "map (\<lambda>a. \<bar>sint a\<bar>)"] by (simp add: comp_def)
  then show ?thesis
    by simp
qed

lemma sample_vote_possible:
  "bt_get (en_broadcast_public_keys sample_fed_engine) 0 \<noteq> None" "bt_get (ed_accepted_items (fresh_db sample_confs)) 0 = None"
  by (simp_all add: fresh_db_def)

theorem federation_solvent_witness:
  "process_consensus_item sample_fed_engine (\<lambda>_. Ok ()) (fresh_db sample_confs) 0 sample_vote 0
    = Ok (committed sample_fed_engine 0 sample_vote 0 sample_voted_db)"
  using federation_solvent [OF sample_fed_modules(1) sample_confs_ok engine_reaches.start sample_vote_possible sample_vote_accepted
      sample_voted_fit sample_voted_small] by blast

text \<open>The database after the vote is reached, and well-typed.\<close>

lemma sample_vote_reached:
  "engine_reaches sample_fed_engine (fed_fit sample_fed_env sample_confs) (fresh_db sample_confs)
    (committed sample_fed_engine 0 sample_vote 0 sample_voted_db)"
proof (rule engine_reaches.item [OF engine_reaches.start])
  note inv = reaches_invariant [OF sample_fed_modules(1) sample_confs_ok engine_reaches.start]
  show "process_consensus_item sample_fed_engine (\<lambda>_. Ok ()) (fresh_db sample_confs) 0 sample_vote 0
      = Ok (committed sample_fed_engine 0 sample_vote 0 sample_voted_db)"
    using fed.accepted_item_commits [OF sample_fed_engine_sel(1) inv(1) _ sample_vote_possible sample_vote_accepted _
        sample_voted_small [unfolded sample_fed_engine_sel(1)]] inv(2) sample_voted_fit
    by (simp add: fed_all_fit net_worth_total)
  show "fed_fit sample_fed_env sample_confs (ed_modules db1)"
    if "process_consensus_item_with_db_transaction sample_fed_engine (fresh_db sample_confs) sample_vote 0 = Ok db1" for db1
    using that sample_voted_fit by (simp add: sample_vote_accepted)
qed

theorem federation_well_typed_witness:
  "fed_wf sample_fed_env sample_confs (ed_modules (committed sample_fed_engine 0 sample_vote 0 sample_voted_db))"
  using federation_well_typed [OF sample_fed_modules(1) sample_confs_ok sample_vote_reached] by blast

text \<open>A transaction that redeems a note for an amount without a key is rejected, not a panic.\<close>

theorem federation_transaction_safe_witness:
  "process_consensus_item_with_db_transaction sample_fed_engine (fresh_db sample_confs)
     (CITransaction \<lparr>tx_inputs = [(0, MintIn (MintInputV0 9 sample_note))], tx_outputs = [], tx_nonce = [],
        tx_signatures = NaiveMultisig []\<rparr>) 0 \<noteq> Panic"
proof (rule federation_transaction_safe [OF sample_fed_modules(1) sample_confs_ok engine_reaches.start])
  have "fed_used (conf sample_confs mid) (ed_modules (fresh_db sample_confs) mid) = 0" for mid
    by (cases "conf sample_confs mid") (simp_all add: fresh_db_def mint_used_def mint_db_empty_def)
  then show "\<forall>mid. fed_used (conf sample_confs mid) (ed_modules (fresh_db sample_confs) mid)
      + length (tx_inputs \<lparr>tx_inputs = [(0, MintIn (MintInputV0 9 sample_note))], tx_outputs = [], tx_nonce = [], tx_signatures = NaiveMultisig []\<rparr>)
      + length (tx_outputs \<lparr>tx_inputs = [(0, MintIn (MintInputV0 9 sample_note))], tx_outputs = [], tx_nonce = [], tx_signatures = NaiveMultisig []\<rparr>)
      < 2 ^ 64 - 1"
    by simp
qed (simp_all add: sample_fed_registry)

end
