(* ===== verification/Spec2Isabelle.thy ===== *)
theory Spec2Isabelle
  imports Amounts BigSize DynTypes Peers Tiered Fees Database Transaction Balance_Sheet Mint_Keys Lnv2_Waiting Lnv2_Stream
    Mintv2_Balancing Walletv2_Pending Federation_Safety
begin

text \<open>
  A verification library for the consensus core of Fedimint, a federation of guardians that jointly
  run a bitcoin wallet, mint electronic notes against it and settle lightning payments. Clients
  submit transactions, the guardians agree on an order of consensus items with an atomic broadcast,
  and every guardian processes the items with the same deterministic code. That code is modelled
  here as functions on explicit database states. File names below are relative to \<open>src/\<close>.

  \<^bold>\<open>Conventions.\<close> Machine integers are words of their width. Unchecked arithmetic wraps, checked
  and saturating operations are written out. A fallible operation returns a \<open>result\<close>, which is
  \<open>Ok\<close>, \<open>Err\<close> or \<open>Panic\<close>; every early return, \<open>expect\<close> and assertion of the code is one of its
  branches. An ordered map is an association list with increasing keys, \<open>bt_wf\<close>. Code of other
  crates (the curve \<open>bls12_381\<close>, hashes, Schnorr and ECDSA signatures, the variable-length
  integers of the \<open>lightning\<close> crate, bitcoin scripts and descriptors, the bitcoin node, random
  numbers) is an argument of the definitions, and what is relied on is a named hypothesis. Time,
  metrics, logging and the text of messages are left out.

  \<^bold>\<open>Foundations.\<close> \<open>Prelude\<close> has results, words and checked arithmetic, \<open>Btree\<close> the ordered maps
  with the locale \<open>ordered_map\<close>, \<open>Index_Log\<close> tables keyed by a running index. \<open>Amounts\<close> is
  \<open>fedimint-core/src/amount.rs\<close>: addition of amounts in several units fails exactly on overflow.
  \<open>Encoding\<close>, \<open>BigSize\<close> and \<open>DynTypes\<close> are the consensus encoding: the locales \<open>codec\<close> and
  \<open>ordered_codec\<close> say that decoding inverts encoding and that no encoding is a prefix of another,
  each combinator is interpreted, and a value kept raw decodes later to what it would have decoded
  to at once. \<open>Peers\<close> has the thresholds and the intersection of quorums, \<open>Tiered\<close> the
  denominations, \<open>Fees\<close> the fee schedules of the modules with the locale \<open>fee_schedule\<close>, \<open>Points\<close>
  output ranges and fee rates, \<open>Votes\<close> order statistics of votes. \<open>Database\<close> is the typed layer
  and the in-memory backend: a commit succeeds exactly when no conflicting write was committed in
  between, and a prefix scan is complete.

  \<^bold>\<open>Cryptographic protocols.\<close> \<open>Tbs\<close> is \<open>crypto/tbs\<close> and \<open>Tpe\<close> is \<open>crypto/tpe\<close>, over a
  curve that satisfies \<open>curve_ok\<close>: signature shares of a threshold combine to a valid signature,
  decryption shares to the preimage. \<open>Dkg\<close> is \<open>fedimint-server/src/config/dkg_g1.rs\<close> and its twin:
  a guardian that finishes holds consistent keys whatever the others send, and an honest run ends.

  \<^bold>\<open>Modules.\<close> \<open>ServerModule\<close> models the trait as a record of operations, the erasure of its types,
  and the contracts \<open>funds_laws\<close> (an input raises the balance of a module by at least its amount, an
  output lowers it by at most its amount, the invariant is kept) and \<open>funds_module\<close> (it also never
  panics). \<open>Balance_Sheet\<close> is the audit. Four modules satisfy the contracts:
  \<^item> \<open>Mint_Server\<close> and \<open>Mint_Keys\<close>: \<open>modules/fedimint-mint-server\<close> with the issuance part of the
    client. No note is redeemed twice, issued notes are accepted, generated configurations are
    valid, migrations rebuild the tables.
  \<^item> \<open>Lnv2_Contracts\<close>, \<open>Lnv2_Server\<close>, \<open>Lnv2_Laws\<close>, \<open>Lnv2_Waiting\<close>, \<open>Lnv2_Stream\<close>:
    \<open>modules/fedimint-lnv2-server\<close>. Contracts are settled once, consensus time is confirmed by a
    threshold and monotone, waiting endpoints return and their answers are final, the stream of
    incoming contracts is complete. The waiting loops are \<open>partial_function (option)\<close> over the
    sequence of databases they see, and that they return is proved.
  \<^item> \<open>Mintv2_Server\<close>, \<open>Mintv2_Wallet\<close>, \<open>Mintv2_Balancing\<close>: \<open>modules/fedimint-mintv2-server\<close> and the
    note selection of \<open>modules/fedimint-mintv2-client\<close>. The counters are the notes in circulation,
    a panic on an input shows a forged note, and balancing a transaction either balances it, fails
    for lack of funds, or hits the assertion described in the findings.
  \<^item> \<open>Walletv2_Server\<close>, \<open>Walletv2_Laws\<close>, \<open>Walletv2_Chain\<close>, \<open>Walletv2_Pending\<close>:
    \<open>modules/fedimint-walletv2-server\<close>. The wallet refines an abstract vault of deposits and
    withdrawals, no deposit is claimed twice, the stack of pending transactions is bounded by the
    doubling fee, and only transactions signed by a threshold are broadcast.

  \<^bold>\<open>Transactions and the engine.\<close> \<open>Transaction\<close> is \<open>fedimint-core/src/transaction.rs\<close> and
  \<open>fedimint-server/src/consensus/transaction.rs\<close>: the funding check accepts exactly the balanced
  transactions, and over a registry of modules with the contracts (locales \<open>conserving_registry\<close>,
  \<open>funded_registry\<close>) an accepted transaction never lowers the total balance. \<open>Engine\<close> is
  \<open>fedimint-server/src/consensus/engine.rs\<close>: processing one item with its audit and its retried
  commit, at most ten attempts, and the two loops of a session as functions of the events that
  \<open>select!\<close> delivers. \<open>Engine_Laws\<close> adds the contract \<open>audited_module\<close> and the locale
  \<open>audited_registry\<close>, in which the assertion on the balance sheet is proved to hold;
  \<open>Engine_Replay\<close> shows that a replay after a crash continues where the session stopped;
  \<open>Engine_Sessions\<close> that every outcome the loops return is valid, that a guardian signs one header
  per session through all its crashes and replays, and that guardians therefore agree on the header
  of a session. \<open>Module_Audits\<close> discharges the contract for the four modules. \<open>Federation\<close> initialises
  the registry as \<open>fedimint-server/src/consensus/mod.rs\<close> does and interprets the registry locales
  on it, and \<open>Federation_Safety\<close> states the result: a guardian stays well-typed and solvent along
  every run, and transactions over mint and lightning never make it panic.

  \<^bold>\<open>Bounds.\<close> An audit is stated for amounts whose sums fit in \<open>i64\<close>, as the code casts them;
  running indices are stated below \<open>2 ^ 64\<close>. The bitcoin supply is far below the first bound. The mint
  of version 2 has to be configured with bitcoin as its unit for its audit, which has only one unit.

  \<^bold>\<open>Not modelled.\<close> The atomic broadcast itself, peer-to-peer networking, the interactive setup and
  the JSON-RPC server are a library or input and output. The lightning and wallet modules of version
  1, the meta module, the client framework with its state machines, the gateway and the storage
  backends are not part of the library. Of the modelled modules, database dumps, metrics and
  environment variables are left out, and for the mint and wallet of version 2 also the generation
  of their configurations.
\<close>

end
